(* ===== verification/Go_Prelude.thy ===== *)
theory Go_Prelude
  imports Main "HOL-Library.Word"
begin

text \<open>
  The vocabulary the component theories share.

  \<^item> Results. A Go function that returns \<open>(T, error)\<close> and can also panic has result type
    \<open>'a go\<close>: \<open>Ok v\<close> is \<open>(v, nil)\<close>, \<open>Err e\<close> is \<open>(nil, e)\<close>, and \<open>Panic p\<close> is a
    run-time panic. \<open>bindG\<close> is the source's \<open>if err != nil { return nil, err }\<close>.
  \<^item> Bytes. \<open>[]byte\<close> is a list of 8-bit words; a nil slice and an empty slice are both \<open>[]\<close>
    (the source never tells them apart).
  \<^item> The parts of the Go standard library the source calls on bytes and strings:
    \<open>bytes.Compare\<close>, \<open>hex.EncodeToString\<close>, \<open>hex.DecodeString\<close>, \<open>strconv.Itoa\<close>, and
    indexing with its run-time bounds check.
\<close>

unbundle bit_operations_syntax

named_theorems go_simps \<open>equations of the result type\<close>
named_theorems go_dest \<open>inversion of a successful run\<close>

section \<open>Errors, panics and results\<close>

type_synonym byte = "8 word"
type_synonym bytes = "byte list"

datatype error = Error string

primrec err_msg :: "error \<Rightarrow> string" where
  "err_msg (Error s) = s"

datatype panic = IndexOutOfRange | NilDereference | DivideByZero | TypeAssertion

datatype 'a go = Ok 'a | Err error | Panic panic

primrec bindG :: "'a go \<Rightarrow> ('a \<Rightarrow> 'b go) \<Rightarrow> 'b go" where
  "bindG (Ok x) f = f x"
| "bindG (Err e) f = Err e"
| "bindG (Panic p) f = Panic p"

text \<open>Replacing the error of a call, as in \<open>return errors.New("..." + err.Error())\<close>.\<close>

primrec map_err :: "(error \<Rightarrow> error) \<Rightarrow> 'a go \<Rightarrow> 'a go" where
  "map_err f (Ok x) = Ok x"
| "map_err f (Err e) = Err (f e)"
| "map_err f (Panic p) = Panic p"

primrec is_ok :: "'a go \<Rightarrow> bool" where
  "is_ok (Ok x) = True"
| "is_ok (Err e) = False"
| "is_ok (Panic p) = False"

text \<open>The same with a state that is kept on an error, and the loops \<open>for i := range xs\<close> that fill a
  list and return at the first error.\<close>

definition bindS :: "'a go \<times> 's \<Rightarrow> ('a \<Rightarrow> 's \<Rightarrow> 'b go \<times> 's) \<Rightarrow> 'b go \<times> 's" where
  "bindS m f =
     (case fst m of Ok x \<Rightarrow> f x (snd m) | Err e \<Rightarrow> (Err e, snd m) | Panic p \<Rightarrow> (Panic p, snd m))"

fun mapG :: "('a \<Rightarrow> 'b go) \<Rightarrow> 'a list \<Rightarrow> 'b list go" where
  "mapG f [] = Ok []"
| "mapG f (x # xs) = bindG (f x) (\<lambda>y. bindG (mapG f xs) (\<lambda>ys. Ok (y # ys)))"

fun mapS :: "('a \<Rightarrow> 's \<Rightarrow> 'b go \<times> 's) \<Rightarrow> 'a list \<Rightarrow> 's \<Rightarrow> 'b list go \<times> 's" where
  "mapS f [] s = (Ok [], s)"
| "mapS f (x # xs) s = bindS (f x s) (\<lambda>y s. bindS (mapS f xs s) (\<lambda>ys s. (Ok (y # ys), s)))"

text \<open>The same for code that may not return (\<open>None\<close>).\<close>

definition bindO :: "('a go \<times> 's) option \<Rightarrow> ('a \<Rightarrow> 's \<Rightarrow> ('b go \<times> 's) option) \<Rightarrow> ('b go \<times> 's) option" where
  "bindO m f =
     Option.bind m (\<lambda>(r, s). case r of Ok x \<Rightarrow> f x s | Err e \<Rightarrow> Some (Err e, s) | Panic p \<Rightarrow> Some (Panic p, s))"

fun mapO :: "('a \<Rightarrow> 's \<Rightarrow> ('b go \<times> 's) option) \<Rightarrow> 'a list \<Rightarrow> 's \<Rightarrow> ('b list go \<times> 's) option" where
  "mapO f [] s = Some (Ok [], s)"
| "mapO f (x # xs) s = bindO (f x s) (\<lambda>y s. bindO (mapO f xs s) (\<lambda>ys s. Some (Ok (y # ys), s)))"

text \<open>Code that can end its process: it returns from the function, or exits. \<open>log.Fatal\<close> exits with a
  message and \<open>os.Exit(1)\<close> without one.\<close>

datatype 'a process = Returns "'a go" | Exits string

abbreviation os_Exit :: "'a process" where
  "os_Exit \<equiv> Exits []"

text \<open>The source's \<open>if err != nil { os.Exit(1) }\<close>, with what is logged before; a panic goes on.\<close>

definition or_exit :: "(error \<Rightarrow> string) \<Rightarrow> 'a go \<Rightarrow> 'a process" where
  "or_exit msg m = (case m of Ok x \<Rightarrow> Returns (Ok x) | Err e \<Rightarrow> Exits (msg e) | Panic p \<Rightarrow> Returns (Panic p))"

text \<open>\<open>log.ErrFatal\<close> around a call.\<close>

definition err_fatal :: "'a process \<Rightarrow> 'a process" where
  "err_fatal p = (case p of Returns m \<Rightarrow> or_exit err_msg m | Exits msg \<Rightarrow> Exits msg)"

text \<open>A failure that code outside the repository produces: an error or a panic.\<close>

definition fail_with :: "error + panic \<Rightarrow> 'a go" where
  "fail_with x = (case x of Inl e \<Rightarrow> Err e | Inr p \<Rightarrow> Panic p)"

text \<open>\<open>xs[i]\<close> with Go's bounds check.\<close>

definition index_go :: "'a list \<Rightarrow> nat \<Rightarrow> 'a go" where
  "index_go xs i = (if i < length xs then Ok (xs ! i) else Panic IndexOutOfRange)"

section \<open>Bytes and strings\<close>

text \<open>\<open>bytes.Compare\<close>: lexicographic, \<open>-1\<close>, \<open>0\<close> or \<open>1\<close>.\<close>

fun Compare :: "bytes \<Rightarrow> bytes \<Rightarrow> int" where
  "Compare [] [] = 0"
| "Compare [] (b # bs) = - 1"
| "Compare (a # as) [] = 1"
| "Compare (a # as) (b # bs) =
     (if a < b then - 1 else if b < a then 1 else Compare as bs)"

definition hexDigit :: "nat \<Rightarrow> char" where
  "hexDigit n = ''0123456789abcdef'' ! n"

definition fromHexChar :: "char \<Rightarrow> nat option" where
  "fromHexChar c =
     (let n = of_char c :: nat in
      if 48 \<le> n \<and> n \<le> 57 then Some (n - 48)
      else if 97 \<le> n \<and> n \<le> 102 then Some (n - 97 + 10)
      else if 65 \<le> n \<and> n \<le> 70 then Some (n - 65 + 10)
      else None)"

fun EncodeToString :: "bytes \<Rightarrow> string" where
  "EncodeToString [] = []"
| "EncodeToString (b # bs) =
     hexDigit (unat b div 16) # hexDigit (unat b mod 16) # EncodeToString bs"

definition InvalidByteError :: error where
  "InvalidByteError = Error ''encoding/hex: invalid byte''"

definition ErrLength :: error where
  "ErrLength = Error ''encoding/hex: odd length hex string''"

fun DecodeString :: "string \<Rightarrow> bytes go" where
  "DecodeString [] = Ok []"
| "DecodeString [c] =
     (case fromHexChar c of None \<Rightarrow> Err InvalidByteError | Some _ \<Rightarrow> Err ErrLength)"
| "DecodeString (c # d # cs) =
     (case fromHexChar c of None \<Rightarrow> Err InvalidByteError
      | Some a \<Rightarrow>
        (case fromHexChar d of None \<Rightarrow> Err InvalidByteError
         | Some b \<Rightarrow> bindG (DecodeString cs) (\<lambda>bs. Ok (word_of_nat (a * 16 + b) # bs))))"

fun Itoa :: "nat \<Rightarrow> string" where
  "Itoa n = (if n < 10 then [hexDigit n] else Itoa (n div 10) @ [hexDigit (n mod 10)])"

declare Itoa.simps [simp del]

section \<open>Facts about results\<close>

lemma bindG_Ok_iff [go_simps]:
  "bindG m f = Ok y \<longleftrightarrow> (\<exists>x. m = Ok x \<and> f x = Ok y)"
  by (cases m) auto

lemma bindG_Err_iff [go_simps]:
  "bindG m f = Err e \<longleftrightarrow> m = Err e \<or> (\<exists>x. m = Ok x \<and> f x = Err e)"
  by (cases m) auto

lemma map_err_Ok_iff [go_simps]: "map_err f m = Ok y \<longleftrightarrow> m = Ok y"
  by (cases m) auto

lemma map_err_Err_iff [go_simps]: "map_err f m = Err e \<longleftrightarrow> (\<exists>e'. m = Err e' \<and> e = f e')"
  by (cases m) auto

lemma is_ok_iff [go_simps]: "is_ok m \<longleftrightarrow> (\<exists>x. m = Ok x)"
  by (cases m) auto

lemma bindG_assoc: "bindG (bindG m f) g = bindG m (\<lambda>x. bindG (f x) g)"
  by (cases m) auto

lemma bindG_cong [fundef_cong]:
  "m = m' \<Longrightarrow> (\<And>x. m' = Ok x \<Longrightarrow> f x = f' x) \<Longrightarrow> bindG m f = bindG m' f'"
  by (cases m') auto

lemma bindS_simps [simp]:
  "bindS (Ok x, s) f = f x s" "bindS (Err e, s) f = (Err e, s)" "bindS (Panic p, s) f = (Panic p, s)"
  by (simp_all add: bindS_def)

lemma bindS_Ok_iff [go_simps]:
  "bindS m f = (Ok y, s') \<longleftrightarrow> (\<exists>x s. m = (Ok x, s) \<and> f x s = (Ok y, s'))"
  by (cases m) (auto simp: bindS_def split: go.splits)

lemma bindS_cong [fundef_cong]:
  "m = m' \<Longrightarrow> (\<And>x s. m' = (Ok x, s) \<Longrightarrow> f x s = f' x s) \<Longrightarrow> bindS m f = bindS m' f'"
  by (cases m') (auto simp: bindS_def split: go.split)

lemma bindO_simps [simp]:
  "bindO (Some (Ok x, s)) f = f x s" "bindO (Some (Err e, s)) f = Some (Err e, s)"
  "bindO (Some (Panic p, s)) f = Some (Panic p, s)" "bindO None f = None"
  by (simp_all add: bindO_def)

lemma mapO_mapS: "mapO (\<lambda>x s. Some (f x s)) xs s = Some (mapS f xs s)"
proof (induction xs arbitrary: s)
  case (Cons x xs)
  obtain r s' where "f x s = (r, s')" by (cases "f x s")
  moreover obtain r' s'' where "mapS f xs s' = (r', s'')" by (cases "mapS f xs s'")
  ultimately show ?case using Cons [of s'] by (cases r; cases r') simp_all
qed simp

lemma mapS_map: "mapS f (map g xs) s = mapS (\<lambda>x. f (g x)) xs s"
  by (induction xs arbitrary: s) simp_all

lemma mapS_enumerate: "mapS (\<lambda>i. f i (xs ! i)) [0..<length xs] s = mapS (\<lambda>(i, x). f i x) (enumerate 0 xs) s"
proof -
  have "enumerate 0 xs = map (\<lambda>i. (i, xs ! i)) [0..<length xs]"
    by (rule nth_equalityI) (simp_all add: nth_enumerate_eq)
  then show ?thesis by (simp add: mapS_map)
qed

lemma mapS_up:
  assumes "\<And>x s. x \<in> set xs \<Longrightarrow> is_ok (fst (f x s))"
  shows "\<exists>ys s'. mapS f xs s = (Ok ys, s') \<and> length ys = length xs"
  using assms
proof (induction xs arbitrary: s)
  case (Cons x xs)
  obtain y s1 where y: "f x s = (Ok y, s1)"
    using Cons.prems [of x s] by (cases "f x s") (auto simp: is_ok_iff)
  from Cons.IH [of s1] Cons.prems obtain ys s' where
    "mapS f xs s1 = (Ok ys, s')" "length ys = length xs" by auto
  with y show ?case by simp
qed simp

lemma mapS_stable:
  assumes "\<And>x. x \<in> set xs \<Longrightarrow> f x s = (Ok (g x), s)"
  shows "mapS f xs s = (Ok (map g xs), s)"
  using assms by (induction xs) simp_all

lemma mapG_Ok_iff: "mapG f xs = Ok ys \<longleftrightarrow> list_all2 (\<lambda>x y. f x = Ok y) xs ys"
  by (induction xs arbitrary: ys) (auto simp: go_simps list_all2_Cons1)

lemma mapG_map:
  assumes "\<And>x. x \<in> set xs \<Longrightarrow> f x = Ok (g x)"
  shows "mapG f xs = Ok (map g xs)"
  using assms by (induction xs) auto

lemma mapS_cong [fundef_cong]:
  assumes "xs = ys" and "s = s'" and "\<And>x s. x \<in> set ys \<Longrightarrow> f x s = g x s"
  shows "mapS f xs s = mapS g ys s'"
  using assms(3) unfolding assms(1,2) by (induction ys arbitrary: s') simp_all

lemma mapS_length: "mapS f xs s = (Ok ys, s') \<Longrightarrow> length ys = length xs"
  by (induction xs arbitrary: s ys) (fastforce simp: go_simps)+

lemma mapS_state:
  assumes "\<And>x s y s'. f x s = (Ok y, s') \<Longrightarrow> P s \<Longrightarrow> P s'" and "P s" and "mapS f xs s = (Ok ys, s')"
  shows "P s'"
  using assms(2,3) by (induction xs arbitrary: s ys) (auto simp: go_simps dest: assms(1))

lemma index_go_Ok_iff [go_simps]: "index_go xs i = Ok x \<longleftrightarrow> i < length xs \<and> x = xs ! i"
  by (auto simp: index_go_def)

lemma index_go_in [simp]: "i < length xs \<Longrightarrow> index_go xs i = Ok (xs ! i)"
  by (simp add: index_go_def)

lemma index_go_out [simp]: "length xs \<le> i \<Longrightarrow> index_go xs i = Panic IndexOutOfRange"
  by (simp add: index_go_def)

section \<open>Facts about bytes and hex strings\<close>

lemma Compare_refl [simp]: "Compare xs xs = 0"
  by (induction xs) auto

lemma Compare_eq_0_iff [simp]: "Compare xs ys = 0 \<longleftrightarrow> xs = ys"
  by (induction xs ys rule: Compare.induct) (auto split: if_splits)

lemma Compare_neq_0D [go_dest]: "Compare xs ys \<noteq> 0 \<Longrightarrow> xs \<noteq> ys"
  by auto

lemma fromHexChar_hexDigit [simp]:
  assumes "n < 16"
  shows "fromHexChar (hexDigit n) = Some n"
proof -
  from assms have "n \<in> set [0, 1, 2, 3, 4, 5, 6, 7, 8, 9, 10, 11, 12, 13, 14, 15]"
    by simp arith
  then show ?thesis
    by (auto simp: hexDigit_def fromHexChar_def)
qed

lemma fromHexChar_less: "fromHexChar c = Some n \<Longrightarrow> n < 16"
  by (auto simp: fromHexChar_def Let_def split: if_splits)

lemma unat_byte_less [simp]: "unat (b :: byte) < 256"
proof -
  have "unsigned b < (2 :: nat) ^ LENGTH(8)" by (rule unsigned_less)
  then show ?thesis by simp
qed

lemma byte_div_16 [simp]: "unat (b :: byte) div 16 < 16"
  using unat_byte_less [of b] by (simp add: less_mult_imp_div_less)

lemma Decode_Encode [simp]: "DecodeString (EncodeToString bs) = Ok bs"
  by (induction bs) (simp_all add: div_mult_mod_eq)

lemma EncodeToString_inj: "EncodeToString xs = EncodeToString ys \<Longrightarrow> xs = ys"
  by (metis Decode_Encode go.inject(1))

lemma length_EncodeToString [simp]: "length (EncodeToString bs) = 2 * length bs"
  by (induction bs) auto

end
