(* ===== verification/Crypto_Util.thy ===== *)
theory Crypto_Util
  imports Go_Prelude
begin

text \<open>
  \<open>src/util/util.go\<close>: the hybrid encryption both centralised services and their clients use.
  Data is sealed with AES-GCM under a fresh 16-byte key, the key is ElGamal-encrypted to the
  server, and the hash of the ciphertext names the write.

  The curve, the signature scheme, the hash and the GCM mode are fields of the record
  \<open>suite\<close>, an argument of every definition that calls them. What the code relies on is
  stated by the predicates \<open>group_law\<close>, \<open>aead_law\<close> and \<open>sign_law\<close>. Random draws are
  arguments too: the record \<open>entropy\<close> holds the draws of one \<open>CreateWriteData\<close>.
\<close>

section \<open>The cryptographic suite\<close>

record ('pt, 'sc, 'rnd) suite =
  Mul :: "'sc \<Rightarrow> 'pt option \<Rightarrow> 'pt" \<comment> \<open>\<open>Point().Mul(s, p)\<close>; \<open>None\<close> is nil, the base point\<close>
  Add :: "'pt \<Rightarrow> 'pt \<Rightarrow> 'pt"
  Sub :: "'pt \<Rightarrow> 'pt \<Rightarrow> 'pt"
  Embed :: "bytes \<Rightarrow> 'rnd \<Rightarrow> 'pt"
  EmbedLen :: nat
  PData :: "'pt \<Rightarrow> bytes go"
  MarshalBinary :: "'pt \<Rightarrow> bytes go"
  StringHexToPoint :: "string \<Rightarrow> 'pt go"
  Pick :: "'rnd \<Rightarrow> 'sc"
  schnorr_Sign :: "'sc \<Rightarrow> bytes \<Rightarrow> bytes go"
  schnorr_Verify :: "'pt \<Rightarrow> bytes \<Rightarrow> bytes \<Rightarrow> unit go"
  Sum256 :: "bytes \<Rightarrow> bytes"
  gcm_Seal :: "bytes \<Rightarrow> bytes \<Rightarrow> bytes \<Rightarrow> bytes" \<comment> \<open>key, nonce, plaintext\<close>
  gcm_Open :: "bytes \<Rightarrow> bytes \<Rightarrow> bytes \<Rightarrow> bytes go" \<comment> \<open>key, nonce, ciphertext\<close>

text \<open>
  What the code relies on. \<open>group_law\<close>: the points form a commutative group on which scalars
  act, and a message that fits is recovered from the point it was embedded in.
  \<open>aead_law\<close>: opening accepts exactly the sealed messages. \<open>sign_law\<close>: a signature made with
  a private key verifies under its public key.
\<close>

definition group_law :: "('pt, 'sc, 'rnd) suite \<Rightarrow> bool" where
  "group_law S \<longleftrightarrow>
     (\<forall>a b. Mul S a (Some (Mul S b None)) = Mul S b (Some (Mul S a None))) \<and>
     (\<forall>s m. Sub S (Add S s m) s = m) \<and>
     (\<forall>m r. length m \<le> EmbedLen S \<longrightarrow> PData S (Embed S m r) = Ok m) \<and>
     (\<forall>p m. PData S p = Ok m \<longrightarrow> length m \<le> EmbedLen S) \<and>
     16 \<le> EmbedLen S"

definition aead_law :: "('pt, 'sc, 'rnd) suite \<Rightarrow> bool" where
  "aead_law S \<longleftrightarrow>
     (\<forall>k n c m. gcm_Open S k n c = Ok m \<longleftrightarrow> c = gcm_Seal S k n m)"

definition sign_law :: "('pt, 'sc, 'rnd) suite \<Rightarrow> bool" where
  "sign_law S \<longleftrightarrow>
     (\<forall>x m. \<exists>sig. schnorr_Sign S x m = Ok sig) \<and>
     (\<forall>x m sig. schnorr_Sign S x m = Ok sig \<longrightarrow> schnorr_Verify S (Mul S x None) m sig = Ok ())"

section \<open>Symmetric encryption\<close>

definition nonceLen :: nat where
  "nonceLen = 12"

text \<open>\<open>aes.NewCipher\<close> accepts keys of 16, 24 and 32 bytes; \<open>cipher.NewGCM\<close> accepts every AES
  block, so its error branch is not reachable.\<close>

definition aes_NewCipher :: "bytes \<Rightarrow> bytes go" where
  "aes_NewCipher key =
     (if length key = 16 \<or> length key = 24 \<or> length key = 32 then Ok key
      else Err (Error (''crypto/aes: invalid key size '' @ Itoa (length key))))"

definition cipher_NewGCM :: "bytes \<Rightarrow> bytes go" where
  "cipher_NewGCM block = Ok block"

text \<open>The argument \<open>rd\<close> is the result of \<open>io.ReadFull(rand.Reader, nonce)\<close>.\<close>

definition aeadSeal ::
    "('pt, 'sc, 'rnd) suite \<Rightarrow> bytes go \<Rightarrow> bytes \<Rightarrow> bytes \<Rightarrow> bytes go" where
  "aeadSeal S rd symKey data =
     bindG (aes_NewCipher symKey) (\<lambda>block.
     bindG rd (\<lambda>nonce.
     bindG (cipher_NewGCM block) (\<lambda>aesgcm.
     Ok (gcm_Seal S aesgcm nonce data @ nonce))))"

definition AeadOpen :: "('pt, 'sc, 'rnd) suite \<Rightarrow> bytes \<Rightarrow> bytes \<Rightarrow> bytes go" where
  "AeadOpen S key ciphertext =
     bindG (aes_NewCipher key) (\<lambda>block.
     bindG (cipher_NewGCM block) (\<lambda>aesgcm.
     if length ciphertext < 12 then Err (Error ''ciphertext too short'')
     else
       let n = length ciphertext - nonceLen in
       gcm_Open S aesgcm (drop n ciphertext) (take n ciphertext)))"

definition symEncrypt ::
    "('pt, 'sc, 'rnd) suite \<Rightarrow> bytes go \<Rightarrow> bytes \<Rightarrow> bytes \<Rightarrow> bytes go" where
  "symEncrypt S rd msg key = aeadSeal S rd key msg"

section \<open>ElGamal\<close>

definition ElGamalDecrypt ::
    "('pt, 'sc, 'rnd) suite \<Rightarrow> 'sc \<Rightarrow> 'pt \<Rightarrow> 'pt \<Rightarrow> bytes go" where
  "ElGamalDecrypt S sk K C =
     (let Sh = Mul S sk (Some K); M = Sub S C Sh in PData S M)"

text \<open>The two random draws are the embedding's padding and the ephemeral scalar's.\<close>

definition ElGamalEncrypt ::
    "('pt, 'sc, 'rnd) suite \<Rightarrow> 'rnd \<Rightarrow> 'rnd \<Rightarrow> 'pt \<Rightarrow> bytes \<Rightarrow> 'pt \<times> 'pt \<times> bytes" where
  "ElGamalEncrypt S r1 r2 pk msg =
     (let M = Embed S msg r1;
          mx = (if EmbedLen S > length msg then length msg else EmbedLen S);
          remainder = drop mx msg;
          k = Pick S r2;
          K = Mul S k None;
          Sh = Mul S k (Some pk);
          C = Add S Sh M
      in (K, C, remainder))"

definition CompareKeys :: "('pt, 'sc, 'rnd) suite \<Rightarrow> 'pt \<Rightarrow> bytes \<Rightarrow> int go" where
  "CompareKeys S readerPt decReader =
     bindG (MarshalBinary S readerPt) (\<lambda>readerPtBytes.
     Ok (Compare readerPtBytes decReader))"

definition RecoverData ::
    "('pt, 'sc, 'rnd) suite \<Rightarrow> bytes \<Rightarrow> 'sc \<Rightarrow> 'pt \<Rightarrow> 'pt \<Rightarrow> bytes go" where
  "RecoverData S encData sk k c =
     bindG (ElGamalDecrypt S sk k c) (\<lambda>recvKey. AeadOpen S recvKey encData)"

section \<open>Write data\<close>

record 'pt WriteData =
  Data :: bytes
  DataHash :: bytes
  K :: 'pt
  C :: 'pt
  Reader :: 'pt
  EncReader :: bytes
  StoredKey :: string

record 'rnd entropy =
  symKeyDraw :: bytes
  nonceDraw :: "bytes go"
  embedDraw :: 'rnd
  scalarDraw :: 'rnd
  readerNonceDraw :: "bytes go"

text \<open>\<open>random.Bytes\<close> fills the 16-byte array; a successful \<open>io.ReadFull\<close> fills the nonce.\<close>

definition entropy_ok :: "'rnd entropy \<Rightarrow> bool" where
  "entropy_ok e \<longleftrightarrow>
     length (symKeyDraw e) = 16 \<and>
     (\<forall>n. nonceDraw e = Ok n \<longrightarrow> length n = nonceLen) \<and>
     (\<forall>n. readerNonceDraw e = Ok n \<longrightarrow> length n = nonceLen)"

definition CreateWriteData ::
    "('pt, 'sc, 'rnd) suite \<Rightarrow> 'rnd entropy \<Rightarrow> bytes \<Rightarrow> 'pt \<Rightarrow> 'pt \<Rightarrow> bool \<Rightarrow> 'pt WriteData go"
where
  "CreateWriteData S e data reader serverKey isSemi =
     (let symKey = symKeyDraw e in
      bindG (symEncrypt S (nonceDraw e) data symKey) (\<lambda>encData.
      let (k, c, _) = ElGamalEncrypt S (embedDraw e) (scalarDraw e) serverKey symKey;
          dh = Sum256 S encData;
          wd = \<lparr>Data = encData, DataHash = dh, K = k, C = c, Reader = reader,
                EncReader = [], StoredKey = []\<rparr>
      in
      if isSemi then
        bindG (MarshalBinary S reader) (\<lambda>readerBytes.
        bindG (symEncrypt S (readerNonceDraw e) readerBytes symKey) (\<lambda>encReader.
        Ok (wd\<lparr>EncReader := encReader\<rparr>)))
      else Ok wd))"

section \<open>Configuration files\<close>

text \<open>
  \<open>GetServerKey\<close>: \<open>file\<close> is the result of opening and scanning the file, its lines. Every
  line must parse, and the first key is returned: an empty file makes \<open>keys[0]\<close> panic.
\<close>

fun scanKeys :: "('pt, 'sc, 'rnd) suite \<Rightarrow> string list \<Rightarrow> 'pt list \<Rightarrow> 'pt list go" where
  "scanKeys S [] keys = Ok keys"
| "scanKeys S (l # ls) keys =
     bindG (StringHexToPoint S l) (\<lambda>tmp. scanKeys S ls (keys @ [tmp]))"

definition GetServerKey :: "('pt, 'sc, 'rnd) suite \<Rightarrow> string list go \<Rightarrow> 'pt go" where
  "GetServerKey S file =
     bindG file (\<lambda>ls.
     bindG (scanKeys S ls []) (\<lambda>keys. index_go keys 0))"

text \<open>
  \<open>ReadRoster\<close>: \<open>file\<close> is the result of \<open>os.Open\<close> and \<open>rd\<close> is \<open>app.ReadGroupDescToml\<close>, which
  gives the roster's list of servers. \<open>Ok None\<close> is the pair \<open>(nil, nil)\<close>: on the empty-roster
  path the source returns \<open>nil, err\<close> while \<open>err\<close> is still nil.
\<close>

definition ReadRoster ::
    "'file go \<Rightarrow> ('file \<Rightarrow> 'si list go) \<Rightarrow> 'si list option go" where
  "ReadRoster file rd =
     bindG file (\<lambda>f.
     bindG (rd f) (\<lambda>roster.
     if length roster = 0 then Ok None else Ok (Some roster)))"

section \<open>Facts\<close>

lemmas seal_defs = aeadSeal_def symEncrypt_def aes_NewCipher_def cipher_NewGCM_def

lemma nonceLen_12 [simp]: "nonceLen = 12"
  by (simp add: nonceLen_def)

lemma aeadSeal_Ok_iff [go_simps]:
  "aeadSeal S rd key m = Ok c \<longleftrightarrow>
     (length key = 16 \<or> length key = 24 \<or> length key = 32) \<and>
     (\<exists>n. rd = Ok n \<and> c = gcm_Seal S key n m @ n)"
  by (auto simp: seal_defs go_simps)

lemma AeadOpen_Ok_iff:
  "AeadOpen S key c = Ok m \<longleftrightarrow>
     (length key = 16 \<or> length key = 24 \<or> length key = 32) \<and> 12 \<le> length c \<and>
     gcm_Open S key (drop (length c - 12) c) (take (length c - 12) c) = Ok m"
  by (auto simp: AeadOpen_def seal_defs Let_def go_simps split: if_splits)

lemma AeadOpen_aeadSeal:
  assumes "aead_law S" and "aeadSeal S rd key m = Ok c"
    and "\<And>n. rd = Ok n \<Longrightarrow> length n = nonceLen"
  shows "AeadOpen S key c = Ok m"
proof -
  from assms(2) obtain n where n: "rd = Ok n" and c: "c = gcm_Seal S key n m @ n"
    and key: "length key = 16 \<or> length key = 24 \<or> length key = 32"
    by (auto simp: aeadSeal_Ok_iff)
  from assms(3) [OF n] have "length n = 12" by simp
  with assms(1) c key show ?thesis
    by (auto simp: AeadOpen_Ok_iff aead_law_def)
qed

lemma AeadOpen_key_length: "AeadOpen S key c = Ok m \<Longrightarrow> length key \<in> {16, 24, 32}"
  by (auto simp: AeadOpen_Ok_iff)

lemma AeadOpen_unique:
  assumes "aead_law S" and "AeadOpen S key c = Ok m" and "AeadOpen S key c' = Ok m"
    and "drop (length c - 12) c = drop (length c' - 12) c'"
  shows "c = c'"
proof -
  from assms have "take (length c - 12) c = take (length c' - 12) c'"
    by (auto simp: AeadOpen_Ok_iff aead_law_def)
  with assms(4) show ?thesis by (metis append_take_drop_id)
qed

lemma ElGamal_decrypt_encrypt:
  assumes "group_law S" and "length m \<le> EmbedLen S"
    and "ElGamalEncrypt S r1 r2 (Mul S sk None) m = (k, c, rem)"
  shows "ElGamalDecrypt S sk k c = Ok m" and "rem = []"
proof -
  from assms(1) have comm: "\<And>a b. Mul S a (Some (Mul S b None)) = Mul S b (Some (Mul S a None))"
    and sub: "\<And>s m. Sub S (Add S s m) s = m"
    and emb: "\<And>m r. length m \<le> EmbedLen S \<Longrightarrow> PData S (Embed S m r) = Ok m"
    by (auto simp: group_law_def)
  from assms(3) have
    k: "k = Mul S (Pick S r2) None" and
    c: "c = Add S (Mul S (Pick S r2) (Some (Mul S sk None))) (Embed S m r1)" and
    r: "rem = drop (if EmbedLen S > length m then length m else EmbedLen S) m"
    by (auto simp: ElGamalEncrypt_def Let_def)
  show "ElGamalDecrypt S sk k c = Ok m"
    using emb [OF assms(2)] by (simp add: ElGamalDecrypt_def Let_def k c comm [of sk] sub)
  show "rem = []"
    using assms(2) by (simp add: r)
qed

lemma ElGamalDecrypt_fits:
  "group_law S \<Longrightarrow> ElGamalDecrypt S sk k c = Ok m \<Longrightarrow> length m \<le> EmbedLen S"
  by (auto simp: ElGamalDecrypt_def group_law_def Let_def)

text \<open>What a created write holds.\<close>

lemma CreateWriteData_OkD:
  assumes "CreateWriteData S e data reader pk isSemi = Ok wd"
  shows "symEncrypt S (nonceDraw e) data (symKeyDraw e) = Ok (Data wd)"
    and "DataHash wd = Sum256 S (Data wd)"
    and "\<exists>rem. ElGamalEncrypt S (embedDraw e) (scalarDraw e) pk (symKeyDraw e) = (K wd, C wd, rem)"
    and "Reader wd = reader"
    and "isSemi \<Longrightarrow> \<exists>rb. MarshalBinary S reader = Ok rb \<and>
           symEncrypt S (readerNonceDraw e) rb (symKeyDraw e) = Ok (EncReader wd)"
proof -
  obtain k c rem where
    eg: "ElGamalEncrypt S (embedDraw e) (scalarDraw e) pk (symKeyDraw e) = (k, c, rem)"
    by (rule prod_cases3)
  with assms show "symEncrypt S (nonceDraw e) data (symKeyDraw e) = Ok (Data wd)"
    and "DataHash wd = Sum256 S (Data wd)"
    and "\<exists>rem. ElGamalEncrypt S (embedDraw e) (scalarDraw e) pk (symKeyDraw e) = (K wd, C wd, rem)"
    and "Reader wd = reader"
    and "isSemi \<Longrightarrow> \<exists>rb. MarshalBinary S reader = Ok rb \<and>
           symEncrypt S (readerNonceDraw e) rb (symKeyDraw e) = Ok (EncReader wd)"
    by (auto simp: CreateWriteData_def Let_def go_simps split: if_splits)
qed

lemma CreateWriteData_recover:
  assumes "group_law S" and "aead_law S" and "entropy_ok e"
    and "CreateWriteData S e data reader (Mul S sk None) isSemi = Ok wd"
  shows "ElGamalDecrypt S sk (K wd) (C wd) = Ok (symKeyDraw e)"
    and "AeadOpen S (symKeyDraw e) (Data wd) = Ok data"
proof -
  note wd = CreateWriteData_OkD [OF assms(4)]
  from assms(1,3) have "length (symKeyDraw e) \<le> EmbedLen S"
    by (auto simp: group_law_def entropy_ok_def)
  with wd(3) show "ElGamalDecrypt S sk (K wd) (C wd) = Ok (symKeyDraw e)"
    by (auto dest: ElGamal_decrypt_encrypt(1) [OF assms(1)])
  from assms(3) have "\<And>n. nonceDraw e = Ok n \<Longrightarrow> length n = nonceLen"
    by (simp add: entropy_ok_def)
  with wd(1) show "AeadOpen S (symKeyDraw e) (Data wd) = Ok data"
    by (auto simp: symEncrypt_def intro: AeadOpen_aeadSeal [OF assms(2)])
qed

lemma CreateWriteData_encReader:
  assumes "aead_law S" and "entropy_ok e"
    and "CreateWriteData S e data reader pk True = Ok wd"
  shows "\<exists>rb. MarshalBinary S reader = Ok rb \<and>
           AeadOpen S (symKeyDraw e) (EncReader wd) = Ok rb"
proof -
  from CreateWriteData_OkD(5) [OF assms(3)] obtain rb where
    rb: "MarshalBinary S reader = Ok rb" and
    enc: "aeadSeal S (readerNonceDraw e) (symKeyDraw e) rb = Ok (EncReader wd)"
    by (auto simp: symEncrypt_def)
  from assms(2) have "\<And>n. readerNonceDraw e = Ok n \<Longrightarrow> length n = nonceLen"
    by (simp add: entropy_ok_def)
  with rb enc show ?thesis by (auto intro: AeadOpen_aeadSeal [OF assms(1)])
qed

lemma scanKeys_mapG: "scanKeys S ls keys = bindG (mapG (StringHexToPoint S) ls) (\<lambda>ks. Ok (keys @ ks))"
proof (induction ls arbitrary: keys)
  case (Cons l ls)
  show ?case
    by (cases "StringHexToPoint S l"; cases "mapG (StringHexToPoint S) ls") (simp_all add: Cons)
qed simp

text \<open>The server's key: \<open>GetServerKey\<close> returns the key on the first line of the file, provided that
  every line parses; the error of the first line that does not parse is returned otherwise, and a
  file without lines makes it panic with an index out of range.\<close>

lemma get_server_key_first:
  "GetServerKey S (Ok ls) =
     (case mapG (StringHexToPoint S) ls of
        Ok keys \<Rightarrow> (case keys of [] \<Rightarrow> Panic IndexOutOfRange | k # _ \<Rightarrow> Ok k)
      | Err e \<Rightarrow> Err e
      | Panic p \<Rightarrow> Panic p)"
  by (simp add: GetServerKey_def scanKeys_mapG split: go.split list.split)

end
