(* ===== verification/Key_Relay.thy ===== *)
theory Key_Relay
  imports Crypto_Util
begin

text \<open>
  The contract between a server that re-encrypts the key of a write and the reader that
  recovers the data with it. Both services promise: when the relay answers, it decrypted the
  write's key with its own private key and encrypted it to the reader the write names. The
  reader's side is proved once here, from that promise.
\<close>

locale key_relay =
  fixes relay :: "('pt, 'sc, 'rnd) suite \<Rightarrow> 'rnd \<Rightarrow> 'rnd \<Rightarrow> 'auth \<Rightarrow> 'w \<Rightarrow> 'sc \<Rightarrow> ('pt \<times> 'pt) go"
    and keyK :: "'w \<Rightarrow> 'pt"
    and keyC :: "'w \<Rightarrow> 'pt"
    and readerOf :: "'w \<Rightarrow> 'pt"
  assumes relay_done:
    "relay S r1 r2 a w sk = Ok (k, c) \<Longrightarrow>
       \<exists>m rem. ElGamalDecrypt S sk (keyK w) (keyC w) = Ok m \<and>
               ElGamalEncrypt S r1 r2 (readerOf w) m = (k, c, rem)"
begin

lemma relay_same_key:
  assumes "group_law S" and "relay S r1 r2 a w sk = Ok (k, c)"
    and "readerOf w = Mul S rsk None"
  shows "ElGamalDecrypt S rsk k c = ElGamalDecrypt S sk (keyK w) (keyC w)"
proof -
  from relay_done [OF assms(2)] obtain m rem where
    dec: "ElGamalDecrypt S sk (keyK w) (keyC w) = Ok m" and
    enc: "ElGamalEncrypt S r1 r2 (Mul S rsk None) m = (k, c, rem)"
    using assms(3) by auto
  from ElGamal_decrypt_encrypt(1) [OF assms(1) ElGamalDecrypt_fits [OF assms(1) dec] enc] dec
  show ?thesis by simp
qed

lemma relay_recover:
  assumes "group_law S" and "relay S r1 r2 a w sk = Ok (k, c)"
    and "readerOf w = Mul S rsk None"
    and "ElGamalDecrypt S sk (keyK w) (keyC w) = Ok key" and "AeadOpen S key ct = Ok data"
  shows "RecoverData S ct rsk k c = Ok data"
  using relay_same_key [OF assms(1-3)] assms(4,5) by (simp add: RecoverData_def)

end

end
