(* ===== verification/Blob_Store.thy ===== *)
theory Blob_Store
  imports Go_Prelude
begin

text \<open>
  The content-addressed store behind both centralised services
  (\<open>CentralizedCalypsoDB\<close> and \<open>SemiCentralizedDB\<close>): requests are kept in a bbolt bucket under
  the hash of their payload, each key is written once, and the client gets the hex string of
  the hash.

  bbolt, \<open>network.Marshal\<close>/\<open>network.Unmarshal\<close> and \<open>sha256.Sum256\<close> are fields of \<open>store_env\<close>.
  \<open>store_law\<close> states what bbolt and the encoding promise about contents; \<open>store_up\<close> states
  that no I/O error happens. The locale \<open>blob_store\<close> is the contract of the two databases; its
  lemmas are proved once and used through the two interpretations.
\<close>

section \<open>The database and the encoding\<close>

record ('db, 'req) store_env =
  bBegin :: "'db \<Rightarrow> 'db go" \<comment> \<open>start of a transaction, a snapshot of the contents\<close>
  bCommit :: "'db \<Rightarrow> 'db go"
  bGet :: "'db \<Rightarrow> bytes \<Rightarrow> bytes \<Rightarrow> bytes option" \<comment> \<open>bucket, key\<close>
  bPut :: "'db \<Rightarrow> bytes \<Rightarrow> bytes \<Rightarrow> bytes \<Rightarrow> 'db go" \<comment> \<open>bucket, key, value\<close>
  network_Marshal :: "'req \<Rightarrow> bytes go"
  network_Unmarshal :: "bytes \<Rightarrow> 'req option go" \<comment> \<open>\<open>Ok None\<close>: a message of another type\<close>
  hash256 :: "bytes \<Rightarrow> bytes"

definition store_law :: "('db, 'req) store_env \<Rightarrow> bool" where
  "store_law E \<longleftrightarrow>
     (\<forall>db tx. bBegin E db = Ok tx \<longrightarrow> bGet E tx = bGet E db) \<and>
     (\<forall>tx db. bCommit E tx = Ok db \<longrightarrow> bGet E db = bGet E tx) \<and>
     (\<forall>tx b k v tx'. bPut E tx b k v = Ok tx' \<longrightarrow>
        bGet E tx' = (bGet E tx)(b := (bGet E tx b)(k \<mapsto> v))) \<and>
     (\<forall>r v. network_Marshal E r = Ok v \<longrightarrow> network_Unmarshal E v = Ok (Some r))"

definition store_up :: "('db, 'req) store_env \<Rightarrow> bool" where
  "store_up E \<longleftrightarrow>
     (\<forall>db. is_ok (bBegin E db)) \<and> (\<forall>tx. is_ok (bCommit E tx)) \<and>
     (\<forall>tx b k v. k \<noteq> [] \<longrightarrow> is_ok (bPut E tx b k v)) \<and>
     (\<forall>r. is_ok (network_Marshal E r)) \<and> (\<forall>m. hash256 E m \<noteq> [])"

text \<open>
  \<open>DB.Update\<close> runs a function in a read-write transaction: an error of the function rolls it
  back and is returned, otherwise the transaction is committed. \<open>DB.View\<close> runs a function on a
  read-only snapshot.
\<close>

definition DB_Update ::
    "('db, 'req) store_env \<Rightarrow> ('db \<Rightarrow> 'db go) \<Rightarrow> 'db \<Rightarrow> unit go \<times> 'db" where
  "DB_Update E f db =
     (case bindG (bBegin E db) (\<lambda>tx. bindG (f tx) (bCommit E)) of
        Ok db' \<Rightarrow> (Ok (), db')
      | Err e \<Rightarrow> (Err e, db)
      | Panic p \<Rightarrow> (Panic p, db))"

definition DB_View ::
    "('db, 'req) store_env \<Rightarrow> ('db \<Rightarrow> 'a go) \<Rightarrow> 'db \<Rightarrow> 'a go" where
  "DB_View E f db = bindG (bBegin E db) f"

text \<open>The closure both databases pass to \<open>DB.Update\<close>: a key that exists is refused.\<close>

definition put_if_absent ::
    "('db, 'req) store_env \<Rightarrow> bytes \<Rightarrow> bytes \<Rightarrow> bytes \<Rightarrow> 'db \<Rightarrow> 'db go" where
  "put_if_absent E bn dataHash val tx =
     (case bGet E tx bn dataHash of
        Some _ \<Rightarrow> Err (Error ''Key already exists'')
      | None \<Rightarrow> map_err (\<lambda>_. Error ''Cannot store the value'') (bPut E tx bn dataHash val))"

text \<open>The type assertion \<open>msg.(*T)\<close> on a decoded message.\<close>

definition assert_type :: "'a option \<Rightarrow> 'a go" where
  "assert_type m = (case m of None \<Rightarrow> Panic TypeAssertion | Some x \<Rightarrow> Ok x)"

section \<open>Sequences of requests\<close>

text \<open>A run of store requests against one database; the replies are in order.\<close>

fun store_all ::
    "('db \<Rightarrow> 'req \<Rightarrow> string go \<times> 'db) \<Rightarrow> 'db \<Rightarrow> 'req list \<Rightarrow> string go list \<times> 'db" where
  "store_all st db [] = ([], db)"
| "store_all st db (r # rs) =
     (let (a, db1) = st db r; (as, db2) = store_all st db1 rs in (a # as, db2))"

text \<open>Everything in the bucket was put there under the hash of its payload.\<close>

definition content_addressed ::
    "('req \<Rightarrow> bytes) \<Rightarrow> ('req \<Rightarrow> bytes) \<Rightarrow> ('db, 'req) store_env \<Rightarrow> bytes \<Rightarrow> 'db \<Rightarrow> bool" where
  "content_addressed pay dig E bn db \<longleftrightarrow>
     (\<forall>k v. bGet E db bn k = Some v \<longrightarrow>
        (\<exists>r. network_Unmarshal E v = Ok (Some r) \<and> dig r = k \<and> hash256 E (pay r) = k))"

section \<open>The abstract store\<close>

text \<open>What the databases promise, with no transactions and no encoding: a map from hashes to requests that
  only grows. The map of a database decodes every value of the bucket.\<close>

type_synonym 'req blobs = "bytes \<Rightarrow> 'req option"

definition spec_store ::
    "('req \<Rightarrow> bytes) \<Rightarrow> ('req \<Rightarrow> bytes) \<Rightarrow> (bytes \<Rightarrow> bytes) \<Rightarrow> 'req blobs \<Rightarrow> 'req \<Rightarrow> string go \<times> 'req blobs" where
  "spec_store pay dig H m r =
     (if dig r \<noteq> H (pay r) then (Err (Error ''Hashes do not match''), m)
      else if m (dig r) \<noteq> None then (Err (Error ''Key already exists''), m)
      else (Ok (EncodeToString (dig r)), m(dig r \<mapsto> r)))"

definition spec_fetch :: "'req blobs \<Rightarrow> string \<Rightarrow> 'req go" where
  "spec_fetch m key =
     bindG (DecodeString key) (\<lambda>k. case m k of None \<Rightarrow> Err (Error ''Key does not exist'') | Some r \<Rightarrow> Ok r)"

definition decoded :: "('db, 'req) store_env \<Rightarrow> bytes \<Rightarrow> 'req option" where
  "decoded E v = (case network_Unmarshal E v of Ok m \<Rightarrow> m | Err _ \<Rightarrow> None | Panic _ \<Rightarrow> None)"

definition blobs_of :: "('db, 'req) store_env \<Rightarrow> bytes \<Rightarrow> 'db \<Rightarrow> 'req blobs" where
  "blobs_of E bn db = (\<lambda>k. Option.bind (bGet E db bn k) (decoded E))"

definition decodable :: "('db, 'req) store_env \<Rightarrow> bytes \<Rightarrow> 'db \<Rightarrow> bool" where
  "decodable E bn db \<longleftrightarrow> (\<forall>k v. bGet E db bn k = Some v \<longrightarrow> (\<exists>r. network_Unmarshal E v = Ok (Some r)))"

lemma blobs_of_None_iff: "decodable E bn db \<Longrightarrow> blobs_of E bn db k = None \<longleftrightarrow> bGet E db bn k = None"
  by (cases "bGet E db bn k") (force simp: blobs_of_def decodable_def decoded_def)+

lemma blobs_of_empty: "(\<And>k. bGet E db bn k = None) \<Longrightarrow> blobs_of E bn db = Map.empty \<and> decodable E bn db"
  by (simp add: blobs_of_def decodable_def)

lemma blobs_of_same:
  "bGet E db' bn = bGet E db bn \<Longrightarrow>
     blobs_of E bn db' = blobs_of E bn db \<and> decodable E bn db' = decodable E bn db"
  by (simp add: blobs_of_def decodable_def)

section \<open>The contract of the databases\<close>

lemma DB_Update_cases:
  assumes "DB_Update E f db = (res, db')"
  shows "(\<exists>tx tx'. res = Ok () \<and> bBegin E db = Ok tx \<and> f tx = Ok tx' \<and> bCommit E tx' = Ok db')
       \<or> (\<not> is_ok res \<and> db' = db)"
  using assms by (auto simp: DB_Update_def go_simps split: go.splits)

lemma store_lawD:
  assumes "store_law E"
  shows "bBegin E db = Ok tx \<Longrightarrow> bGet E tx = bGet E db"
    and "bCommit E tx = Ok db \<Longrightarrow> bGet E db = bGet E tx"
    and "bPut E tx b k v = Ok tx' \<Longrightarrow> bGet E tx' = (bGet E tx)(b := (bGet E tx b)(k \<mapsto> v))"
    and "network_Marshal E r = Ok v \<Longrightarrow> network_Unmarshal E v = Ok (Some r)"
  using assms by (auto simp: store_law_def)

lemma store_upD:
  assumes "store_up E"
  shows "\<exists>tx. bBegin E db = Ok tx" and "\<exists>db'. bCommit E tx = Ok db'"
    and "k \<noteq> [] \<Longrightarrow> \<exists>tx'. bPut E tx b k v = Ok tx'"
    and "\<exists>v. network_Marshal E r = Ok v" and "hash256 E m \<noteq> []"
  using assms by (auto simp: store_up_def go_simps)

lemma assert_type_Ok_iff [go_simps]: "assert_type m = Ok x \<longleftrightarrow> m = Some x"
  by (auto simp: assert_type_def split: option.splits)

lemma put_if_absent_Ok_iff [go_simps]:
  "put_if_absent E bn k v tx = Ok tx' \<longleftrightarrow> bGet E tx bn k = None \<and> bPut E tx bn k v = Ok tx'"
  by (auto simp: put_if_absent_def go_simps split: option.splits)

lemma put_new_Ok:
  assumes "store_law E" and "DB_Update E (put_if_absent E bn k v) db = (Ok (), db')"
  shows "bGet E db bn k = None \<and> bGet E db' = (bGet E db)(bn := (bGet E db bn)(k \<mapsto> v))"
proof -
  from DB_Update_cases [OF assms(2)] obtain tx tx' where
    tx: "bBegin E db = Ok tx" and db': "bCommit E tx' = Ok db'" and
    "bGet E tx bn k = None" and put: "bPut E tx bn k v = Ok tx'"
    by (auto simp: go_simps)
  then show ?thesis
    using store_lawD(1) [OF assms(1) tx] store_lawD(2) [OF assms(1) db']
      store_lawD(3) [OF assms(1) put] by simp
qed

lemma put_new_accepts:
  assumes "store_law E" and "store_up E" and "k \<noteq> []" and "bGet E db bn k = None"
  shows "\<exists>db'. DB_Update E (put_if_absent E bn k v) db = (Ok (), db')"
proof -
  from store_upD(1) [OF assms(2)] obtain tx where tx: "bBegin E db = Ok tx" by blast
  from store_upD(3) [OF assms(2,3)] obtain tx' where tx': "bPut E tx bn k v = Ok tx'" by blast
  from store_upD(2) [OF assms(2)] obtain db' where "bCommit E tx' = Ok db'" by blast
  with tx tx' assms(4) store_lawD(1) [OF assms(1) tx] show ?thesis
    by (simp add: DB_Update_def put_if_absent_def)
qed

lemma put_taken:
  assumes "store_law E" and "bGet E db bn k = Some v0" and "bBegin E db = Ok tx"
  shows "DB_Update E (put_if_absent E bn k v) db = (Err (Error ''Key already exists''), db)"
  using assms(2,3) store_lawD(1) [OF assms(1,3)] by (simp add: DB_Update_def put_if_absent_def)

locale blob_store =
  fixes store :: "('db, 'req) store_env \<Rightarrow> bytes \<Rightarrow> 'db \<Rightarrow> 'req \<Rightarrow> string go \<times> 'db"
    and fetch :: "('db, 'req) store_env \<Rightarrow> bytes \<Rightarrow> 'db \<Rightarrow> string \<Rightarrow> 'req go"
    and payload :: "'req \<Rightarrow> bytes"
    and digest :: "'req \<Rightarrow> bytes"
  assumes store_done:
      "store_law E \<Longrightarrow> store E bn db r = (Ok key, db') \<Longrightarrow>
         digest r = hash256 E (payload r) \<and> key = EncodeToString (digest r) \<and>
         bGet E db bn (digest r) = None \<and>
         (\<exists>v. network_Marshal E r = Ok v \<and>
              bGet E db' = (bGet E db)(bn := (bGet E db bn)(digest r \<mapsto> v)))"
    and store_refused: "store E bn db r = (res, db') \<Longrightarrow> \<not> is_ok res \<Longrightarrow> db' = db"
    and store_accepts:
      "store_law E \<Longrightarrow> store_up E \<Longrightarrow> digest r = hash256 E (payload r) \<Longrightarrow>
         bGet E db bn (digest r) = None \<Longrightarrow> is_ok (fst (store E bn db r))"
    and fetch_iff:
      "store_law E \<Longrightarrow>
         fetch E bn db key = Ok r \<longleftrightarrow>
           (\<exists>tx k v. DecodeString key = Ok k \<and> bBegin E db = Ok tx \<and> bGet E db bn k = Some v \<and>
                     network_Unmarshal E v = Ok (Some r))"
    and store_mismatch:
      "digest r \<noteq> hash256 E (payload r) \<Longrightarrow> store E bn db r = (Err (Error ''Hashes do not match''), db)"
    and store_taken:
      "store_law E \<Longrightarrow> store_up E \<Longrightarrow> digest r = hash256 E (payload r) \<Longrightarrow> bGet E db bn (digest r) = Some v \<Longrightarrow>
         store E bn db r = (Err (Error ''Key already exists''), db)"
    and fetch_read:
      "store_law E \<Longrightarrow> bBegin E db = Ok tx \<Longrightarrow>
         fetch E bn db key = bindG (DecodeString key) (\<lambda>k.
           case bGet E db bn k of None \<Rightarrow> Err (Error ''Key does not exist'')
           | Some v \<Rightarrow> bindG (network_Unmarshal E v) assert_type)"
begin

lemma store_step:
  assumes "store_law E" and "store E bn db r = (res, db')"
  shows "bGet E db' = bGet E db \<or>
    (\<exists>v. digest r = hash256 E (payload r) \<and> network_Marshal E r = Ok v \<and>
         bGet E db bn (digest r) = None \<and>
         bGet E db' = (bGet E db)(bn := (bGet E db bn)(digest r \<mapsto> v)))"
proof (cases res)
  case (Ok key)
  with store_done [OF assms(1), of bn db r key db'] assms(2) show ?thesis by blast
next
  case (Err e)
  with store_refused [OF assms(2)] show ?thesis by simp
next
  case (Panic p)
  with store_refused [OF assms(2)] show ?thesis by simp
qed

text \<open>A store leaves the other buckets of the database alone.\<close>

lemma store_frame:
  assumes "store_law E" and "store E bn db r = (res, db')" and "bn' \<noteq> bn"
  shows "bGet E db' bn' = bGet E db bn'"
  using store_step [OF assms(1,2)] assms(3) by auto

lemma store_content_addressed:
  assumes "store_law E" and "content_addressed payload digest E bn db" and "store E bn db r = (res, db')"
  shows "content_addressed payload digest E bn db'"
  using store_step [OF assms(1,3)] assms(2) store_lawD(4) [OF assms(1)]
  by (auto simp: content_addressed_def split: if_splits)

lemma store_all_content_addressed:
  assumes "store_law E"
  shows "content_addressed payload digest E bn db \<Longrightarrow>
    content_addressed payload digest E bn (snd (store_all (store E bn) db rs))"
  by (induction rs arbitrary: db)
    (auto simp: split_def Let_def intro: store_content_addressed [OF assms] prod.collapse [symmetric])

lemma store_keeps:
  assumes "store_law E" and "store E bn db r = (res, db')" and "bGet E db bn k = Some v"
  shows "bGet E db' bn k = Some v"
  using store_step [OF assms(1,2)] assms(3) by auto

lemma store_all_keeps:
  assumes "store_law E"
  shows "bGet E db bn k = Some v \<Longrightarrow>
    bGet E (snd (store_all (store E bn) db rs)) bn k = Some v"
proof (induction rs arbitrary: db)
  case (Cons r rs)
  from store_keeps [OF assms prod.collapse [symmetric] Cons.prems]
  have "bGet E (snd (store E bn db r)) bn k = Some v" .
  from Cons.IH [OF this] show ?case by (simp add: split_def Let_def)
qed simp

text \<open>The database refines the abstract store, operation by operation.\<close>

lemma store_refines:
  assumes "store_law E" and "store_up E" and "decodable E bn db" and "store E bn db r = (res, db')"
  shows "spec_store payload digest (hash256 E) (blobs_of E bn db) r = (res, blobs_of E bn db') \<and> decodable E bn db'"
proof -
  consider "digest r \<noteq> hash256 E (payload r)"
    | v where "digest r = hash256 E (payload r)" "bGet E db bn (digest r) = Some v"
    | "digest r = hash256 E (payload r)" "bGet E db bn (digest r) = None"
    by (cases "bGet E db bn (digest r)") blast+
  then show ?thesis
  proof cases
    case 1
    with store_mismatch [OF 1] assms(3,4) show ?thesis by (simp add: spec_store_def)
  next
    case 2
    with store_taken [OF assms(1,2) 2] blobs_of_None_iff [OF assms(3), of "digest r"] assms(3,4)
    show ?thesis by (auto simp: spec_store_def)
  next
    case 3
    with store_accepts [OF assms(1,2) 3] assms(4) obtain key where res: "res = Ok key" by (auto simp: is_ok_iff)
    from store_done [OF assms(1)] assms(4) res obtain v where
      v: "network_Marshal E r = Ok v" "key = EncodeToString (digest r)"
        "bGet E db' = (bGet E db)(bn := (bGet E db bn)(digest r \<mapsto> v))" by blast
    have "network_Unmarshal E v = Ok (Some r)" by (rule store_lawD(4) [OF assms(1) v(1)])
    then have "blobs_of E bn db' = (blobs_of E bn db)(digest r \<mapsto> r) \<and> decodable E bn db'"
      using assms(3) by (auto simp: blobs_of_def decoded_def decodable_def v(3))
    with 3 res v(2) blobs_of_None_iff [OF assms(3), of "digest r"] show ?thesis by (simp add: spec_store_def)
  qed
qed

lemma fetch_refines:
  assumes "store_law E" and "store_up E" and "decodable E bn db"
  shows "fetch E bn db key = spec_fetch (blobs_of E bn db) key"
proof -
  from store_upD(1) [OF assms(2)] obtain tx where tx: "bBegin E db = Ok tx" by blast
  have "(case bGet E db bn k of None \<Rightarrow> Err (Error ''Key does not exist'')
      | Some v \<Rightarrow> bindG (network_Unmarshal E v) assert_type) =
    (case blobs_of E bn db k of None \<Rightarrow> Err (Error ''Key does not exist'') | Some r \<Rightarrow> Ok r)" for k
    using assms(3) by (cases "bGet E db bn k") (force simp: blobs_of_def decodable_def decoded_def assert_type_def)+
  then show ?thesis by (simp add: fetch_read [OF assms(1) tx] spec_fetch_def)
qed

text \<open>A stored request is returned by every later lookup of the key its writer got.\<close>

lemma fetch_after_store:
  assumes "store_law E" and "store E bn db r = (Ok key, db1)"
    and "store_all (store E bn) db1 rs = (as, db2)" and "bBegin E db2 = Ok tx"
  shows "fetch E bn db2 key = Ok r"
proof -
  from store_done [OF assms(1,2)] obtain v where
    key: "key = EncodeToString (digest r)" and v: "network_Marshal E r = Ok v" and
    "bGet E db1 bn (digest r) = Some v"
    by auto
  then have "bGet E db2 bn (digest r) = Some v"
    using store_all_keeps [OF assms(1)] assms(3) by (metis snd_conv)
  with key assms(4) store_lawD(4) [OF assms(1) v] show ?thesis
    by (auto simp: fetch_iff [OF assms(1)])
qed

text \<open>What a lookup returns is what the key names.\<close>

lemma fetch_authentic:
  assumes "store_law E" and "content_addressed payload digest E bn db" and "fetch E bn db key = Ok r"
  shows "DecodeString key = Ok (digest r) \<and> digest r = hash256 E (payload r)"
proof -
  from assms(3) obtain k v where "DecodeString key = Ok k"
    and "bGet E db bn k = Some v" and "network_Unmarshal E v = Ok (Some r)"
    by (auto simp: fetch_iff [OF assms(1)])
  with assms(2) show ?thesis by (fastforce simp: content_addressed_def)
qed

text \<open>A key that is taken is refused for ever.\<close>

lemma store_once:
  assumes "store_law E" and "store E bn db r = (Ok key, db1)"
    and "store_all (store E bn) db1 rs = (as, db2)" and "digest r' = digest r"
    and "store E bn db2 r' = (res, db3)"
  shows "\<not> is_ok res \<and> db3 = db2"
proof -
  from store_done [OF assms(1,2)] obtain v where "bGet E db1 bn (digest r) = Some v" by auto
  then have taken: "bGet E db2 bn (digest r') = Some v"
    using store_all_keeps [OF assms(1)] assms(3,4) by (metis snd_conv)
  have "\<not> is_ok res"
    using store_done [OF assms(1), of bn db2 r'] assms(5) taken by (auto simp: go_simps)
  with store_refused [OF assms(5)] show ?thesis by simp
qed

end

end
