(* ===== verification/Onet_Client.thy ===== *)
theory Onet_Client
  imports Go_Prelude
begin

text \<open>
  How the clients reach a service: \<open>onet.Client.SendProtobuf\<close> sends one request to one server
  and waits for its reply. The transport is not under \<open>src/\<close>: what happens to a request is an
  argument of type \<open>delivery\<close>. A request can be lost before the handler runs, or its reply can
  be lost after the handler changed the server, and an error of the handler reaches the client
  in the form the transport gives it.
\<close>

datatype delivery =
    Delivered "error \<Rightarrow> error" \<comment> \<open>how the transport reports an error of the handler\<close>
  | RequestLost error
  | ReplyLost error

definition SendProtobuf ::
    "delivery \<Rightarrow> ('st \<Rightarrow> 'req \<Rightarrow> 'rep go \<times> 'st) \<Rightarrow> ('si \<Rightarrow> 'st) \<Rightarrow> 'si \<Rightarrow> 'req
      \<Rightarrow> 'rep go \<times> ('si \<Rightarrow> 'st)" where
  "SendProtobuf d handler sv dest req =
     (case d of
        RequestLost e \<Rightarrow> (Err e, sv)
      | ReplyLost e \<Rightarrow> (Err e, sv(dest := snd (handler (sv dest) req)))
      | Delivered wrap \<Rightarrow>
          (map_err wrap (fst (handler (sv dest) req)),
           sv(dest := snd (handler (sv dest) req))))"

text \<open>The first server of a roster, \<open>r.List[0]\<close>.\<close>

definition first_server :: "'si list \<Rightarrow> 'si go" where
  "first_server roster = index_go roster 0"

lemma first_server_Cons [simp]: "first_server (s # ss) = Ok s"
  by (simp add: first_server_def)

lemma first_server_Nil [simp]: "first_server [] = Panic IndexOutOfRange"
  by (simp add: first_server_def)

text \<open>A reply is the handler's own reply, and only the addressed server can have changed.\<close>

lemma SendProtobuf_Ok:
  assumes "SendProtobuf d handler sv dest req = (Ok rep, sv')"
  shows "handler (sv dest) req = (Ok rep, sv' dest)"
  using assms by (auto simp: SendProtobuf_def go_simps prod_eq_iff split: delivery.splits)

lemma SendProtobuf_frame:
  assumes "SendProtobuf d handler sv dest req = (res, sv')" and "s \<noteq> dest"
  shows "sv' s = sv s"
  using assms by (auto simp: SendProtobuf_def split: delivery.splits)

lemma SendProtobuf_Delivered:
  "handler (sv dest) req = (Ok rep, st') \<Longrightarrow>
     SendProtobuf (Delivered w) handler sv dest req = (Ok rep, sv(dest := st'))"
  by (simp add: SendProtobuf_def)

end
