(* ===== verification/Example_Env.thy ===== *)
theory Example_Env
  imports Crypto_Util Blob_Store
begin

text \<open>
  A concrete environment that satisfies the laws the properties assume of the code outside the
  repository, so that every such property has an instance. Points and scalars are integers
  (scalar multiplication is multiplication, the base point is 1), a message is embedded as a
  number in base 256 with a leading 1, sealing appends the key and the nonce, a signature is
  the key's low byte followed by the message, and a database is a map.
\<close>

section \<open>Numbers and byte strings\<close>

fun bytes_num :: "bytes \<Rightarrow> int" where
  "bytes_num [] = 1"
| "bytes_num (b # bs) = bytes_num bs * 256 + uint b"

fun num_bytes :: "nat \<Rightarrow> int \<Rightarrow> bytes go" where
  "num_bytes n z =
     (if z = 1 then Ok []
      else if n = 0 \<or> z < 256 then Err (Error ''no embedded data'')
      else bindG (num_bytes (n - 1) (z div 256)) (\<lambda>bs. Ok (word_of_int (z mod 256) # bs)))"

declare num_bytes.simps [simp del]

lemma bytes_num_pos: "1 \<le> bytes_num bs"
  by (induction bs) (auto simp: add_increasing2)

lemma uint_byte_bound: "0 \<le> uint (b :: byte) \<and> uint b < 256"
proof -
  have "uint b < 2 ^ LENGTH(8)" by (rule unsigned_less)
  then show ?thesis by simp
qed

lemma num_bytes_num: "length bs \<le> n \<Longrightarrow> num_bytes n (bytes_num bs) = Ok bs"
proof (induction bs arbitrary: n)
  case (Cons b bs)
  then obtain m where n: "n = Suc m" and IH: "num_bytes m (bytes_num bs) = Ok bs"
    by (cases n) auto
  let ?z = "bytes_num bs * 256 + uint b"
  have "1 \<le> bytes_num bs" by (rule bytes_num_pos)
  with uint_byte_bound [of b] have
    "?z \<noteq> 1" "\<not> ?z < 256" "?z div 256 = bytes_num bs"
    by linarith+
  moreover have "?z mod 256 = uint b"
    using uint_byte_bound [of b] by (simp add: mod_pos_pos_trivial)
  ultimately have "num_bytes (Suc m) ?z = Ok (b # bs)"
    using IH by (simp add: num_bytes.simps [of "Suc m"])
  with n show ?case by simp
qed (simp add: num_bytes.simps)

lemma num_bytes_length: "num_bytes n z = Ok bs \<Longrightarrow> length bs \<le> n"
proof (induction n z arbitrary: bs rule: num_bytes.induct)
  case (1 n z)
  show ?case
  proof (cases "z = 1 \<or> n = 0 \<or> z < 256")
    case True
    with "1.prems" show ?thesis by (auto simp: num_bytes.simps [of n z] split: if_splits)
  next
    case False
    with "1.prems" obtain cs where "num_bytes (n - 1) (z div 256) = Ok cs"
      and "length bs = Suc (length cs)"
      by (auto simp: num_bytes.simps [of n z] go_simps)
    with "1.IH" False have "length cs \<le> n - 1" by auto
    with False \<open>length bs = Suc (length cs)\<close> show ?thesis by linarith
  qed
qed

section \<open>The suite\<close>

definition example_Open :: "bytes \<Rightarrow> bytes \<Rightarrow> bytes \<Rightarrow> bytes go" where
  "example_Open k n c =
     (let m = take (length c - length (k @ n)) c in
      if c = m @ k @ n then Ok m else Err (Error ''cipher: message authentication failed''))"

definition example_suite :: "(int, int, int) suite" where
  "example_suite =
     \<lparr>Mul = (\<lambda>s p. case p of None \<Rightarrow> s | Some q \<Rightarrow> s * q),
      Add = (+), Sub = (-),
      Embed = (\<lambda>m r. bytes_num m), EmbedLen = 29, PData = num_bytes 29,
      MarshalBinary = (\<lambda>p. Ok [word_of_int p, word_of_int (p div 256)]),
      StringHexToPoint = (\<lambda>s. bindG (DecodeString s) (\<lambda>bs. Ok (bytes_num bs))),
      Pick = (\<lambda>r. r),
      schnorr_Sign = (\<lambda>x m. Ok (word_of_int x # m)),
      schnorr_Verify = (\<lambda>p m s. if s = word_of_int p # m then Ok ()
                                else Err (Error ''schnorr: invalid signature'')),
      Sum256 = (\<lambda>m. 1 # m),
      gcm_Seal = (\<lambda>k n m. m @ k @ n), gcm_Open = example_Open\<rparr>"

lemma example_Open_iff: "example_Open k n c = Ok m \<longleftrightarrow> c = m @ k @ n"
  by (auto simp: example_Open_def Let_def)

lemma example_group_law [simp]: "group_law example_suite"
  by (auto simp: group_law_def example_suite_def num_bytes_num dest: num_bytes_length)

lemma example_aead_law [simp]: "aead_law example_suite"
  by (auto simp: aead_law_def example_suite_def example_Open_iff)

lemma example_sign_law [simp]: "sign_law example_suite"
  by (simp add: sign_law_def example_suite_def)

lemma example_entropy_ok:
  "length k = 16 \<Longrightarrow> length n1 = 12 \<Longrightarrow> length n2 = 12 \<Longrightarrow>
     entropy_ok \<lparr>symKeyDraw = k, nonceDraw = Ok n1, embedDraw = r1, scalarDraw = r2,
                 readerNonceDraw = Ok n2\<rparr>"
  by (simp add: entropy_ok_def)

section \<open>The database\<close>

type_synonym map_db = "bytes \<Rightarrow> bytes \<Rightarrow> bytes option"

definition map_env :: "('req \<Rightarrow> bytes) \<Rightarrow> (bytes \<Rightarrow> 'req option) \<Rightarrow> (map_db, 'req) store_env" where
  "map_env mar unmar =
     \<lparr>bBegin = Ok, bCommit = Ok, bGet = (\<lambda>db b k. db b k),
      bPut = (\<lambda>db b k v. if k = [] then Err (Error ''key required'')
                         else Ok (db(b := (db b)(k \<mapsto> v)))),
      network_Marshal = (\<lambda>r. Ok (mar r)), network_Unmarshal = (\<lambda>v. Ok (unmar v)),
      hash256 = Sum256 example_suite\<rparr>"

lemma map_env_law: "(\<And>r. unmar (mar r) = Some r) \<Longrightarrow> store_law (map_env mar unmar)"
  by (auto simp: store_law_def map_env_def split: if_splits)

lemma map_env_up [simp]: "store_up (map_env mar unmar)"
  by (simp add: store_up_def map_env_def example_suite_def)

lemma map_env_hash [simp]: "hash256 (map_env mar unmar) = Sum256 example_suite"
  by (simp add: map_env_def)

lemma map_env_bGet [simp]: "bGet (map_env mar unmar) db b k = db b k"
  by (simp add: map_env_def)

section \<open>A self-delimiting encoding for messages\<close>

fun put_bytes :: "bytes \<Rightarrow> bytes" where
  "put_bytes [] = [0]"
| "put_bytes (b # bs) = 1 # b # put_bytes bs"

fun get_bytes :: "bytes \<Rightarrow> (bytes \<times> bytes) option" where
  "get_bytes (t # s) =
     (if t = 0 then Some ([], s)
      else case s of [] \<Rightarrow> None
           | b # s' \<Rightarrow> (case get_bytes s' of None \<Rightarrow> None | Some (bs, r) \<Rightarrow> Some (b # bs, r)))"
| "get_bytes [] = None"

definition put_int :: "int \<Rightarrow> bytes" where
  "put_int z = (if z < 0 then 1 else 0) # put_bytes (replicate (nat \<bar>z\<bar>) 7)"

definition get_int :: "bytes \<Rightarrow> (int \<times> bytes) option" where
  "get_int s =
     (case s of [] \<Rightarrow> None
      | t # s' \<Rightarrow>
        (case get_bytes s' of None \<Rightarrow> None
         | Some (bs, r) \<Rightarrow> Some (if t = 0 then int (length bs) else - int (length bs), r)))"

lemma get_put_bytes [simp]: "get_bytes (put_bytes bs @ r) = Some (bs, r)"
  by (induction bs) auto

lemma get_put_int [simp]: "get_int (put_int z @ r) = Some (z, r)"
  by (auto simp: get_int_def put_int_def)

end
