(* ===== verification/Fully_Centralized.thy ===== *)
theory Fully_Centralized
  imports Key_Relay Blob_Store Onet_Client Example_Env
begin

text \<open>
  \<open>src/fully_centralized\<close>: one trusted server keeps the encrypted data and re-encrypts the key
  of a write to the reader the write names.

  \<^item> \<open>service/struct.go\<close>: the messages, the database operations and \<open>reencryptData\<close>;
  \<^item> \<open>service/service.go\<close>: the handlers \<open>Write\<close> and \<open>Read\<close>, the constructor;
  \<^item> \<open>service/api.go\<close>, \<open>api.go\<close>, \<open>client/main.go\<close>: the client side.
\<close>

section \<open>Messages and database\<close>

record 'pt WriteRequest =
  wr_EncData :: bytes
  wr_DataHash :: bytes
  wr_K :: 'pt
  wr_C :: 'pt
  wr_Reader :: 'pt
  wr_EncReader :: bytes

record WriteReply =
  WriteID :: string

record ReadRequest =
  rr_WriteID :: string
  rr_Sig :: bytes

record 'pt ReadReply =
  rp_K :: 'pt
  rp_C :: 'pt

text \<open>The database operations; \<open>bn\<close> is the bucket name.\<close>

definition fc_getFromTx ::
    "('db, 'pt WriteRequest) store_env \<Rightarrow> bytes \<Rightarrow> 'db \<Rightarrow> bytes \<Rightarrow> 'pt WriteRequest go" where
  "fc_getFromTx E bn tx key =
     (case bGet E tx bn key of
        None \<Rightarrow> Err (Error ''Key does not exist'')
      | Some val \<Rightarrow> bindG (network_Unmarshal E val) assert_type)"

definition GetWrite ::
    "('db, 'pt WriteRequest) store_env \<Rightarrow> bytes \<Rightarrow> 'db \<Rightarrow> string \<Rightarrow> 'pt WriteRequest go" where
  "GetWrite E bn db wID =
     bindG (DecodeString wID) (\<lambda>key. DB_View E (\<lambda>tx. fc_getFromTx E bn tx key) db)"

definition StoreWrite ::
    "('db, 'pt WriteRequest) store_env \<Rightarrow> bytes \<Rightarrow> 'db \<Rightarrow> 'pt WriteRequest \<Rightarrow> string go \<times> 'db" where
  "StoreWrite E bn db req =
     (let dataHash = hash256 E (wr_EncData req) in
      if Compare dataHash (wr_DataHash req) \<noteq> 0 then (Err (Error ''Hashes do not match''), db)
      else
        case network_Marshal E req of
          Err _ \<Rightarrow> (Err (Error ''Cannot marshal write request''), db)
        | Panic p \<Rightarrow> (Panic p, db)
        | Ok val \<Rightarrow>
            (case DB_Update E (put_if_absent E bn dataHash val) db of
               (res, db') \<Rightarrow> (bindG res (\<lambda>_. Ok (EncodeToString dataHash)), db')))"

section \<open>The service\<close>

text \<open>The private key of the server, its database and its bucket.\<close>

record ('sc, 'db) FService =
  fs_priv :: 'sc
  fs_db :: 'db
  fs_bucket :: bytes

text \<open>The comparison of the reader with the decrypted \<open>EncReader\<close> is commented out in the
  source, so it is not here.\<close>

definition fc_reencryptData ::
    "('pt, 'sc, 'rnd) suite \<Rightarrow> 'rnd \<Rightarrow> 'rnd \<Rightarrow> ReadRequest \<Rightarrow> 'pt WriteRequest \<Rightarrow> 'sc
      \<Rightarrow> ('pt \<times> 'pt) go" where
  "fc_reencryptData S r1 r2 rr sw sk =
     bindG (DecodeString (rr_WriteID rr)) (\<lambda>widBytes.
     if Compare widBytes (wr_DataHash sw) \<noteq> 0 then Err (Error ''WriteIDs do not match'')
     else
       bindG (schnorr_Verify S (wr_Reader sw) widBytes (rr_Sig rr)) (\<lambda>_.
       bindG (ElGamalDecrypt S sk (wr_K sw) (wr_C sw)) (\<lambda>symKey.
       let (k, c, _) = ElGamalEncrypt S r1 r2 (wr_Reader sw) symKey in Ok (k, c))))"

definition Write ::
    "('db, 'pt WriteRequest) store_env \<Rightarrow> ('sc, 'db) FService \<Rightarrow> 'pt WriteRequest
      \<Rightarrow> WriteReply go \<times> ('sc, 'db) FService" where
  "Write E s req =
     (case StoreWrite E (fs_bucket s) (fs_db s) req of
        (res, db') \<Rightarrow>
          (bindG res (\<lambda>storedKey. Ok \<lparr>WriteID = storedKey\<rparr>), s\<lparr>fs_db := db'\<rparr>))"

definition Read ::
    "('pt, 'sc, 'rnd) suite \<Rightarrow> ('db, 'pt WriteRequest) store_env \<Rightarrow> 'rnd \<Rightarrow> 'rnd
      \<Rightarrow> ('sc, 'db) FService \<Rightarrow> ReadRequest \<Rightarrow> 'pt ReadReply go \<times> ('sc, 'db) FService" where
  "Read S E r1 r2 s req =
     (bindG (GetWrite E (fs_bucket s) (fs_db s) (rr_WriteID req)) (\<lambda>storedWrite.
      bindG (fc_reencryptData S r1 r2 req storedWrite (fs_priv s)) (\<lambda>(k, c).
      Ok \<lparr>rp_K = k, rp_C = c\<rparr>)), s)"

text \<open>
  \<open>save\<close>, the error of which is only logged, and the constructor. \<open>Save\<close> writes the storage, which has no
  field but its mutex, to the disk; \<open>bucket\<close> is what \<open>GetAdditionalBucket\<close> gives, \<open>reg\<close> the result of
  \<open>RegisterHandlers\<close> and \<open>load\<close> that of \<open>Load(storageID)\<close>: \<open>None\<close> when nothing was saved,
  otherwise whether the saved message has the type \<open>storage\<close> (which has no field but its mutex).
\<close>

definition fc_save :: "('disk \<Rightarrow> unit go \<times> 'disk) \<Rightarrow> 'disk \<Rightarrow> 'disk" where
  "fc_save Save disk = (case Save disk of (err, disk') \<Rightarrow> disk')"

definition fc_tryLoad :: "bool option go \<Rightarrow> unit go" where
  "fc_tryLoad load =
     bindG load (\<lambda>msg.
     case msg of
       None \<Rightarrow> Ok ()
     | Some ok \<Rightarrow> if ok then Ok () else Err (Error ''Data of wrong type''))"

definition newCentralizedCalypsoService ::
    "'sc \<Rightarrow> 'db \<times> bytes \<Rightarrow> unit go \<Rightarrow> bool option go \<Rightarrow> ('sc, 'db) FService go" where
  "newCentralizedCalypsoService priv bucket reg load =
     bindG (map_err (\<lambda>_. Error ''Couldn't register messages'') reg) (\<lambda>_.
     bindG (fc_tryLoad load) (\<lambda>_.
     Ok \<lparr>fs_priv = priv, fs_db = fst bucket, fs_bucket = snd bucket\<rparr>))"

section \<open>The client\<close>

definition Client_Write ::
    "('db, 'pt WriteRequest) store_env \<Rightarrow> delivery \<Rightarrow> 'si list \<Rightarrow> ('si \<Rightarrow> ('sc, 'db) FService)
      \<Rightarrow> 'pt WriteRequest \<Rightarrow> WriteReply go \<times> ('si \<Rightarrow> ('sc, 'db) FService)" where
  "Client_Write E d r sv wr =
     (case first_server r of
        Ok dest \<Rightarrow> SendProtobuf d (Write E) sv dest wr
      | Err e \<Rightarrow> (Err e, sv)
      | Panic p \<Rightarrow> (Panic p, sv))"

definition Client_Read ::
    "('pt, 'sc, 'rnd) suite \<Rightarrow> ('db, 'pt WriteRequest) store_env \<Rightarrow> 'rnd \<Rightarrow> 'rnd \<Rightarrow> delivery
      \<Rightarrow> 'si list \<Rightarrow> ('si \<Rightarrow> ('sc, 'db) FService) \<Rightarrow> ReadRequest
      \<Rightarrow> 'pt ReadReply go \<times> ('si \<Rightarrow> ('sc, 'db) FService)" where
  "Client_Read S E r1 r2 d r sv rr =
     (case first_server r of
        Ok dest \<Rightarrow> SendProtobuf d (Read S E r1 r2) sv dest rr
      | Err e \<Rightarrow> (Err e, sv)
      | Panic p \<Rightarrow> (Panic p, sv))"

text \<open>\<open>CreateWriteTxn\<close> returns its argument with \<open>StoredKey\<close> set, and the error beside it.\<close>

definition CreateWriteTxn ::
    "('db, 'pt WriteRequest) store_env \<Rightarrow> delivery \<Rightarrow> 'si list \<Rightarrow> ('si \<Rightarrow> ('sc, 'db) FService)
      \<Rightarrow> 'pt WriteData \<Rightarrow> 'pt WriteData \<times> unit go \<times> ('si \<Rightarrow> ('sc, 'db) FService)" where
  "CreateWriteTxn E d roster sv wd =
     (let wr = \<lparr>wr_EncData = Data wd, wr_DataHash = DataHash wd, wr_K = K wd, wr_C = C wd,
                wr_Reader = Reader wd, wr_EncReader = []\<rparr>
      in case Client_Write E d roster sv wr of
           (Ok reply, sv') \<Rightarrow> (wd\<lparr>StoredKey := WriteID reply\<rparr>, Ok (), sv')
         | (Err e, sv') \<Rightarrow> (wd\<lparr>StoredKey := []\<rparr>, Err e, sv')
         | (Panic p, sv') \<Rightarrow> (wd, Panic p, sv'))"

definition CreateReadTxn ::
    "('pt, 'sc, 'rnd) suite \<Rightarrow> ('db, 'pt WriteRequest) store_env \<Rightarrow> 'rnd \<Rightarrow> 'rnd \<Rightarrow> delivery
      \<Rightarrow> 'si list \<Rightarrow> ('si \<Rightarrow> ('sc, 'db) FService) \<Rightarrow> string \<Rightarrow> 'sc
      \<Rightarrow> ('pt \<times> 'pt) go \<times> ('si \<Rightarrow> ('sc, 'db) FService)" where
  "CreateReadTxn S E r1 r2 d roster sv wID sk =
     (case bindG (DecodeString wID) (schnorr_Sign S sk) of
        Err e \<Rightarrow> (Err e, sv)
      | Panic p \<Rightarrow> (Panic p, sv)
      | Ok sig \<Rightarrow>
          (case Client_Read S E r1 r2 d roster sv \<lparr>rr_WriteID = wID, rr_Sig = sig\<rparr> of
             (res, sv') \<Rightarrow> (bindG res (\<lambda>reply. Ok (rp_K reply, rp_C reply)), sv')))"

text \<open>
  \<open>runFullyCentralizedCalypso\<close>: one write, one read and the recovery of the data. The draws
  \<open>rs\<close> pick the reader's key; \<open>r1\<close>, \<open>r2\<close> are the server's. Every error ends the process with
  \<open>os.Exit(1)\<close>; the result is the data the program prints.
\<close>

definition runFullyCentralizedCalypso ::
    "('pt, 'sc, 'rnd) suite \<Rightarrow> ('db, 'pt WriteRequest) store_env \<Rightarrow> 'rnd \<Rightarrow> 'rnd entropy \<Rightarrow> 'rnd \<Rightarrow> 'rnd
      \<Rightarrow> delivery \<Rightarrow> delivery \<Rightarrow> 'si list \<Rightarrow> ('si \<Rightarrow> ('sc, 'db) FService) \<Rightarrow> 'pt \<Rightarrow> bytes
      \<Rightarrow> bytes process \<times> ('si \<Rightarrow> ('sc, 'db) FService)" where
  "runFullyCentralizedCalypso S E rs e r1 r2 d1 d2 roster sv serverKey data =
     (let rSk = Pick S rs; rPk = Mul S rSk None in
      case CreateWriteData S e data rPk serverKey False of
        Err er \<Rightarrow> (os_Exit, sv) | Panic pa \<Rightarrow> (Returns (Panic pa), sv)
      | Ok wd0 \<Rightarrow>
     (case CreateWriteTxn E d1 roster sv wd0 of
        (wd, Err er, sv1) \<Rightarrow> (os_Exit, sv1) | (wd, Panic pa, sv1) \<Rightarrow> (Returns (Panic pa), sv1)
      | (wd, Ok _, sv1) \<Rightarrow>
     (case CreateReadTxn S E r1 r2 d2 roster sv1 (StoredKey wd) rSk of
        (Err er, sv2) \<Rightarrow> (os_Exit, sv2) | (Panic pa, sv2) \<Rightarrow> (Returns (Panic pa), sv2)
      | (Ok (kRead, cRead), sv2) \<Rightarrow>
          (or_exit (\<lambda>_. []) (RecoverData S (Data wd) rSk kRead cRead), sv2))))"

text \<open>
  The calls a server gets, in any order: \<open>RegisterHandlers(s.Write, s.Read)\<close>. A read comes with
  the server's draws.
\<close>

datatype ('pt, 'rnd) fc_call =
    CallWrite "'pt WriteRequest"
  | CallRead 'rnd 'rnd ReadRequest

primrec fc_serve ::
    "('pt, 'sc, 'rnd) suite \<Rightarrow> ('db, 'pt WriteRequest) store_env \<Rightarrow> ('sc, 'db) FService
      \<Rightarrow> ('pt, 'rnd) fc_call \<Rightarrow> ('sc, 'db) FService" where
  "fc_serve S E s (CallWrite req) = snd (Write E s req)"
| "fc_serve S E s (CallRead r1 r2 req) = snd (Read S E r1 r2 s req)"

definition fc_serve_all ::
    "('pt, 'sc, 'rnd) suite \<Rightarrow> ('db, 'pt WriteRequest) store_env \<Rightarrow> ('sc, 'db) FService
      \<Rightarrow> ('pt, 'rnd) fc_call list \<Rightarrow> ('sc, 'db) FService" where
  "fc_serve_all S E s cs = foldl (fc_serve S E) s cs"

section \<open>Facts\<close>

lemma StoreWrite_OkD:
  assumes "store_law E" and "StoreWrite E bn db req = (Ok key, db')"
  shows "wr_DataHash req = hash256 E (wr_EncData req) \<and> key = EncodeToString (wr_DataHash req) \<and>
    bGet E db bn (wr_DataHash req) = None \<and>
    (\<exists>v. network_Marshal E req = Ok v \<and>
         bGet E db' = (bGet E db)(bn := (bGet E db bn)(wr_DataHash req \<mapsto> v)))"
  using assms(2)
  by (auto simp: StoreWrite_def Let_def go_simps
      split: if_splits go.splits prod.splits dest!: put_new_Ok [OF assms(1)])

lemma StoreWrite_refused:
  "StoreWrite E bn db req = (res, db') \<Longrightarrow> \<not> is_ok res \<Longrightarrow> db' = db"
  by (auto simp: StoreWrite_def Let_def split: if_splits go.splits prod.splits
      dest!: DB_Update_cases)

lemma StoreWrite_accepts:
  assumes "store_law E" and "store_up E" and "wr_DataHash req = hash256 E (wr_EncData req)"
    and "bGet E db bn (wr_DataHash req) = None"
  shows "is_ok (fst (StoreWrite E bn db req))"
proof -
  from store_upD(4) [OF assms(2)] obtain v where v: "network_Marshal E req = Ok v" by blast
  from store_upD(5) [OF assms(2)] assms(3) have "wr_DataHash req \<noteq> []" by simp
  from put_new_accepts [OF assms(1,2) this assms(4), of v] obtain db' where
    "DB_Update E (put_if_absent E bn (wr_DataHash req) v) db = (Ok (), db')" by blast
  with v assms(3) show ?thesis
    by (simp add: StoreWrite_def Let_def)
qed

lemma fc_getFromTx_Ok_iff [go_simps]:
  "fc_getFromTx E bn tx k = Ok r \<longleftrightarrow>
     (\<exists>v. bGet E tx bn k = Some v \<and> network_Unmarshal E v = Ok (Some r))"
  by (auto simp: fc_getFromTx_def go_simps split: option.splits)

lemma GetWrite_iff:
  assumes "store_law E"
  shows "GetWrite E bn db key = Ok r \<longleftrightarrow>
    (\<exists>tx k v. DecodeString key = Ok k \<and> bBegin E db = Ok tx \<and> bGet E db bn k = Some v \<and>
              network_Unmarshal E v = Ok (Some r))"
  using store_lawD(1) [OF assms]
  by (fastforce simp: GetWrite_def DB_View_def go_simps)

lemma StoreWrite_mismatch:
  "wr_DataHash req \<noteq> hash256 E (wr_EncData req) \<Longrightarrow> StoreWrite E bn db req = (Err (Error ''Hashes do not match''), db)"
  by (auto simp: StoreWrite_def Let_def)

lemma StoreWrite_taken:
  assumes "store_law E" and "store_up E" and "wr_DataHash req = hash256 E (wr_EncData req)" and "bGet E db bn (wr_DataHash req) = Some v"
  shows "StoreWrite E bn db req = (Err (Error ''Key already exists''), db)"
proof -
  from store_upD(1) [OF assms(2)] obtain tx where tx: "bBegin E db = Ok tx" by blast
  from store_upD(4) [OF assms(2)] obtain val where "network_Marshal E req = Ok val" by blast
  with put_taken [OF assms(1,4) tx] assms(3) show ?thesis by (simp add: StoreWrite_def Let_def)
qed

lemma GetWrite_read:
  assumes "store_law E" and "bBegin E db = Ok tx"
  shows "GetWrite E bn db key = bindG (DecodeString key) (\<lambda>k.
    case bGet E db bn k of None \<Rightarrow> Err (Error ''Key does not exist'')
    | Some v \<Rightarrow> bindG (network_Unmarshal E v) assert_type)"
  using assms(2) store_lawD(1) [OF assms] by (simp add: GetWrite_def DB_View_def fc_getFromTx_def)

interpretation fc_db: blob_store StoreWrite GetWrite wr_EncData wr_DataHash
  by unfold_locales
    (fact StoreWrite_OkD StoreWrite_refused StoreWrite_accepts GetWrite_iff
      StoreWrite_mismatch StoreWrite_taken GetWrite_read)+

lemma fc_reencryptData_Ok_iff [go_simps]:
  "fc_reencryptData S r1 r2 rr sw sk = Ok (k, c) \<longleftrightarrow>
     DecodeString (rr_WriteID rr) = Ok (wr_DataHash sw) \<and>
     schnorr_Verify S (wr_Reader sw) (wr_DataHash sw) (rr_Sig rr) = Ok () \<and>
     (\<exists>m rem. ElGamalDecrypt S sk (wr_K sw) (wr_C sw) = Ok m \<and>
              ElGamalEncrypt S r1 r2 (wr_Reader sw) m = (k, c, rem))"
  by (auto simp: fc_reencryptData_def go_simps split_def Let_def prod_eq_iff)

interpretation fc_relay: key_relay fc_reencryptData wr_K wr_C wr_Reader
  by unfold_locales (auto simp: go_simps)

lemma Write_Ok_iff:
  "Write E s req = (Ok rep, s') \<longleftrightarrow>
     (\<exists>db'. StoreWrite E (fs_bucket s) (fs_db s) req = (Ok (WriteID rep), db') \<and>
            s' = s\<lparr>fs_db := db'\<rparr>)"
  by (cases rep) (auto simp: Write_def go_simps split: prod.splits)

lemma Read_Ok_iff:
  "Read S E r1 r2 s req = (Ok rep, s') \<longleftrightarrow>
     s' = s \<and>
     (\<exists>w. GetWrite E (fs_bucket s) (fs_db s) (rr_WriteID req) = Ok w \<and>
          fc_reencryptData S r1 r2 req w (fs_priv s) = Ok (rp_K rep, rp_C rep))"
  by (cases rep) (auto simp: Read_def go_simps)

lemma Read_keeps_service: "snd (Read S E r1 r2 s req) = s"
  by (simp add: Read_def)

text \<open>Only the writes of a run of calls reach the database.\<close>

fun fc_writes :: "('pt, 'rnd) fc_call list \<Rightarrow> 'pt WriteRequest list" where
  "fc_writes [] = []"
| "fc_writes (CallWrite r # cs) = r # fc_writes cs"
| "fc_writes (CallRead _ _ _ # cs) = fc_writes cs"

lemma fc_serve_bucket: "fs_bucket (fc_serve S E s c) = fs_bucket s"
  by (cases c) (simp_all add: Write_def Read_def split_def)

lemma fc_serve_all_bucket: "fs_bucket (fc_serve_all S E s cs) = fs_bucket s"
  by (induction cs arbitrary: s) (simp_all add: fc_serve_all_def fc_serve_bucket)

lemma fc_serve_all_db:
  "fs_db (fc_serve_all S E s cs) =
     snd (store_all (StoreWrite E (fs_bucket s)) (fs_db s) (fc_writes cs))"
  by (induction cs arbitrary: s rule: fc_writes.induct)
    (simp_all add: fc_serve_all_def Write_def Read_def split_def Let_def)

text \<open>The request \<open>CreateWriteTxn\<close> sends for a write.\<close>

abbreviation request_of :: "'pt WriteData \<Rightarrow> 'pt WriteRequest" where
  "request_of wd \<equiv> \<lparr>wr_EncData = Data wd, wr_DataHash = DataHash wd, wr_K = K wd, wr_C = C wd,
                    wr_Reader = Reader wd, wr_EncReader = []\<rparr>"

lemma CreateWriteData_plain:
  assumes "entropy_ok e" and "nonceDraw e = Ok n"
  shows "\<exists>wd. CreateWriteData S e data reader pk False = Ok wd \<and>
    Data wd = gcm_Seal S (symKeyDraw e) n data @ n"
  using assms by (auto simp: CreateWriteData_def entropy_ok_def seal_defs split_def Let_def)

lemma CreateWriteTxn_stores:
  assumes "store_law E" and "store_up E" and "DataHash wd = hash256 E (Data wd)"
    and "bGet E (fs_db (sv srv)) (fs_bucket (sv srv)) (DataHash wd) = None"
  obtains db' where
    "StoreWrite E (fs_bucket (sv srv)) (fs_db (sv srv)) (request_of wd) =
       (Ok (EncodeToString (DataHash wd)), db')"
    and "CreateWriteTxn E (Delivered w) (srv # rest) sv wd =
       (wd\<lparr>StoredKey := EncodeToString (DataHash wd)\<rparr>, Ok (), sv(srv := (sv srv)\<lparr>fs_db := db'\<rparr>))"
proof -
  from StoreWrite_accepts [OF assms(1,2), of "request_of wd"] assms(3,4) obtain key db' where
    st: "StoreWrite E (fs_bucket (sv srv)) (fs_db (sv srv)) (request_of wd) = (Ok key, db')"
    by (fastforce simp: go_simps prod_eq_iff)
  with StoreWrite_OkD [OF assms(1) st] have
    "StoreWrite E (fs_bucket (sv srv)) (fs_db (sv srv)) (request_of wd) =
       (Ok (EncodeToString (DataHash wd)), db')"
    by simp
  with that show thesis
    by (simp add: CreateWriteTxn_def Client_Write_def SendProtobuf_def Write_def Let_def)
qed

lemma CreateReadTxn_reads:
  assumes "sign_law S" and "GetWrite E (fs_bucket (sv srv)) (fs_db (sv srv)) wID = Ok w"
    and "DecodeString wID = Ok (wr_DataHash w)" and "wr_Reader w = Mul S rsk None"
    and "ElGamalDecrypt S (fs_priv (sv srv)) (wr_K w) (wr_C w) = Ok m"
  shows "\<exists>k c rr. fc_reencryptData S r1 r2 rr w (fs_priv (sv srv)) = Ok (k, c) \<and>
    CreateReadTxn S E r1 r2 (Delivered wrap) (srv # rest) sv wID rsk = (Ok (k, c), sv)"
proof -
  from assms(1,4) obtain sig where sig: "schnorr_Sign S rsk (wr_DataHash w) = Ok sig"
    and ver: "schnorr_Verify S (wr_Reader w) (wr_DataHash w) sig = Ok ()"
    by (metis sign_law_def)
  obtain k c rem where "ElGamalEncrypt S r1 r2 (wr_Reader w) m = (k, c, rem)"
    by (rule prod_cases3)
  with assms(3,5) ver have
    re: "fc_reencryptData S r1 r2 \<lparr>rr_WriteID = wID, rr_Sig = sig\<rparr> w (fs_priv (sv srv)) = Ok (k, c)"
    by (auto simp: fc_reencryptData_Ok_iff)
  have "CreateReadTxn S E r1 r2 (Delivered wrap) (srv # rest) sv wID rsk = (Ok (k, c), sv)"
    using assms(2,3) sig re
    by (simp add: CreateReadTxn_def Client_Read_def SendProtobuf_def Read_def)
  with re show ?thesis by blast
qed

text \<open>A stored write can be read by the holder of its reader key, who gets the write's key.\<close>

lemma write_then_read:
  assumes "group_law S" and "sign_law S" and "store_law E" and "store_up E"
    and "DataHash wd = hash256 E (Data wd)"
    and "bGet E (fs_db (sv srv)) (fs_bucket (sv srv)) (DataHash wd) = None"
    and "Reader wd = Mul S rsk None"
    and "ElGamalDecrypt S (fs_priv (sv srv)) (K wd) (C wd) = Ok key"
  shows "\<exists>sv1 k c. CreateWriteTxn E (Delivered w1) (srv # rest) sv wd =
        (wd\<lparr>StoredKey := EncodeToString (DataHash wd)\<rparr>, Ok (), sv1) \<and>
      CreateReadTxn S E r1 r2 (Delivered w2) (srv # rest) sv1 (EncodeToString (DataHash wd)) rsk =
        (Ok (k, c), sv1) \<and>
      ElGamalDecrypt S rsk k c = Ok key"
proof -
  let ?s = "sv srv"
  from CreateWriteTxn_stores [where sv = sv and srv = srv, OF assms(3-6)] obtain db' where
    st: "StoreWrite E (fs_bucket ?s) (fs_db ?s) (request_of wd) =
       (Ok (EncodeToString (DataHash wd)), db')" and
    cw: "CreateWriteTxn E (Delivered w1) (srv # rest) sv wd =
       (wd\<lparr>StoredKey := EncodeToString (DataHash wd)\<rparr>, Ok (), sv(srv := ?s\<lparr>fs_db := db'\<rparr>))"
    by metis
  let ?sv = "sv(srv := ?s\<lparr>fs_db := db'\<rparr>)"
  from store_upD(1) [OF assms(4)] obtain tx where "bBegin E db' = Ok tx" by blast
  with fc_db.fetch_after_store [OF assms(3) st, of "[]"] have
    "GetWrite E (fs_bucket (?sv srv)) (fs_db (?sv srv)) (EncodeToString (DataHash wd)) =
       Ok (request_of wd)"
    by simp
  then obtain k c rr where
    re: "fc_reencryptData S r1 r2 rr (request_of wd) (fs_priv (?sv srv)) = Ok (k, c)" and
    cr: "CreateReadTxn S E r1 r2 (Delivered w2) (srv # rest) ?sv
           (EncodeToString (DataHash wd)) rsk = (Ok (k, c), ?sv)"
    using CreateReadTxn_reads [where sv = ?sv and srv = srv and w = "request_of wd" and
        rsk = rsk and m = key and wID = "EncodeToString (DataHash wd)", OF assms(2)] assms(7,8)
    by fastforce
  have "ElGamalDecrypt S rsk k c = Ok key"
    using fc_relay.relay_same_key [OF assms(1) re] assms(7,8) by simp
  with cw cr show ?thesis by blast
qed

text \<open>The whole run: the data comes back, and the server has one more key.\<close>

lemma run_fully_ok:
  assumes laws: "group_law S" "aead_law S" "sign_law S" "store_law E" "store_up E"
    and hash: "hash256 E = Sum256 S"
    and draws: "entropy_ok e" "nonceDraw e = Ok n"
    and key: "serverKey = Mul S (fs_priv (sv srv)) None"
    and fresh: "bGet E (fs_db (sv srv)) (fs_bucket (sv srv))
                  (Sum256 S (gcm_Seal S (symKeyDraw e) n data @ n)) = None"
  shows "\<exists>db' v. runFullyCentralizedCalypso S E rs e r1 r2 (Delivered w1) (Delivered w2) (srv # rest) sv serverKey data =
      (Returns (Ok data), sv(srv := (sv srv)\<lparr>fs_db := db'\<rparr>)) \<and>
    bGet E db' = (bGet E (fs_db (sv srv)))(fs_bucket (sv srv) :=
      (bGet E (fs_db (sv srv)) (fs_bucket (sv srv)))(Sum256 S (gcm_Seal S (symKeyDraw e) n data @ n) \<mapsto> v))"
proof -
  let ?rsk = "Pick S rs" and ?s = "sv srv"
  obtain wd where wd: "CreateWriteData S e data (Mul S ?rsk None) serverKey False = Ok wd"
    and enc: "Data wd = gcm_Seal S (symKeyDraw e) n data @ n"
    using CreateWriteData_plain [OF draws, of S data "Mul S ?rsk None" serverKey] by auto
  note wdD = CreateWriteData_OkD [OF wd]
    and rec = CreateWriteData_recover [OF laws(1,2) draws(1) wd [unfolded key]]
  from wdD(2) hash have dh: "DataHash wd = hash256 E (Data wd)" by simp
  have sum: "DataHash wd = Sum256 S (gcm_Seal S (symKeyDraw e) n data @ n)" using wdD(2) enc by simp
  with fresh have new: "bGet E (fs_db ?s) (fs_bucket ?s) (DataHash wd) = None" by simp
  obtain db' where st: "StoreWrite E (fs_bucket ?s) (fs_db ?s) (request_of wd) = (Ok (EncodeToString (DataHash wd)), db')"
    and cw: "CreateWriteTxn E (Delivered w1) (srv # rest) sv wd =
       (wd\<lparr>StoredKey := EncodeToString (DataHash wd)\<rparr>, Ok (), sv(srv := ?s\<lparr>fs_db := db'\<rparr>))"
    using CreateWriteTxn_stores [where sv = sv and srv = srv, OF laws(4,5) dh new] by metis
  obtain k c where
    "CreateReadTxn S E r1 r2 (Delivered w2) (srv # rest) (sv(srv := ?s\<lparr>fs_db := db'\<rparr>))
       (EncodeToString (DataHash wd)) ?rsk = (Ok (k, c), sv(srv := ?s\<lparr>fs_db := db'\<rparr>))" and
    "ElGamalDecrypt S ?rsk k c = Ok (symKeyDraw e)"
    using write_then_read [where sv = sv and srv = srv, OF laws(1,3-5) dh new wdD(4) rec(1), of w1 rest r1 r2 w2] cw
    by auto
  with wd cw rec(2) have "runFullyCentralizedCalypso S E rs e r1 r2 (Delivered w1) (Delivered w2) (srv # rest) sv
      serverKey data = (Returns (Ok data), sv(srv := ?s\<lparr>fs_db := db'\<rparr>))"
    by (simp add: runFullyCentralizedCalypso_def RecoverData_def or_exit_def Let_def)
  moreover obtain v where "bGet E db' = (bGet E (fs_db ?s))(fs_bucket ?s := (bGet E (fs_db ?s) (fs_bucket ?s))(DataHash wd \<mapsto> v))"
    using StoreWrite_OkD [OF laws(4) st] by auto
  ultimately show ?thesis unfolding sum by blast
qed

section \<open>A concrete server for the witnesses\<close>

definition fc_put :: "int WriteRequest \<Rightarrow> bytes" where
  "fc_put r = put_bytes (wr_EncData r) @ put_bytes (wr_DataHash r) @ put_int (wr_K r) @
     put_int (wr_C r) @ put_int (wr_Reader r) @ put_bytes (wr_EncReader r)"

definition fc_get :: "bytes \<Rightarrow> int WriteRequest option" where
  "fc_get s =
     Option.bind (get_bytes s) (\<lambda>(d, s).
     Option.bind (get_bytes s) (\<lambda>(h, s).
     Option.bind (get_int s) (\<lambda>(k, s).
     Option.bind (get_int s) (\<lambda>(c, s).
     Option.bind (get_int s) (\<lambda>(r, s).
     Option.bind (get_bytes s) (\<lambda>(er, s).
     Some \<lparr>wr_EncData = d, wr_DataHash = h, wr_K = k, wr_C = c, wr_Reader = r,
           wr_EncReader = er\<rparr>))))))"

abbreviation fc_env :: "(map_db, int WriteRequest) store_env" where
  "fc_env \<equiv> map_env fc_put fc_get"

lemma fc_get_put: "fc_get (fc_put r) = Some r"
  using get_put_bytes [of "wr_EncReader r" "[]"] by (simp add: fc_get_def fc_put_def)

lemma fc_env_law [simp]: "store_law fc_env"
  by (rule map_env_law) (rule fc_get_put)

abbreviation fc_server :: "(int, map_db) FService" where
  "fc_server \<equiv> \<lparr>fs_priv = 7, fs_db = (\<lambda>_ _. None), fs_bucket = [1]\<rparr>"

abbreviation example_entropy :: "int entropy" where
  "example_entropy \<equiv> \<lparr>symKeyDraw = replicate 16 5, nonceDraw = Ok (replicate 12 9), embedDraw = 0,
     scalarDraw = 11, readerNonceDraw = Ok (replicate 12 3)\<rparr>"

lemma example_entropy_ok' [simp]: "entropy_ok example_entropy"
  by (simp add: entropy_ok_def)

text \<open>A server that holds one write, whose key is the byte 5 and whose reader's key is 3.\<close>

abbreviation fc_req :: "int WriteRequest" where
  "fc_req \<equiv> \<lparr>wr_EncData = [1, 2], wr_DataHash = [1, 1, 2], wr_K = 2, wr_C = 275, wr_Reader = 3,
             wr_EncReader = []\<rparr>"

abbreviation fc_server1 :: "(int, map_db) FService" where
  "fc_server1 \<equiv> \<lparr>fs_priv = 7, fs_db = (\<lambda>_ _. None)([1] := [[1, 1, 2] \<mapsto> fc_put fc_req]),
                 fs_bucket = [1]\<rparr>"

abbreviation fc_wid :: string where
  "fc_wid \<equiv> EncodeToString [1, 1, 2]"

lemma fc_server1_Write: "Write fc_env fc_server fc_req = (Ok \<lparr>WriteID = fc_wid\<rparr>, fc_server1)"
  by (simp add: Write_def StoreWrite_def DB_Update_def put_if_absent_def Let_def map_env_def
      example_suite_def del: EncodeToString.simps)

lemma fc_server1_GetWrite:
  "GetWrite fc_env (fs_bucket fc_server1) (fs_db fc_server1) fc_wid = Ok fc_req"
  unfolding GetWrite_iff [OF fc_env_law]
  by (simp add: fc_get_put map_env_def del: EncodeToString.simps)

lemma fc_server1_Read:
  "Read example_suite fc_env 0 5 fc_server1 \<lparr>rr_WriteID = fc_wid, rr_Sig = [3, 1, 1, 2]\<rparr> =
     (Ok \<lparr>rp_K = 5, rp_C = 276\<rparr>, fc_server1)"
proof -
  have "num_bytes 29 261 = Ok [5]"
    using num_bytes_num [of "[5]" 29] by simp
  with fc_server1_GetWrite show ?thesis
    by (simp add: Read_def fc_reencryptData_def ElGamalDecrypt_def ElGamalEncrypt_def
        example_suite_def Let_def del: EncodeToString.simps)
qed

section \<open>Properties\<close>

text \<open>C1. Round trip of the fully centralised system: the client's run (create a write, store it,
  read it back as the reader, recover) ends with exactly the data it started from, for every
  data, every key pair and every random draw, when the transport delivers, the database is up
  and the hash of the new ciphertext is not taken yet.\<close>

theorem fully_centralized_roundtrip:
  assumes laws: "group_law S" "aead_law S" "sign_law S" "store_law E" "store_up E"
    and hash: "hash256 E = Sum256 S"
    and draws: "entropy_ok e" "nonceDraw e = Ok n"
    and key: "serverKey = Mul S (fs_priv (sv srv)) None"
    and fresh: "bGet E (fs_db (sv srv)) (fs_bucket (sv srv))
                  (Sum256 S (gcm_Seal S (symKeyDraw e) n data @ n)) = None"
  shows "fst (runFullyCentralizedCalypso S E rs e r1 r2 (Delivered w1) (Delivered w2)
                (srv # rest) sv serverKey data) = Returns (Ok data)"
  using run_fully_ok [where sv = sv and srv = srv, OF assms, of rs r1 r2 w1 w2 rest] by auto

theorem fully_centralized_roundtrip_witness:
  "fst (runFullyCentralizedCalypso example_suite fc_env 3 example_entropy 1 2
          (Delivered id) (Delivered id) [()] (\<lambda>_. fc_server) 7 [72, 105]) = Returns (Ok [72, 105])"
  by (rule fully_centralized_roundtrip [where n = "replicate 12 9"])
    (simp_all, simp add: example_suite_def)

text \<open>C4. Authorisation of reads: a read is answered only for a stored write whose hash the
  request names and under a signature that verifies with the reader key of that write; the
  answer carries the write's own key, re-encrypted to that reader, and the server is unchanged.\<close>

theorem fully_read_authorised:
  assumes "group_law S" and "Read S E r1 r2 s req = (Ok rep, s')"
  shows "s' = s \<and> (\<exists>w. GetWrite E (fs_bucket s) (fs_db s) (rr_WriteID req) = Ok w \<and>
    DecodeString (rr_WriteID req) = Ok (wr_DataHash w) \<and>
    schnorr_Verify S (wr_Reader w) (wr_DataHash w) (rr_Sig req) = Ok () \<and>
    (\<forall>rsk. wr_Reader w = Mul S rsk None \<longrightarrow>
       ElGamalDecrypt S rsk (rp_K rep) (rp_C rep) = ElGamalDecrypt S (fs_priv s) (wr_K w) (wr_C w)))"
proof -
  from assms(2) obtain w where s': "s' = s"
    and w: "GetWrite E (fs_bucket s) (fs_db s) (rr_WriteID req) = Ok w"
    and re: "fc_reencryptData S r1 r2 req w (fs_priv s) = Ok (rp_K rep, rp_C rep)"
    by (auto simp: Read_Ok_iff)
  from re fc_relay.relay_same_key [OF assms(1) re] show ?thesis
    by (auto simp: s' w fc_reencryptData_Ok_iff)
qed

theorem fully_read_authorised_witness:
  "\<exists>w. GetWrite fc_env [1] (fs_db fc_server1) fc_wid = Ok w \<and>
    schnorr_Verify example_suite (wr_Reader w) (wr_DataHash w) [3, 1, 1, 2] = Ok ()"
  using fully_read_authorised [OF example_group_law fc_server1_Read]
  by (simp del: EncodeToString.simps) blast

text \<open>C17. Writes are immutable: once a write was accepted, the key its writer got looks up exactly
  that write after any further sequence of writes and reads, and every further write with the
  same hash is refused and leaves the server unchanged.\<close>

theorem fully_write_immutable:
  assumes "store_law E" and "Write E s req = (Ok rep, s1)"
    and "s2 = fc_serve_all S E s1 calls" and "bBegin E (fs_db s2) = Ok tx"
  shows "GetWrite E (fs_bucket s2) (fs_db s2) (WriteID rep) = Ok req \<and>
    (\<forall>req'. wr_DataHash req' = wr_DataHash req \<longrightarrow>
       \<not> is_ok (fst (Write E s2 req')) \<and> snd (Write E s2 req') = s2)"
proof (intro conjI allI impI)
  from assms(2) obtain db1 where
    st: "StoreWrite E (fs_bucket s) (fs_db s) req = (Ok (WriteID rep), db1)"
    and s1: "s1 = s\<lparr>fs_db := db1\<rparr>"
    by (auto simp: Write_Ok_iff)
  have bucket: "fs_bucket s2 = fs_bucket s"
    by (simp add: assms(3) fc_serve_all_bucket s1)
  have run: "store_all (StoreWrite E (fs_bucket s)) db1 (fc_writes calls) =
      (fst (store_all (StoreWrite E (fs_bucket s)) db1 (fc_writes calls)), fs_db s2)"
    by (simp add: assms(3) fc_serve_all_db s1)
  show "GetWrite E (fs_bucket s2) (fs_db s2) (WriteID rep) = Ok req"
    using fc_db.fetch_after_store [OF assms(1) st run assms(4)] bucket by simp
  fix req' :: "'b WriteRequest"
  assume "wr_DataHash req' = wr_DataHash req"
  from fc_db.store_once [OF assms(1) st run this prod.collapse [symmetric]] bucket
  have "\<not> is_ok (fst (StoreWrite E (fs_bucket s2) (fs_db s2) req'))"
    and "snd (StoreWrite E (fs_bucket s2) (fs_db s2) req') = fs_db s2" by simp_all
  then show "\<not> is_ok (fst (Write E s2 req'))" and "snd (Write E s2 req') = s2"
    by (auto simp: Write_def go_simps split_def)
qed

theorem fully_write_immutable_witness:
  "GetWrite fc_env [1] (fs_db fc_server1) fc_wid = Ok fc_req \<and>
     \<not> is_ok (fst (Write fc_env fc_server1 (fc_req\<lparr>wr_Reader := 9\<rparr>)))"
proof -
  have "bBegin fc_env (fs_db fc_server1) = Ok (fs_db fc_server1)" by (simp add: map_env_def)
  from fully_write_immutable [OF fc_env_law fc_server1_Write, of fc_server1 example_suite
      "[CallRead 0 5 \<lparr>rr_WriteID = fc_wid, rr_Sig = [3, 1, 1, 2]\<rparr>]", OF _ this]
  show ?thesis by (simp add: fc_serve_all_def Read_keeps_service del: EncodeToString.simps)
qed

text \<open>Authenticity: starting from an empty bucket, after any sequence of calls to the server,
  whatever a write ID looks up hashes to that ID.\<close>

lemma fully_lookup_authentic:
  assumes "store_law E" and "\<And>k. bGet E (fs_db s) (fs_bucket s) k = None"
    and "s2 = fc_serve_all S E s calls"
    and "GetWrite E (fs_bucket s2) (fs_db s2) wID = Ok w"
  shows "DecodeString wID = Ok (hash256 E (wr_EncData w)) \<and> wr_DataHash w = hash256 E (wr_EncData w)"
proof -
  have "content_addressed wr_EncData wr_DataHash E (fs_bucket s) (fs_db s)"
    by (simp add: content_addressed_def assms(2))
  from fc_db.store_all_content_addressed [OF assms(1) this]
  have "content_addressed wr_EncData wr_DataHash E (fs_bucket s) (fs_db s2)"
    by (simp add: assms(3) fc_serve_all_db)
  from fc_db.fetch_authentic [OF assms(1) this] assms(3,4) show ?thesis
    by (auto simp: fc_serve_all_bucket)
qed

text \<open>C29. The reader key is not bound to the encrypted key: whoever knows the pair \<open>(K, C)\<close> of a
  write can store a write of his own with that pair and his own public key, and the server
  then re-encrypts the first write's key to him. (\<open>reencryptData\<close> has the check of \<open>EncReader\<close>
  commented out.)\<close>

theorem fully_key_not_bound_to_reader:
  assumes "group_law S" and "sign_law S" and "store_law E" and "store_up E"
    and "ElGamalDecrypt S (fs_priv (sv srv)) K0 C0 = Ok key"
    and "bGet E (fs_db (sv srv)) (fs_bucket (sv srv)) (hash256 E d) = None"
    and "wd = \<lparr>Data = d, DataHash = hash256 E d, K = K0, C = C0, Reader = Mul S x None,
              EncReader = [], StoredKey = []\<rparr>"
  shows "\<exists>wd' sv1 k c. CreateWriteTxn E (Delivered w1) (srv # rest) sv wd = (wd', Ok (), sv1) \<and>
    CreateReadTxn S E r1 r2 (Delivered w2) (srv # rest) sv1 (StoredKey wd') x = (Ok (k, c), sv1) \<and>
    ElGamalDecrypt S x k c = Ok key"
proof -
  have "DataHash wd = hash256 E (Data wd)"
    and "bGet E (fs_db (sv srv)) (fs_bucket (sv srv)) (DataHash wd) = None"
    and "Reader wd = Mul S x None" and "ElGamalDecrypt S (fs_priv (sv srv)) (K wd) (C wd) = Ok key"
    using assms(5-7) by simp_all
  from write_then_read [where sv = sv and srv = srv, OF assms(1-4) this, of w1 rest r1 r2 w2] show ?thesis by fastforce
qed

theorem fully_key_not_bound_to_reader_witness:
  "\<exists>wd' sv1 k c.
    CreateWriteTxn fc_env (Delivered id) [()] (\<lambda>_. fc_server1)
      \<lparr>Data = [9], DataHash = [1, 9], K = 2, C = 275, Reader = 4, EncReader = [], StoredKey = []\<rparr> =
        (wd', Ok (), sv1) \<and>
    CreateReadTxn example_suite fc_env 0 6 (Delivered id) [()] sv1 (StoredKey wd') 4 =
        (Ok (k, c), sv1) \<and>
    ElGamalDecrypt example_suite 4 k c = Ok [5]"
proof -
  have "ElGamalDecrypt example_suite (fs_priv fc_server1) 2 275 = Ok [5]"
    using num_bytes_num [of "[5]" 29] by (simp add: ElGamalDecrypt_def example_suite_def)
  from fully_key_not_bound_to_reader [where sv = "\<lambda>_. fc_server1" and srv = "()" and d = "[9]",
      OF example_group_law example_sign_law fc_env_law map_env_up this, of _ 4 id "[]" 0 6 id]
  show ?thesis by (simp add: example_suite_def)
qed

end
