(* ===== verification/Aux_File.thy ===== *)
theory Aux_File
  imports Go_Prelude
begin

text \<open>
  The auxiliary files of the simulations: one decimal number in each line, read with
  \<open>bufio.Scanner\<close> and \<open>strconv.Atoi\<close> (\<open>readAuxFile\<close> of \<open>src/fully_centralized/simulation/service.go\<close>;
  the other simulations read theirs the same way). The number of lines read is the length of the
  list to fill; the errors of \<open>Atoi\<close> are not looked at.
\<close>

section \<open>\<open>bufio.Scanner\<close>\<close>

text \<open>The lines of a file: a line ends at a newline, a carriage return before it is dropped, and the last line
  needs no newline. A line that does not fit into the buffer of 65536 bytes ends the scan.\<close>

definition dropCR :: "bytes \<Rightarrow> bytes" where
  "dropCR l = (if l \<noteq> [] \<and> last l = 13 then butlast l else l)"

definition byte_char :: "byte \<Rightarrow> char" where
  "byte_char b = char_of (unat b)"

function ScanLines :: "bytes \<Rightarrow> string list" where
  "ScanLines bs =
     (let l = takeWhile (\<lambda>b. b \<noteq> 10) bs in
      if bs = [] \<or> length l > 65535 then []
      else map byte_char (dropCR l) # ScanLines (drop (length l + 1) bs))"
  by pat_completeness auto
termination
  by (relation "measure length") auto

declare ScanLines.simps [simp del]

section \<open>\<open>strconv.Atoi\<close>\<close>

definition max_int :: int where "max_int = 9223372036854775807"

definition min_int :: int where "min_int = - 9223372036854775808"

definition max_uint :: int where "max_uint = 18446744073709551615"

text \<open>A number that does not fit into 64 bits ends the loop at once, whatever the text goes on with.\<close>

fun atoi_digits :: "string \<Rightarrow> int \<Rightarrow> int option" where
  "atoi_digits [] acc = Some acc"
| "atoi_digits (c # cs) acc =
     (let n = of_char c :: nat in
      if 48 \<le> n \<and> n \<le> 57 then
        let acc' = acc * 10 + int (n - 48) in
        if acc' > max_uint then Some max_uint else atoi_digits cs acc'
      else None)"

text \<open>The number and the error: a text that is no number gives zero, and a number that does not
  fit is cut off at the bounds of an \<open>int\<close>.\<close>

definition Atoi :: "string \<Rightarrow> int \<times> error option" where
  "Atoi s =
     (let neg = (s \<noteq> [] \<and> hd s = CHR ''-'');
          ds = (if s \<noteq> [] \<and> (hd s = CHR ''-'' \<or> hd s = CHR ''+'') then tl s else s)
      in if ds = [] then (0, Some (Error ''invalid syntax''))
         else case atoi_digits ds 0 of
           None \<Rightarrow> (0, Some (Error ''invalid syntax''))
         | Some n \<Rightarrow>
             let v = (if neg then - n else n) in
             if v > max_int then (max_int, Some (Error ''value out of range''))
             else if v < min_int then (min_int, Some (Error ''value out of range''))
             else (v, None))"

section \<open>\<open>readAuxFile\<close>\<close>

text \<open>\<open>scanner.Text()\<close> is empty once there are no more lines.\<close>

definition scan_line :: "string list \<Rightarrow> nat \<Rightarrow> string" where
  "scan_line ls i = (if i < length ls then ls ! i else [])"

fun fill_list :: "string list \<Rightarrow> nat \<Rightarrow> int list \<Rightarrow> int list" where
  "fill_list ls idx [] = []"
| "fill_list ls idx (_ # xs) = fst (Atoi (scan_line ls idx)) # fill_list ls (idx + 1) xs"

text \<open>\<open>file\<close> is the result of \<open>os.Open\<close>, with the lines of the file; the list has \<open>n\<close> entries.\<close>

definition readAuxFile :: "string list go \<Rightarrow> nat \<Rightarrow> int list go" where
  "readAuxFile file n = bindG file (\<lambda>ls. Ok (fill_list ls 0 (replicate n 0)))"

text \<open>The \<open>readAuxFile\<close> of the semi-centralised simulation reads a second file after the first.\<close>

definition readAuxFiles :: "string list go \<Rightarrow> string list go \<Rightarrow> nat \<Rightarrow> nat \<Rightarrow> (int list \<times> int list) go" where
  "readAuxFiles file1 file2 numTransactions numBlocks =
     bindG (readAuxFile file1 numTransactions) (\<lambda>txnList.
     bindG (readAuxFile file2 numBlocks) (\<lambda>txnPerBlkList.
     Ok (txnList, txnPerBlkList)))"

text \<open>The data of a replayed write: that of transaction \<open>i\<close> is all \<open>byte(i)\<close>.\<close>

definition byzgen_data :: "nat \<Rightarrow> nat \<Rightarrow> bytes" where
  "byzgen_data DATA_SIZE i = replicate DATA_SIZE (word_of_nat i)"

section \<open>Facts\<close>

lemma hexDigit_digit: "n < 10 \<Longrightarrow> (of_char (hexDigit n) :: nat) = 48 + n"
proof -
  assume "n < 10"
  then have "n \<in> set [0, 1, 2, 3, 4, 5, 6, 7, 8, 9]" by simp arith
  then show ?thesis by (auto simp: hexDigit_def)
qed

lemma atoi_digits_Itoa:
  assumes "int n \<le> max_uint"
  shows "atoi_digits (Itoa n @ cs) 0 = atoi_digits cs (int n)"
  using assms
proof (induction n arbitrary: cs rule: Itoa.induct)
  case (1 n)
  show ?case
  proof (cases "n < 10")
    case True
    then show ?thesis by (simp add: Itoa.simps [of n] hexDigit_digit max_uint_def)
  next
    case False
    have d: "n mod 10 \<le> 9" by simp
    have "int (n div 10) \<le> max_uint" using "1.prems" by linarith
    with d False "1.prems" "1.IH" [of "hexDigit (n mod 10) # cs"] show ?thesis
      by (simp add: Itoa.simps [of n] hexDigit_digit Let_def zdiv_int zmod_int)
  qed
qed

lemma Itoa_digits: "c \<in> set (Itoa n) \<Longrightarrow> 48 \<le> (of_char c :: nat)"
proof (induction n rule: Itoa.induct)
  case (1 n)
  then show ?case by (cases "n < 10") (auto simp: Itoa.simps [of n] hexDigit_digit)
qed

lemma Itoa_nonempty: "Itoa n \<noteq> []"
  by (simp add: Itoa.simps [of n])

lemma Atoi_Itoa:
  assumes "int n \<le> max_int"
  shows "Atoi (Itoa n) = (int n, None)"
proof -
  have "hd (Itoa n) \<in> set (Itoa n)" using Itoa_nonempty by simp
  then have "48 \<le> (of_char (hd (Itoa n)) :: nat)" by (rule Itoa_digits)
  then have "hd (Itoa n) \<noteq> CHR ''-''" "hd (Itoa n) \<noteq> CHR ''+''" by auto
  with assms show ?thesis
    using atoi_digits_Itoa [of n "[]"]
    by (simp add: Atoi_def Let_def Itoa_nonempty max_int_def max_uint_def min_int_def)
qed

lemma fill_list_nth: "fill_list ls idx xs = map (\<lambda>i. fst (Atoi (scan_line ls (idx + i)))) [0..<length xs]"
proof (induction xs arbitrary: idx)
  case (Cons x xs)
  have "[0..<length (x # xs)] = 0 # map Suc [0..<length xs]"
    unfolding list.size map_Suc_upt by (subst upt_conv_Cons) simp_all
  with Cons show ?case by (simp add: comp_def)
qed simp

lemma Atoi_empty: "fst (Atoi []) = 0"
  by (simp add: Atoi_def)

text \<open>The lines of a file of numbers.\<close>

lemma Itoa_char: "c \<in> set (Itoa n) \<Longrightarrow> 48 \<le> (of_char c :: nat) \<and> (of_char c :: nat) < 58"
proof (induction n rule: Itoa.induct)
  case (1 n)
  then show ?case by (cases "n < 10") (auto simp: Itoa.simps [of n] hexDigit_digit)
qed

lemma length_Itoa: "n < 10 ^ Suc k \<Longrightarrow> length (Itoa n) \<le> Suc k"
proof (induction k arbitrary: n)
  case (Suc k)
  then have "n div 10 < 10 ^ Suc k" by (simp add: less_mult_imp_div_less)
  with Suc.IH [of "n div 10"] show ?case by (simp add: Itoa.simps [of n])
qed (simp add: Itoa.simps)

definition number_file :: "nat list \<Rightarrow> bytes" where
  "number_file ns = concat (map (\<lambda>n. map of_char (Itoa n) @ [10]) ns)"

lemma Itoa_byte:
  assumes "c \<in> set (Itoa n)"
  shows "(of_char c :: byte) \<noteq> 10" "(of_char c :: byte) \<noteq> 13" "byte_char (of_char c) = c"
proof -
  have "(of_char c :: byte) = word_of_nat (of_char c)" by (rule of_nat_of_char [symmetric])
  moreover have "unat (word_of_nat (of_char c) :: byte) = of_char c"
    using Itoa_char [OF assms] by (simp add: unat_of_nat take_bit_nat_eq_self)
  ultimately have *: "unat (of_char c :: byte) = of_char c" by metis
  with Itoa_char [OF assms] show "(of_char c :: byte) \<noteq> 10" "(of_char c :: byte) \<noteq> 13" by auto
  from * show "byte_char (of_char c) = c" by (simp add: byte_char_def)
qed

lemma ScanLines_number_file:
  assumes "\<And>n. n \<in> set ns \<Longrightarrow> int n \<le> max_int"
  shows "ScanLines (number_file ns) = map Itoa ns"
  using assms
proof (induction ns)
  case Nil
  show ?case by (simp add: number_file_def ScanLines.simps)
next
  case (Cons n ns)
  let ?l = "map of_char (Itoa n) :: bytes"
  have "n < 10 ^ Suc 18" using Cons.prems [of n] by (simp add: max_int_def)
  then have len: "length ?l \<le> 65535" using length_Itoa [of n 18] by simp
  have "takeWhile (\<lambda>b. b \<noteq> 10) (?l @ 10 # number_file ns) = ?l"
    using Itoa_byte(1) by (simp add: takeWhile_append)
  moreover have "dropCR ?l = ?l"
    using Itoa_byte(2) [of "last (Itoa n)" n] by (simp add: dropCR_def last_map Itoa_nonempty)
  moreover have "map byte_char ?l = Itoa n"
    using Itoa_byte(3) by (simp add: comp_def map_idI)
  moreover have "number_file (n # ns) = ?l @ 10 # number_file ns" by (simp add: number_file_def)
  ultimately show ?case
    using Cons len by (subst ScanLines.simps) (simp add: Let_def)
qed

text \<open>Reading what was printed: a file with the decimal forms of \<open>ns\<close>, one in each line, is read
  into a list of \<open>n\<close> entries as the first \<open>n\<close> of them, and the entries for which there is no line
  are zero.\<close>

lemma aux_file_roundtrip:
  assumes "\<And>x. x \<in> set ns \<Longrightarrow> int x \<le> max_int"
  shows "readAuxFile (Ok (map Itoa ns)) n = Ok (map int (take n ns) @ replicate (n - length ns) 0)"
proof -
  have "fill_list (map Itoa ns) 0 (replicate n 0) = map int (take n ns) @ replicate (n - length ns) 0"
  proof (rule nth_equalityI)
    fix i assume "i < length (fill_list (map Itoa ns) 0 (replicate n 0))"
    then have "i < n" by (simp add: fill_list_nth)
    then show "fill_list (map Itoa ns) 0 (replicate n 0) ! i =
        (map int (take n ns) @ replicate (n - length ns) 0) ! i"
      using assms by (cases "i < length ns")
        (auto simp: fill_list_nth scan_line_def Atoi_Itoa Atoi_empty nth_append min_def)
  qed (simp add: fill_list_nth)
  then show ?thesis by (simp add: readAuxFile_def)
qed

end
