(* ===== verification/Fully_Simulation.thy ===== *)
theory Fully_Simulation
  imports Fully_Centralized Aux_File
begin

text \<open>
  \<open>src/fully_centralized/simulation/service.go\<close>: the simulations of the fully centralised system. The
  draws of the writes (\<open>entropy\<close>), the server's draws and the fate of each request are functions of
  the number of the round and of the transaction. \<open>DATA_SIZE\<close> is an argument.
\<close>

section \<open>Replaying a list of transactions\<close>

record 'rnd fc_sim =
  serverDraw1 :: "nat \<Rightarrow> nat \<Rightarrow> 'rnd" \<comment> \<open>by round and transaction\<close>
  serverDraw2 :: "nat \<Rightarrow> nat \<Rightarrow> 'rnd"
  transport :: "nat \<Rightarrow> nat \<Rightarrow> delivery"

text \<open>
  The state of the loop: the list of write data, whose entries \<open>CreateWriteTxn\<close> changes in place, the
  servers, and the counters. The result of a read is put into \<open>readKList\<close> and \<open>readCList\<close> before its
  error is looked at, so an index out of range wins over an error.
\<close>

function byzgen_loop ::
    "('pt, 'sc, 'rnd) suite \<Rightarrow> ('db, 'pt WriteRequest) store_env \<Rightarrow> 'rnd fc_sim \<Rightarrow> nat \<Rightarrow> 'si list \<Rightarrow> 'sc
      \<Rightarrow> int list \<Rightarrow> nat \<Rightarrow> nat \<Rightarrow> nat \<Rightarrow> nat \<Rightarrow> nat \<Rightarrow> 'pt WriteData list \<Rightarrow> ('si \<Rightarrow> ('sc, 'db) FService)
      \<Rightarrow> 'pt WriteData list go \<times> ('si \<Rightarrow> ('sc, 'db) FService)" where
  "byzgen_loop S E sim round roster rSk txnList numRead txnIdx lastWriteIdx writeIdx readIdx wdList sv =
     (if txnIdx < length txnList then
        if txnList ! txnIdx = 1 then
          bindS (index_go wdList writeIdx, sv) (\<lambda>wd sv.
          case CreateWriteTxn E (transport sim round txnIdx) roster sv wd of
            (wd', res, sv') \<Rightarrow>
              bindS (res, sv') (\<lambda>_ sv'.
              byzgen_loop S E sim round roster rSk txnList numRead (txnIdx + 1)
                (if lastWriteIdx + 1 < writeIdx + 1 then lastWriteIdx + 1 else lastWriteIdx)
                (writeIdx + 1) readIdx (wdList[writeIdx := wd']) sv'))
        else
          bindS (index_go wdList lastWriteIdx, sv) (\<lambda>wd sv.
          case CreateReadTxn S E (serverDraw1 sim round txnIdx) (serverDraw2 sim round txnIdx)
                 (transport sim round txnIdx) roster sv (StoredKey wd) rSk of
            (res, sv') \<Rightarrow>
              if \<not> readIdx < numRead then
                (case res of Panic p \<Rightarrow> (Panic p, sv') | _ \<Rightarrow> (Panic IndexOutOfRange, sv'))
              else
                bindS (res, sv') (\<lambda>(k, c) sv'.
                bindS (RecoverData S (Data wd) rSk k c, sv') (\<lambda>_ sv'.
                byzgen_loop S E sim round roster rSk txnList numRead (txnIdx + 1)
                  (if lastWriteIdx + 1 < writeIdx then lastWriteIdx + 1 else lastWriteIdx)
                  writeIdx (readIdx + 1) wdList sv')))
      else (Ok wdList, sv))"
  by pat_completeness auto
termination
  by (relation "measure (\<lambda>(S, E, sim, round, roster, rSk, txnList, numRead, txnIdx, rest). length txnList - txnIdx)") auto

declare byzgen_loop.simps [simp del]

fun byzgen_rounds ::
    "('pt, 'sc, 'rnd) suite \<Rightarrow> ('db, 'pt WriteRequest) store_env \<Rightarrow> 'rnd fc_sim \<Rightarrow> 'si list \<Rightarrow> 'sc
      \<Rightarrow> int list \<Rightarrow> nat \<Rightarrow> nat \<Rightarrow> nat \<Rightarrow> 'pt WriteData list \<Rightarrow> ('si \<Rightarrow> ('sc, 'db) FService)
      \<Rightarrow> unit go \<times> ('si \<Rightarrow> ('sc, 'db) FService)" where
  "byzgen_rounds S E sim roster rSk txnList numRead 0 round wdList sv = (Ok (), sv)"
| "byzgen_rounds S E sim roster rSk txnList numRead (Suc k) round wdList sv =
     bindS (byzgen_loop S E sim round roster rSk txnList numRead 0 0 0 0 wdList sv) (\<lambda>wdList sv.
     byzgen_rounds S E sim roster rSk txnList numRead k (round + 1) wdList sv)"

definition runCentralizedByzgen ::
    "('pt, 'sc, 'rnd) suite \<Rightarrow> ('db, 'pt WriteRequest) store_env \<Rightarrow> 'rnd fc_sim \<Rightarrow> (nat \<Rightarrow> 'rnd entropy) \<Rightarrow> 'rnd
      \<Rightarrow> nat \<Rightarrow> string list go \<Rightarrow> nat \<Rightarrow> nat \<Rightarrow> nat \<Rightarrow> nat \<Rightarrow> 'si list \<Rightarrow> ('si \<Rightarrow> 'pt)
      \<Rightarrow> ('si \<Rightarrow> ('sc, 'db) FService) \<Rightarrow> unit go \<times> ('si \<Rightarrow> ('sc, 'db) FService)" where
  "runCentralizedByzgen S E sim es rs DATA_SIZE file numTransactions numWrite numRead rounds roster pub sv =
     bindS (readAuxFile file numTransactions, sv) (\<lambda>txnList sv.
     bindS (index_go (map pub roster) 0, sv) (\<lambda>serverPk sv.
     let rSk = Pick S rs; rPk = Mul S rSk None in
     bindS (mapG (\<lambda>i. CreateWriteData S (es i) (byzgen_data DATA_SIZE i) rPk serverPk False) [0..<numWrite], sv)
       (\<lambda>wdList sv.
     byzgen_rounds S E sim roster rSk txnList numRead rounds 0 wdList sv)))"

section \<open>The batches\<close>

text \<open>
  One round of \<open>runMicrobenchmark\<close> and \<open>runDecrypt\<close>: a fresh reader, a batch of writes, and their
  reads. The microbenchmark recovers the data of each write right after its read, \<open>runDecrypt\<close>
  after all reads; \<open>together\<close> says which.
\<close>

definition batch_write ::
    "('db, 'pt WriteRequest) store_env \<Rightarrow> 'rnd fc_sim \<Rightarrow> nat \<Rightarrow> 'si list \<Rightarrow> 'pt WriteData list \<Rightarrow> nat
      \<Rightarrow> ('si \<Rightarrow> ('sc, 'db) FService) \<Rightarrow> 'pt WriteData go \<times> ('si \<Rightarrow> ('sc, 'db) FService)" where
  "batch_write E sim round roster wds i sv =
     (case CreateWriteTxn E (transport sim round i) roster sv (wds ! i) of
        (wd, res, sv') \<Rightarrow> bindS (res, sv') (\<lambda>_ sv'. (Ok wd, sv')))"

definition batch_round ::
    "('pt, 'sc, 'rnd) suite \<Rightarrow> ('db, 'pt WriteRequest) store_env \<Rightarrow> 'rnd fc_sim \<Rightarrow> (nat \<Rightarrow> 'rnd entropy) \<Rightarrow> 'rnd
      \<Rightarrow> (nat \<Rightarrow> bytes) \<Rightarrow> bool \<Rightarrow> nat \<Rightarrow> nat \<Rightarrow> 'si list \<Rightarrow> 'pt \<Rightarrow> ('si \<Rightarrow> ('sc, 'db) FService)
      \<Rightarrow> bytes list go \<times> ('si \<Rightarrow> ('sc, 'db) FService)" where
  "batch_round S E sim es rs data together batchSize round roster serverPk sv =
     (let rSk = Pick S rs; rPk = Mul S rSk None in
      bindS (mapG (\<lambda>i. CreateWriteData S (es i) (data i) rPk serverPk False) [0..<batchSize], sv) (\<lambda>wds sv.
      bindS (mapS (batch_write E sim round roster wds) [0..<batchSize] sv) (\<lambda>wdList sv.
      if together then
        mapS (\<lambda>i sv.
          bindS (CreateReadTxn S E (serverDraw1 sim round i) (serverDraw2 sim round i)
                   (transport sim round (batchSize + i)) roster sv (StoredKey (wdList ! i)) rSk) (\<lambda>(k, c) sv.
          (RecoverData S (Data (wdList ! i)) rSk k c, sv))) [0..<batchSize] sv
      else
        bindS (mapS (\<lambda>i sv.
                 CreateReadTxn S E (serverDraw1 sim round i) (serverDraw2 sim round i)
                   (transport sim round (batchSize + i)) roster sv (StoredKey (wdList ! i)) rSk)
                 [0..<batchSize] sv) (\<lambda>kcs sv.
        (mapG (\<lambda>i. RecoverData S (Data (wdList ! i)) rSk (fst (kcs ! i)) (snd (kcs ! i))) [0..<batchSize], sv)))))"

definition fc_batches ::
    "('pt, 'sc, 'rnd) suite \<Rightarrow> ('db, 'pt WriteRequest) store_env \<Rightarrow> 'rnd fc_sim \<Rightarrow> (nat \<Rightarrow> nat \<Rightarrow> 'rnd entropy)
      \<Rightarrow> (nat \<Rightarrow> 'rnd) \<Rightarrow> (nat \<Rightarrow> nat \<Rightarrow> bytes) \<Rightarrow> bool \<Rightarrow> nat \<Rightarrow> nat \<Rightarrow> 'si list \<Rightarrow> ('si \<Rightarrow> 'pt)
      \<Rightarrow> ('si \<Rightarrow> ('sc, 'db) FService) \<Rightarrow> bytes list list go \<times> ('si \<Rightarrow> ('sc, 'db) FService)" where
  "fc_batches S E sim es rs data together batchSize rounds roster pub sv =
     bindS (index_go (map pub roster) 0, sv) (\<lambda>serverPk sv.
     mapS (\<lambda>round. batch_round S E sim (es round) (rs round) (data round) together batchSize round roster serverPk)
       [0..<rounds] sv)"

definition fc_runMicrobenchmark ::
    "('pt, 'sc, 'rnd) suite \<Rightarrow> ('db, 'pt WriteRequest) store_env \<Rightarrow> 'rnd fc_sim \<Rightarrow> (nat \<Rightarrow> nat \<Rightarrow> 'rnd entropy)
      \<Rightarrow> (nat \<Rightarrow> 'rnd) \<Rightarrow> (nat \<Rightarrow> nat \<Rightarrow> bytes) \<Rightarrow> nat \<Rightarrow> nat \<Rightarrow> 'si list \<Rightarrow> ('si \<Rightarrow> 'pt)
      \<Rightarrow> ('si \<Rightarrow> ('sc, 'db) FService) \<Rightarrow> bytes list list go \<times> ('si \<Rightarrow> ('sc, 'db) FService)" where
  "fc_runMicrobenchmark S E sim es rs data = fc_batches S E sim es rs data True"

definition fc_runDecrypt ::
    "('pt, 'sc, 'rnd) suite \<Rightarrow> ('db, 'pt WriteRequest) store_env \<Rightarrow> 'rnd fc_sim \<Rightarrow> (nat \<Rightarrow> nat \<Rightarrow> 'rnd entropy)
      \<Rightarrow> (nat \<Rightarrow> 'rnd) \<Rightarrow> (nat \<Rightarrow> nat \<Rightarrow> bytes) \<Rightarrow> nat \<Rightarrow> nat \<Rightarrow> 'si list \<Rightarrow> ('si \<Rightarrow> 'pt)
      \<Rightarrow> ('si \<Rightarrow> ('sc, 'db) FService) \<Rightarrow> bytes list list go \<times> ('si \<Rightarrow> ('sc, 'db) FService)" where
  "fc_runDecrypt S E sim es rs data = fc_batches S E sim es rs data False"

text \<open>\<open>Run\<close> calls \<open>runDecrypt\<close> and only logs its error.\<close>

definition fc_Run ::
    "('pt, 'sc, 'rnd) suite \<Rightarrow> ('db, 'pt WriteRequest) store_env \<Rightarrow> 'rnd fc_sim \<Rightarrow> (nat \<Rightarrow> nat \<Rightarrow> 'rnd entropy)
      \<Rightarrow> (nat \<Rightarrow> 'rnd) \<Rightarrow> (nat \<Rightarrow> nat \<Rightarrow> bytes) \<Rightarrow> nat \<Rightarrow> nat \<Rightarrow> 'si list \<Rightarrow> ('si \<Rightarrow> 'pt)
      \<Rightarrow> ('si \<Rightarrow> ('sc, 'db) FService) \<Rightarrow> unit go \<times> ('si \<Rightarrow> ('sc, 'db) FService)" where
  "fc_Run S E sim es rs data batchSize rounds roster pub sv =
     (case fc_runDecrypt S E sim es rs data batchSize rounds roster pub sv of
        (Panic p, sv') \<Rightarrow> (Panic p, sv')
      | (_, sv') \<Rightarrow> (Ok (), sv'))"

section \<open>Single transactions\<close>

definition stored_at :: "('db, 'pt WriteRequest) store_env \<Rightarrow> ('sc, 'db) FService \<Rightarrow> 'pt WriteData \<Rightarrow> bool" where
  "stored_at E s wd \<longleftrightarrow>
     (\<exists>v. bGet E (fs_db s) (fs_bucket s) (DataHash wd) = Some v \<and>
          network_Unmarshal E v = Ok (Some (request_of wd)))"

text \<open>A write that the server can re-encrypt to the reader, and its data.\<close>

definition readable ::
    "('pt, 'sc, 'rnd) suite \<Rightarrow> ('db, 'pt WriteRequest) store_env \<Rightarrow> 'sc \<Rightarrow> 'sc \<Rightarrow> 'pt WriteData \<Rightarrow> bytes \<Rightarrow> bool" where
  "readable S E sk rsk wd d \<longleftrightarrow>
     DataHash wd = hash256 E (Data wd) \<and> Reader wd = Mul S rsk None \<and>
     (\<exists>key. ElGamalDecrypt S sk (K wd) (C wd) = Ok key \<and> AeadOpen S key (Data wd) = Ok d)"

lemma readable_created:
  assumes "group_law S" and "aead_law S" and "hash256 E = Sum256 S" and "entropy_ok e"
    and "CreateWriteData S e d (Mul S rsk None) (Mul S sk None) False = Ok wd"
  shows "readable S E sk rsk wd d"
  using CreateWriteData_OkD [OF assms(5)] CreateWriteData_recover [OF assms(1,2,4,5)] assms(3)
  by (auto simp: readable_def)

lemma write_new:
  assumes "store_law E" and "store_up E" and "DataHash wd = hash256 E (Data wd)"
    and "bGet E (fs_db (sv srv)) (fs_bucket (sv srv)) (DataHash wd) = None"
  shows "\<exists>s'. CreateWriteTxn E (Delivered w) (srv # rest) sv wd =
      (wd\<lparr>StoredKey := EncodeToString (DataHash wd)\<rparr>, Ok (), sv(srv := s')) \<and>
    fs_priv s' = fs_priv (sv srv) \<and> fs_bucket s' = fs_bucket (sv srv) \<and> stored_at E s' wd \<and>
    (\<forall>k. k \<noteq> DataHash wd \<longrightarrow> bGet E (fs_db s') (fs_bucket s') k = bGet E (fs_db (sv srv)) (fs_bucket (sv srv)) k)"
proof -
  obtain db' where st: "StoreWrite E (fs_bucket (sv srv)) (fs_db (sv srv)) (request_of wd) =
       (Ok (EncodeToString (DataHash wd)), db')"
    and tx: "CreateWriteTxn E (Delivered w) (srv # rest) sv wd =
       (wd\<lparr>StoredKey := EncodeToString (DataHash wd)\<rparr>, Ok (), sv(srv := (sv srv)\<lparr>fs_db := db'\<rparr>))"
    using CreateWriteTxn_stores [where sv = sv and srv = srv, OF assms] by metis
  from StoreWrite_OkD [OF assms(1) st] obtain v where "network_Marshal E (request_of wd) = Ok v"
    "bGet E db' = (bGet E (fs_db (sv srv)))(fs_bucket (sv srv) :=
       (bGet E (fs_db (sv srv)) (fs_bucket (sv srv)))(DataHash wd \<mapsto> v))" by auto
  with store_lawD(4) [OF assms(1)] tx show ?thesis
    by (intro exI [of _ "(sv srv)\<lparr>fs_db := db'\<rparr>"]) (simp add: stored_at_def)
qed

lemma write_again:
  assumes "store_law E" and "store_up E" and "DataHash wd = hash256 E (Data wd)"
    and "bGet E (fs_db (sv srv)) (fs_bucket (sv srv)) (DataHash wd) \<noteq> None"
  shows "CreateWriteTxn E (Delivered w) (srv # rest) sv wd =
    (wd\<lparr>StoredKey := []\<rparr>, Err (w (Error ''Key already exists'')), sv)"
proof -
  obtain v where v: "network_Marshal E (request_of wd) = Ok v" using store_upD(4) [OF assms(2)] by blast
  obtain tx where tx: "bBegin E (fs_db (sv srv)) = Ok tx" using store_upD(1) [OF assms(2)] by blast
  with store_lawD(1) [OF assms(1) tx] assms(4)
  have "DB_Update E (put_if_absent E (fs_bucket (sv srv)) (DataHash wd) v) (fs_db (sv srv)) =
      (Err (Error ''Key already exists''), fs_db (sv srv))"
    by (auto simp: DB_Update_def put_if_absent_def)
  with v assms(3) have "StoreWrite E (fs_bucket (sv srv)) (fs_db (sv srv)) (request_of wd) =
      (Err (Error ''Key already exists''), fs_db (sv srv))"
    by (simp add: StoreWrite_def Let_def)
  then show ?thesis
    by (simp add: CreateWriteTxn_def Client_Write_def SendProtobuf_def Write_def Let_def)
qed

lemma read_stored:
  assumes "group_law S" and "sign_law S" and "store_law E" and "store_up E"
    and "stored_at E (sv srv) wd" and "readable S E (fs_priv (sv srv)) rsk wd d"
  shows "\<exists>k c. CreateReadTxn S E r1 r2 (Delivered w) (srv # rest) sv (EncodeToString (DataHash wd)) rsk =
      (Ok (k, c), sv) \<and> RecoverData S (Data wd) rsk k c = Ok d"
proof -
  from assms(6) obtain key where key: "ElGamalDecrypt S (fs_priv (sv srv)) (K wd) (C wd) = Ok key"
    "AeadOpen S key (Data wd) = Ok d" and rd: "Reader wd = Mul S rsk None"
    by (auto simp: readable_def)
  have "GetWrite E (fs_bucket (sv srv)) (fs_db (sv srv)) (EncodeToString (DataHash wd)) = Ok (request_of wd)"
    using assms(5) store_upD(1) [OF assms(4), of "fs_db (sv srv)"]
    by (auto simp: GetWrite_iff [OF assms(3)] stored_at_def)
  from CreateReadTxn_reads [where sv = sv and srv = srv and w = "request_of wd" and rsk = rsk and m = key and
      rest = rest and wrap = w, OF assms(2) this] key(1) rd
  obtain k c rr where re: "fc_reencryptData S r1 r2 rr (request_of wd) (fs_priv (sv srv)) = Ok (k, c)"
    and tx: "CreateReadTxn S E r1 r2 (Delivered w) (srv # rest) sv (EncodeToString (DataHash wd)) rsk = (Ok (k, c), sv)"
    by fastforce
  have "ElGamalDecrypt S rsk k c = Ok key"
    using fc_relay.relay_same_key [OF assms(1) re] rd key(1) by simp
  with tx key(2) show ?thesis by (auto simp: RecoverData_def)
qed

section \<open>A replayed list of transactions\<close>

text \<open>After \<open>n\<close> writes of the list \<open>ws\<close>: they are stored, with their keys set, and the others are not.\<close>

definition replayed ::
    "('db, 'pt WriteRequest) store_env \<Rightarrow> 'pt WriteData list \<Rightarrow> nat \<Rightarrow> ('sc, 'db) FService \<Rightarrow> 'pt WriteData list \<Rightarrow> bool" where
  "replayed E ws n s wds \<longleftrightarrow>
     n \<le> length ws \<and> length wds = length ws \<and>
     (\<forall>j < length ws. wds ! j = (if j < n then (ws ! j)\<lparr>StoredKey := EncodeToString (DataHash (ws ! j))\<rparr> else ws ! j)) \<and>
     (\<forall>j < n. stored_at E s (ws ! j)) \<and>
     (\<forall>j. n \<le> j \<longrightarrow> j < length ws \<longrightarrow> bGet E (fs_db s) (fs_bucket s) (DataHash (ws ! j)) = None)"

lemma replayed_write:
  assumes "replayed E ws n s wds" and "n < length ws" and "distinct (map DataHash ws)"
    and "stored_at E s' (ws ! n)" and "fs_bucket s' = fs_bucket s"
    and "\<And>k. k \<noteq> DataHash (ws ! n) \<Longrightarrow> bGet E (fs_db s') (fs_bucket s') k = bGet E (fs_db s) (fs_bucket s) k"
  shows "replayed E ws (Suc n) s' (wds[n := (ws ! n)\<lparr>StoredKey := EncodeToString (DataHash (ws ! n))\<rparr>])"
proof -
  have ne: "DataHash (ws ! j) \<noteq> DataHash (ws ! n)" if "j < length ws" "j \<noteq> n" for j
    using assms(2,3) that by (simp add: distinct_conv_nth)
  have "stored_at E s' (ws ! j)" if "j < Suc n" for j
    using assms(1,2,4) assms(6) [OF ne, of j] that
    by (cases "j = n") (auto simp: replayed_def stored_at_def)
  moreover have "bGet E (fs_db s') (fs_bucket s') (DataHash (ws ! j)) = None"
    if "Suc n \<le> j" "j < length ws" for j
    using assms(1) assms(6) [OF ne, of j] that by (simp add: replayed_def)
  ultimately show ?thesis
    using assms(1,2) by (auto simp: replayed_def nth_list_update less_Suc_eq)
qed

lemma byzgen_loop_ok:
  assumes laws: "group_law S" "sign_law S" "store_law E" "store_up E"
    and tr: "\<And>i. \<exists>w. transport sim round i = Delivered w"
    and dist: "distinct (map DataHash ws)"
    and rd: "\<And>j. j < length ws \<Longrightarrow> \<exists>d. readable S E sk rSk (ws ! j) d"
    and inv: "replayed E ws writeIdx (sv srv) wds" "fs_priv (sv srv) = sk"
    and idx: "lastWriteIdx < writeIdx \<or> (writeIdx = 0 \<and> lastWriteIdx = 0 \<and>
                (txnIdx < length txnList \<longrightarrow> txnList ! txnIdx = 1))"
    and cnt: "writeIdx + length (filter ((=) 1) (drop txnIdx txnList)) \<le> length ws"
      "readIdx + length (filter ((\<noteq>) 1) (drop txnIdx txnList)) \<le> numRead"
  shows "\<exists>wds' s'. byzgen_loop S E sim round (srv # rest) rSk txnList numRead txnIdx lastWriteIdx writeIdx readIdx
        wds sv = (Ok wds', sv(srv := s')) \<and>
      replayed E ws (writeIdx + length (filter ((=) 1) (drop txnIdx txnList))) s' wds'"
  using inv idx cnt
proof (induction "length txnList - txnIdx" arbitrary: txnIdx lastWriteIdx writeIdx readIdx wds sv)
  case 0
  then show ?case by (subst byzgen_loop.simps) (auto intro!: exI [of _ "sv srv"])
next
  case (Suc m)
  then have lt: "txnIdx < length txnList" and m: "m = length txnList - (txnIdx + 1)" by auto
  then have dr: "drop txnIdx txnList = txnList ! txnIdx # drop (txnIdx + 1) txnList"
    by (simp add: Cons_nth_drop_Suc)
  obtain w where w: "transport sim round txnIdx = Delivered w" using tr by blast
  show ?case
  proof (cases "txnList ! txnIdx = 1")
    case True
    with Suc.prems(4) dr have wi: "writeIdx < length ws" by simp
    with Suc.prems(1) have wd: "wds ! writeIdx = ws ! writeIdx" "writeIdx < length wds"
      and new: "bGet E (fs_db (sv srv)) (fs_bucket (sv srv)) (DataHash (ws ! writeIdx)) = None"
      by (auto simp: replayed_def)
    have dh: "DataHash (ws ! writeIdx) = hash256 E (Data (ws ! writeIdx))"
      using rd [OF wi] by (auto simp: readable_def)
    from write_new [where sv = sv and srv = srv, OF laws(3,4) dh new, of w rest] obtain s' where
      tx: "CreateWriteTxn E (Delivered w) (srv # rest) sv (ws ! writeIdx) =
        ((ws ! writeIdx)\<lparr>StoredKey := EncodeToString (DataHash (ws ! writeIdx))\<rparr>, Ok (), sv(srv := s'))"
      and s': "fs_priv s' = sk" "fs_bucket s' = fs_bucket (sv srv)" "stored_at E s' (ws ! writeIdx)"
        "\<And>k. k \<noteq> DataHash (ws ! writeIdx) \<Longrightarrow>
           bGet E (fs_db s') (fs_bucket s') k = bGet E (fs_db (sv srv)) (fs_bucket (sv srv)) k"
      using Suc.prems(2) by auto
    let ?wds = "wds[writeIdx := (ws ! writeIdx)\<lparr>StoredKey := EncodeToString (DataHash (ws ! writeIdx))\<rparr>]"
    have "replayed E ws (Suc writeIdx) s' ?wds"
      by (rule replayed_write [OF Suc.prems(1) wi dist s'(3,2,4)])
    then have inv': "replayed E ws (writeIdx + 1) ((sv(srv := s')) srv) ?wds" "fs_priv ((sv(srv := s')) srv) = sk"
      using s'(1) by simp_all
    let ?l = "if lastWriteIdx + 1 < writeIdx + 1 then lastWriteIdx + 1 else lastWriteIdx"
    have "\<exists>wds' s''. byzgen_loop S E sim round (srv # rest) rSk txnList numRead (txnIdx + 1) ?l (writeIdx + 1) readIdx
        ?wds (sv(srv := s')) = (Ok wds', (sv(srv := s'))(srv := s'')) \<and>
      replayed E ws (writeIdx + 1 + length (filter ((=) 1) (drop (txnIdx + 1) txnList))) s'' wds'"
      using Suc.prems(3-5) dr True inv' m
      by (intro Suc.hyps(1) [where sv = "sv(srv := s')"]) auto
    then show ?thesis
      using lt True wd tx w dr by (subst byzgen_loop.simps) simp
  next
    case False
    with Suc.prems(3) lt have lw: "lastWriteIdx < writeIdx" by auto
    with Suc.prems(1) have wd: "wds ! lastWriteIdx = (ws ! lastWriteIdx)\<lparr>StoredKey := EncodeToString (DataHash (ws ! lastWriteIdx))\<rparr>"
      "lastWriteIdx < length wds" "stored_at E (sv srv) (ws ! lastWriteIdx)" "lastWriteIdx < length ws"
      by (auto simp: replayed_def)
    from rd [OF wd(4)] obtain d where "readable S E (fs_priv (sv srv)) rSk (ws ! lastWriteIdx) d"
      using Suc.prems(2) by auto
    from read_stored [where sv = sv and srv = srv, OF laws wd(3) this, of "serverDraw1 sim round txnIdx"
        "serverDraw2 sim round txnIdx" w rest] obtain k c where
      tx: "CreateReadTxn S E (serverDraw1 sim round txnIdx) (serverDraw2 sim round txnIdx) (Delivered w) (srv # rest) sv
          (EncodeToString (DataHash (ws ! lastWriteIdx))) rSk = (Ok (k, c), sv)"
        "RecoverData S (Data (ws ! lastWriteIdx)) rSk k c = Ok d" by blast
    let ?l = "if lastWriteIdx + 1 < writeIdx then lastWriteIdx + 1 else lastWriteIdx"
    have "\<exists>wds' s''. byzgen_loop S E sim round (srv # rest) rSk txnList numRead (txnIdx + 1) ?l writeIdx (readIdx + 1)
        wds sv = (Ok wds', sv(srv := s'')) \<and>
      replayed E ws (writeIdx + length (filter ((=) 1) (drop (txnIdx + 1) txnList))) s'' wds'"
      using Suc.prems(4,5) dr False lw m Suc.prems(1,2)
      by (intro Suc.hyps(1) [where sv = sv]) auto
    moreover have "readIdx < numRead" using Suc.prems(5) dr False by simp
    ultimately show ?thesis
      using lt False wd tx w dr by (subst byzgen_loop.simps) simp
  qed
qed

lemma byzgen_loop_again:
  assumes "store_law E" and "store_up E" and "transport sim round 0 = Delivered w"
    and "txnList \<noteq> []" and "txnList ! 0 = 1" and "wds \<noteq> []"
    and "DataHash (wds ! 0) = hash256 E (Data (wds ! 0))" and "stored_at E (sv srv) (wds ! 0)"
  shows "byzgen_loop S E sim round (srv # rest) rSk txnList numRead 0 0 0 0 wds sv =
    (Err (w (Error ''Key already exists'')), sv)"
  using assms(3-6) write_again [where sv = sv and srv = srv, OF assms(1,2,7), of w rest] assms(8)
  by (subst byzgen_loop.simps) (auto simp: stored_at_def)

section \<open>A batch\<close>

text \<open>A server that may differ from another one in the entries of some writes only.\<close>

definition same_elsewhere ::
    "('db, 'pt WriteRequest) store_env \<Rightarrow> 'pt WriteData set \<Rightarrow> ('sc, 'db) FService \<Rightarrow> ('sc, 'db) FService \<Rightarrow> bool" where
  "same_elsewhere E W s s' \<longleftrightarrow> fs_priv s' = fs_priv s \<and> fs_bucket s' = fs_bucket s \<and>
     (\<forall>x. x \<notin> DataHash ` W \<longrightarrow> bGet E (fs_db s') (fs_bucket s') x = bGet E (fs_db s) (fs_bucket s) x)"

lemma same_elsewhere_refl: "same_elsewhere E W s s"
  by (simp add: same_elsewhere_def)

lemma same_elsewhereD:
  "same_elsewhere E W s s' \<Longrightarrow> x \<notin> DataHash ` W \<Longrightarrow>
     bGet E (fs_db s') (fs_bucket s') x = bGet E (fs_db s) (fs_bucket s) x"
  unfolding same_elsewhere_def by blast

lemma same_elsewhere_trans:
  "same_elsewhere E V s s' \<Longrightarrow> same_elsewhere E W s' s'' \<Longrightarrow> same_elsewhere E (V \<union> W) s s''"
  by (auto simp: same_elsewhere_def image_Un)

lemma batch_writes:
  assumes laws: "store_law E" "store_up E"
    and tr: "\<And>i. \<exists>w. transport sim round i = Delivered w"
    and dist: "distinct (map DataHash ws)"
    and dh: "\<And>j. j < length ws \<Longrightarrow> DataHash (ws ! j) = hash256 E (Data (ws ! j))"
    and inv: "replayed E ws k (sv srv) wds" "k \<le> length ws"
  shows "\<exists>s' wds'. mapS (batch_write E sim round (srv # rest) ws) [k..<length ws] sv =
      (Ok (map (\<lambda>i. (ws ! i)\<lparr>StoredKey := EncodeToString (DataHash (ws ! i))\<rparr>) [k..<length ws]), sv(srv := s')) \<and>
    same_elsewhere E (set (drop k ws)) (sv srv) s' \<and> replayed E ws (length ws) s' wds'"
  using inv
proof (induction "length ws - k" arbitrary: k sv wds)
  case 0
  then show ?case by (auto intro!: exI [of _ "sv srv"] same_elsewhere_refl)
next
  case (Suc m)
  then have k: "k < length ws" "[k..<length ws] = k # [Suc k..<length ws]" by (simp_all add: upt_conv_Cons)
  obtain w where w: "transport sim round k = Delivered w" using tr by blast
  have new: "bGet E (fs_db (sv srv)) (fs_bucket (sv srv)) (DataHash (ws ! k)) = None"
    using Suc.prems(1) k(1) by (simp add: replayed_def)
  from write_new [where sv = sv and srv = srv, OF laws dh [OF k(1)] new, of w rest] obtain s1 where
    tx: "CreateWriteTxn E (Delivered w) (srv # rest) sv (ws ! k) =
      ((ws ! k)\<lparr>StoredKey := EncodeToString (DataHash (ws ! k))\<rparr>, Ok (), sv(srv := s1))"
    and s1: "fs_priv s1 = fs_priv (sv srv)" "fs_bucket s1 = fs_bucket (sv srv)" "stored_at E s1 (ws ! k)"
      "\<And>x. x \<noteq> DataHash (ws ! k) \<Longrightarrow>
         bGet E (fs_db s1) (fs_bucket s1) x = bGet E (fs_db (sv srv)) (fs_bucket (sv srv)) x"
    by blast
  have "replayed E ws (Suc k) ((sv(srv := s1)) srv)
      (wds[k := (ws ! k)\<lparr>StoredKey := EncodeToString (DataHash (ws ! k))\<rparr>])"
    using replayed_write [OF Suc.prems(1) k(1) dist s1(3,2,4)] by simp
  moreover have "m = length ws - Suc k" "Suc k \<le> length ws" using Suc.hyps(2) k(1) by simp_all
  ultimately obtain s' wds' where
    "mapS (batch_write E sim round (srv # rest) ws) [Suc k..<length ws] (sv(srv := s1)) =
      (Ok (map (\<lambda>i. (ws ! i)\<lparr>StoredKey := EncodeToString (DataHash (ws ! i))\<rparr>) [Suc k..<length ws]),
       (sv(srv := s1))(srv := s'))"
    "same_elsewhere E (set (drop (Suc k) ws)) ((sv(srv := s1)) srv) s'" "replayed E ws (length ws) s' wds'"
    using Suc.hyps(1) [where sv = "sv(srv := s1)" and k = "Suc k"] by blast
  moreover have "same_elsewhere E {ws ! k} (sv srv) s1" using s1 by (simp add: same_elsewhere_def)
  then have "same_elsewhere E ({ws ! k} \<union> set (drop (Suc k) ws)) (sv srv) s'"
    using \<open>same_elsewhere E (set (drop (Suc k) ws)) ((sv(srv := s1)) srv) s'\<close>
    by (intro same_elsewhere_trans) simp_all
  then have "same_elsewhere E (set (drop k ws)) (sv srv) s'"
    using Cons_nth_drop_Suc [OF k(1), symmetric] by simp
  ultimately show ?case using tx w unfolding k(2)
    by (intro exI [of _ s'] exI [of _ wds']) (simp add: batch_write_def [of _ _ _ _ _ k])
qed

lemma batch_round_ok:
  assumes laws: "group_law S" "aead_law S" "sign_law S" "store_law E" "store_up E"
    and hash: "hash256 E = Sum256 S" and ent: "\<And>i. entropy_ok (es i)"
    and tr: "\<And>i. \<exists>w. transport sim round i = Delivered w"
    and ws: "mapG (\<lambda>i. CreateWriteData S (es i) (data i) (Mul S (Pick S rs) None)
               (Mul S (fs_priv (sv srv)) None) False) [0..<n] = Ok ws"
    and fresh: "distinct (map DataHash ws)"
      "\<And>wd. wd \<in> set ws \<Longrightarrow> bGet E (fs_db (sv srv)) (fs_bucket (sv srv)) (DataHash wd) = None"
  shows "\<exists>s'. batch_round S E sim es rs data together n round (srv # rest) (Mul S (fs_priv (sv srv)) None) sv =
      (Ok (map data [0..<n]), sv(srv := s')) \<and> same_elsewhere E (set ws) (sv srv) s'"
proof -
  let ?rsk = "Pick S rs"
  from ws have len: "length ws = n" and cr: "\<And>i. i < n \<Longrightarrow> CreateWriteData S (es i) (data i)
      (Mul S ?rsk None) (Mul S (fs_priv (sv srv)) None) False = Ok (ws ! i)"
    by (auto simp: mapG_Ok_iff list_all2_conv_all_nth)
  have rd: "readable S E (fs_priv (sv srv)) ?rsk (ws ! i) (data i)" if "i < n" for i
    by (rule readable_created [OF laws(1,2) hash ent cr [OF that]])
  have "replayed E ws 0 (sv srv) ws" using fresh(2) by (simp add: replayed_def)
  from batch_writes [where sv = sv and srv = srv, OF laws(4,5) tr fresh(1) _ this, of rest] rd len
  obtain s' wds' where
    wr: "mapS (batch_write E sim round (srv # rest) ws) [0..<n] sv =
      (Ok (map (\<lambda>i. (ws ! i)\<lparr>StoredKey := EncodeToString (DataHash (ws ! i))\<rparr>) [0..<n]), sv(srv := s'))"
    and s': "same_elsewhere E (set ws) (sv srv) s'" "replayed E ws n s' wds'"
    by (auto simp: readable_def)
  let ?sv = "sv(srv := s')" and ?wds = "map (\<lambda>i. (ws ! i)\<lparr>StoredKey := EncodeToString (DataHash (ws ! i))\<rparr>) [0..<n]"
  have "\<forall>i. \<exists>kc. i < n \<longrightarrow> CreateReadTxn S E (serverDraw1 sim round i) (serverDraw2 sim round i)
      (transport sim round (n + i)) (srv # rest) ?sv (StoredKey (?wds ! i)) ?rsk = (Ok kc, ?sv) \<and>
      RecoverData S (Data (?wds ! i)) ?rsk (fst kc) (snd kc) = Ok (data i)"
  proof (intro allI)
    fix i
    obtain w where "transport sim round (n + i) = Delivered w" using tr by blast
    moreover have "i < n \<Longrightarrow> stored_at E (?sv srv) (ws ! i)" using s'(2) len by (simp add: replayed_def)
    moreover have "i < n \<Longrightarrow> readable S E (fs_priv (?sv srv)) ?rsk (ws ! i) (data i)" using rd s'(1)
      by (simp add: same_elsewhere_def)
    ultimately show "\<exists>kc. i < n \<longrightarrow> CreateReadTxn S E (serverDraw1 sim round i) (serverDraw2 sim round i)
        (transport sim round (n + i)) (srv # rest) ?sv (StoredKey (?wds ! i)) ?rsk = (Ok kc, ?sv) \<and>
        RecoverData S (Data (?wds ! i)) ?rsk (fst kc) (snd kc) = Ok (data i)"
      using read_stored [where sv = ?sv and srv = srv and wd = "ws ! i" and rsk = ?rsk and d = "data i",
          OF laws(1,3-5), of "serverDraw1 sim round i" "serverDraw2 sim round i" w rest]
      by fastforce
  qed
  from choice [OF this] obtain kc where
    kc: "\<forall>i. i < n \<longrightarrow> CreateReadTxn S E (serverDraw1 sim round i) (serverDraw2 sim round i)
      (transport sim round (n + i)) (srv # rest) ?sv (StoredKey (?wds ! i)) ?rsk = (Ok (kc i), ?sv) \<and>
      RecoverData S (Data (?wds ! i)) ?rsk (fst (kc i)) (snd (kc i)) = Ok (data i)" by (rule exE)
  show ?thesis
  proof (cases together)
    case True
    have "mapS (\<lambda>i sv. bindS (CreateReadTxn S E (serverDraw1 sim round i) (serverDraw2 sim round i)
          (transport sim round (n + i)) (srv # rest) sv (StoredKey (?wds ! i)) ?rsk) (\<lambda>(k, c) sv.
        (RecoverData S (Data (?wds ! i)) ?rsk k c, sv))) [0..<n] ?sv = (Ok (map data [0..<n]), ?sv)"
      using kc by (intro mapS_stable) (auto simp: split_def)
    with True ws wr s'(1) show ?thesis by (auto simp: batch_round_def Let_def)
  next
    case False
    have rds: "mapS (\<lambda>i sv. CreateReadTxn S E (serverDraw1 sim round i) (serverDraw2 sim round i)
        (transport sim round (n + i)) (srv # rest) sv (StoredKey (?wds ! i)) ?rsk) [0..<n] ?sv =
        (Ok (map kc [0..<n]), ?sv)"
      using kc by (intro mapS_stable) auto
    have "mapG (\<lambda>i. RecoverData S (Data (?wds ! i)) ?rsk (fst (map kc [0..<n] ! i)) (snd (map kc [0..<n] ! i)))
        [0..<n] = Ok (map data [0..<n])"
      using kc by (intro mapG_map) simp
    with False ws wr rds s'(1) show ?thesis by (auto simp: batch_round_def Let_def)
  qed
qed

lemma batches_ok:
  assumes laws: "group_law S" "aead_law S" "sign_law S" "store_law E" "store_up E"
    and hash: "hash256 E = Sum256 S" and ent: "\<And>r i. entropy_ok (es r i)"
    and tr: "\<And>r i. \<exists>w. transport sim r i = Delivered w"
    and ws: "\<And>r. r \<in> set rs_list \<Longrightarrow> mapG (\<lambda>i. CreateWriteData S (es r i) (data r i) (Mul S (Pick S (rs r)) None)
               (Mul S sk None) False) [0..<n] = Ok (ws r)"
    and priv: "fs_priv (sv srv) = sk"
    and fresh: "distinct (concat (map (map DataHash \<circ> ws) rs_list))"
      "\<And>r wd. r \<in> set rs_list \<Longrightarrow> wd \<in> set (ws r) \<Longrightarrow>
         bGet E (fs_db (sv srv)) (fs_bucket (sv srv)) (DataHash wd) = None"
  shows "fst (mapS (\<lambda>r. batch_round S E sim (es r) (rs r) (data r) together n r (srv # rest) (Mul S sk None)) rs_list sv) =
    Ok (map (\<lambda>r. map (data r) [0..<n]) rs_list)"
  using ws priv fresh
proof (induction rs_list arbitrary: sv)
  case (Cons r xs)
  have "\<exists>s'. batch_round S E sim (es r) (rs r) (data r) together n r (srv # rest) (Mul S (fs_priv (sv srv)) None) sv =
      (Ok (map (data r) [0..<n]), sv(srv := s')) \<and> same_elsewhere E (set (ws r)) (sv srv) s'"
    using Cons.prems by (intro batch_round_ok [OF laws hash ent tr]) auto
  then obtain s' where b: "batch_round S E sim (es r) (rs r) (data r) together n r (srv # rest) (Mul S sk None) sv =
      (Ok (map (data r) [0..<n]), sv(srv := s'))" and s': "same_elsewhere E (set (ws r)) (sv srv) s'"
    using Cons.prems(2) by auto
  have "fst (mapS (\<lambda>r. batch_round S E sim (es r) (rs r) (data r) together n r (srv # rest) (Mul S sk None)) xs (sv(srv := s'))) =
      Ok (map (\<lambda>r. map (data r) [0..<n]) xs)"
  proof (rule Cons.IH)
    fix q wd assume q: "q \<in> set xs" "wd \<in> set (ws q)"
    with Cons.prems(3) have "DataHash wd \<notin> DataHash ` set (ws r)" by auto
    from same_elsewhereD [OF s' this] Cons.prems(4) [of q wd] q show
      "bGet E (fs_db ((sv(srv := s')) srv)) (fs_bucket ((sv(srv := s')) srv)) (DataHash wd) = None" by simp
  qed (use Cons.prems s' in \<open>auto simp: same_elsewhere_def\<close>)
  with b show ?case by (auto simp: bindS_def split: prod.splits go.splits)
qed simp

section \<open>A concrete write for the witnesses\<close>

definition example_write :: "bytes \<Rightarrow> int WriteData" where
  "example_write d = \<lparr>Data = d @ replicate 16 5 @ replicate 12 9 @ replicate 12 9,
     DataHash = 1 # d @ replicate 16 5 @ replicate 12 9 @ replicate 12 9,
     K = 11, C = 77 + bytes_num (replicate 16 5), Reader = 3, EncReader = [], StoredKey = []\<rparr>"

lemma example_write_created:
  "CreateWriteData example_suite example_entropy d 3 7 False = Ok (example_write d)"
  by (simp add: CreateWriteData_def symEncrypt_def aeadSeal_def aes_NewCipher_def cipher_NewGCM_def
      ElGamalEncrypt_def example_suite_def example_write_def Let_def)

lemma example_write_hash: "DataHash (example_write d) = DataHash (example_write d') \<longleftrightarrow> d = d'"
  by (simp add: example_write_def)

lemma example_suite_pub: "Mul example_suite x None = x" and example_suite_pick: "Pick example_suite r = r"
  by (simp_all add: example_suite_def)

definition example_fc_sim :: "int fc_sim" where
  "example_fc_sim = \<lparr>serverDraw1 = (\<lambda>_ _. 2), serverDraw2 = (\<lambda>_ _. 4), transport = (\<lambda>_ _. Delivered id)\<rparr>"

section \<open>Properties\<close>

text \<open>The batches of the simulation recover their data: with a fresh hash for each write, both the
  microbenchmark and the decryption benchmark run all their rounds without an error, and what they
  recover is, round by round, the data that was written.\<close>

lemma fully_batches_recover:
  assumes laws: "group_law S" "aead_law S" "sign_law S" "store_law E" "store_up E"
    and "hash256 E = Sum256 S" and "\<And>r i. entropy_ok (es r i)"
    and "\<And>r i. \<exists>w. transport sim r i = Delivered w"
    and "pub srv = Mul S (fs_priv (sv srv)) None"
    and "\<And>r. r < rounds \<Longrightarrow> mapG (\<lambda>i. CreateWriteData S (es r i) (data r i) (Mul S (Pick S (rs r)) None)
               (pub srv) False) [0..<n] = Ok (ws r)"
    and "distinct (concat (map (map DataHash \<circ> ws) [0..<rounds]))"
    and "\<And>r wd. r < rounds \<Longrightarrow> wd \<in> set (ws r) \<Longrightarrow>
         bGet E (fs_db (sv srv)) (fs_bucket (sv srv)) (DataHash wd) = None"
  shows "fst (fc_runDecrypt S E sim es rs data n rounds (srv # rest) pub sv) =
      Ok (map (\<lambda>r. map (data r) [0..<n]) [0..<rounds]) \<and>
    fst (fc_runMicrobenchmark S E sim es rs data n rounds (srv # rest) pub sv) =
      Ok (map (\<lambda>r. map (data r) [0..<n]) [0..<rounds])"
proof -
  have "fst (mapS (\<lambda>r. batch_round S E sim (es r) (rs r) (data r) together n r (srv # rest) (Mul S (fs_priv (sv srv)) None))
      [0..<rounds] sv) = Ok (map (\<lambda>r. map (data r) [0..<n]) [0..<rounds])" for together
    using assms by (intro batches_ok [OF laws, where ws = ws]) auto
  then show ?thesis
    by (simp add: fc_runDecrypt_def fc_runMicrobenchmark_def fc_batches_def assms(9))
qed

text \<open>C30. Replaying a list of transactions works in one round only: when the list starts with a write
  and the two counts of the configuration cover it, the first round ends without an error, and
  with more rounds the simulation ends with \<open>Key already exists\<close>, because the write data is made
  once, before the rounds, and the server refuses a hash it has.\<close>

theorem fully_byzgen_one_round:
  assumes laws: "group_law S" "aead_law S" "sign_law S" "store_law E" "store_up E"
    and hash: "hash256 E = Sum256 S" and ent: "\<And>i. entropy_ok (es i)"
    and tr: "\<And>r i. \<exists>w. transport sim r i = Delivered w" "transport sim 1 0 = Delivered w"
    and txns: "readAuxFile file m = Ok txnList" "txnList \<noteq> []" "txnList ! 0 = 1"
    and pub: "pub srv = Mul S (fs_priv (sv srv)) None"
    and ws: "mapG (\<lambda>i. CreateWriteData S (es i) (byzgen_data DATA_SIZE i) (Mul S (Pick S rs) None) (pub srv) False)
               [0..<numWrite] = Ok ws"
    and fresh: "distinct (map DataHash ws)"
      "\<And>wd. wd \<in> set ws \<Longrightarrow> bGet E (fs_db (sv srv)) (fs_bucket (sv srv)) (DataHash wd) = None"
    and cnt: "length (filter ((=) 1) txnList) \<le> numWrite" "length (filter ((\<noteq>) 1) txnList) \<le> numRead"
  shows "fst (runCentralizedByzgen S E sim es rs DATA_SIZE file m numWrite numRead rounds (srv # rest) pub sv) =
    (if rounds \<le> 1 then Ok () else Err (w (Error ''Key already exists'')))"
proof -
  let ?rsk = "Pick S rs"
  from ws have len: "length ws = numWrite" and cr: "\<And>i. i < numWrite \<Longrightarrow> CreateWriteData S (es i)
      (byzgen_data DATA_SIZE i) (Mul S ?rsk None) (Mul S (fs_priv (sv srv)) None) False = Ok (ws ! i)"
    by (auto simp: mapG_Ok_iff list_all2_conv_all_nth pub)
  have rd: "\<exists>d. readable S E (fs_priv (sv srv)) ?rsk (ws ! i) d" if "i < length ws" for i
    using readable_created [OF laws(1,2) hash ent cr] that len by blast
  have "replayed E ws 0 (sv srv) ws" using fresh(2) by (simp add: replayed_def)
  from byzgen_loop_ok [where sv = sv and srv = srv and round = 0 and txnIdx = 0 and readIdx = 0 and txnList = txnList
        and lastWriteIdx = 0 and numRead = numRead,
      OF laws(1,3-5) tr(1) fresh(1) rd this refl, where rest = rest] txns(3) cnt len
  obtain wds s' where lp: "byzgen_loop S E sim 0 (srv # rest) ?rsk txnList numRead 0 0 0 0 ws sv = (Ok wds, sv(srv := s'))"
    and rp: "replayed E ws (length (filter ((=) 1) txnList)) s' wds" by auto
  have "0 < length (filter ((=) 1) txnList)" using txns(2,3) by (cases txnList) auto
  with rp have wd: "wds ! 0 = (ws ! 0)\<lparr>StoredKey := EncodeToString (DataHash (ws ! 0))\<rparr>" "wds \<noteq> []"
    "stored_at E s' (ws ! 0)" "0 < length ws"
    unfolding replayed_def by (force simp del: length_greater_0_conv)+
  have "byzgen_loop S E sim 1 (srv # rest) ?rsk txnList numRead 0 0 0 0 wds (sv(srv := s')) =
      (Err (w (Error ''Key already exists'')), sv(srv := s'))"
    using wd rd [OF wd(4)] by (intro byzgen_loop_again laws txns tr(2)) (auto simp: stored_at_def readable_def)
  with lp ws pub txns(1) show ?thesis
    by (cases rounds; cases "rounds - 1") (auto simp: runCentralizedByzgen_def Let_def)
qed

theorem fully_byzgen_one_round_witness:
  "fst (runCentralizedByzgen example_suite fc_env example_fc_sim (\<lambda>_. example_entropy) 3 1
      (Ok [''1'', ''0'', ''1'']) 3 2 1 1 [()] (\<lambda>_. 7) (\<lambda>_. fc_server)) = Ok () \<and>
   fst (runCentralizedByzgen example_suite fc_env example_fc_sim (\<lambda>_. example_entropy) 3 1
      (Ok [''1'', ''0'', ''1'']) 3 2 1 2 [()] (\<lambda>_. 7) (\<lambda>_. fc_server)) =
     Err (Error ''Key already exists'')"
proof -
  have "readAuxFile (Ok [''1'', ''0'', ''1'']) 3 = Ok [1, 0, 1]"
    by (simp add: readAuxFile_def numeral_3_eq_3 scan_line_def Atoi_def max_int_def max_uint_def min_int_def)
  moreover have "[0..<2] = [0, 1 :: nat]" by (simp add: upt_rec)
  ultimately have "fst (runCentralizedByzgen example_suite fc_env example_fc_sim (\<lambda>_. example_entropy) 3 1
      (Ok [''1'', ''0'', ''1'']) 3 2 1 rounds [()] (\<lambda>_. 7) (\<lambda>_. fc_server)) =
      (if rounds \<le> 1 then Ok () else Err (id (Error ''Key already exists'')))" for rounds
    by (intro fully_byzgen_one_round [where txnList = "[1, 0, 1]" and ws = "[example_write [0], example_write [1]]"])
      (auto simp: example_suite_pub example_suite_pick example_write_created example_write_hash example_fc_sim_def
        byzgen_data_def)
  from this [of 1] this [of 2] show ?thesis by simp
qed

end
