(* ===== verification/Byzcoin_Api.thy ===== *)
theory Byzcoin_Api
  imports Go_Prelude
begin

text \<open>
  The part of ByzCoin the sources use: the data of a transaction, and the client calls on a
  ledger. ByzCoin is not under \<open>src/\<close>, so its operations are fields of the record \<open>ledger\<close>
  (over a ledger state \<open>'led\<close> and a proof type \<open>'proof\<close>), an argument of every definition that
  calls them.
\<close>

section \<open>Transactions\<close>

record Argument =
  arg_Name :: string
  arg_Value :: bytes

record Spawn =
  sp_ContractID :: string
  sp_Args :: "Argument list"

record Invoke =
  iv_Command :: string
  iv_Args :: "Argument list"

text \<open>An instruction has one of \<open>Spawn\<close>, \<open>Invoke\<close> and \<open>Delete\<close>; \<open>None\<close> and \<open>False\<close> are nil.\<close>

record Instruction =
  in_InstanceID :: bytes
  in_Nonce :: bytes
  in_Index :: int
  in_Length :: int
  in_Spawn :: "Spawn option"
  in_Invoke :: "Invoke option"
  in_Delete :: bool
  in_Signatures :: "bytes list"

definition spawn_instruction :: "bytes \<Rightarrow> bytes \<Rightarrow> string \<Rightarrow> string \<Rightarrow> bytes \<Rightarrow> Instruction" where
  "spawn_instruction instanceID nonce contractID name val =
     \<lparr>in_InstanceID = instanceID, in_Nonce = nonce, in_Index = 0, in_Length = 1,
      in_Spawn = Some \<lparr>sp_ContractID = contractID,
                       sp_Args = [\<lparr>arg_Name = name, arg_Value = val\<rparr>]\<rparr>,
      in_Invoke = None, in_Delete = False, in_Signatures = []\<rparr>"

text \<open>The zero value \<open>byzcoin.Nonce{}\<close>.\<close>

definition zero_nonce :: bytes where
  "zero_nonce = replicate 32 0"

section \<open>The ledger\<close>

record ('led, 'proof, 'signer, 'scid) ledger =
  SignBy :: "bytes \<Rightarrow> 'signer \<Rightarrow> Instruction \<Rightarrow> Instruction go" \<comment> \<open>darc ID, signer\<close>
  SignInstruction :: "bytes \<Rightarrow> 'signer \<Rightarrow> Instruction \<Rightarrow> Instruction go"
  DeriveID :: "Instruction \<Rightarrow> string \<Rightarrow> bytes"
  NewInstanceID :: "bytes \<Rightarrow> bytes"
  AddTransaction :: "Instruction list \<Rightarrow> 'led \<Rightarrow> unit go \<times> 'led"
  AddTransactionAndWait :: "Instruction list \<Rightarrow> int \<Rightarrow> 'led \<Rightarrow> unit go \<times> 'led"
  GetProof :: "bytes \<Rightarrow> 'led \<Rightarrow> 'proof go"
  LedgerID :: "'led \<Rightarrow> 'scid"
  Match :: "'proof \<Rightarrow> bool" \<comment> \<open>\<open>Proof.InclusionProof.Match()\<close>\<close>
  InclusionKey :: "'proof \<Rightarrow> bytes" \<comment> \<open>\<open>Proof.InclusionProof.Key\<close>\<close>
  ContractValue :: "'proof \<Rightarrow> string \<Rightarrow> bytes go" \<comment> \<open>the instance's value, if it has that contract\<close>
  Proof_Verify :: "'proof \<Rightarrow> 'scid \<Rightarrow> unit go"

text \<open>
  What the clients rely on. A transaction that was added and waited for is in the ledger: its
  instance has a matching proof that verifies against the ledger's ID, is under the derived
  instance ID, and holds the argument the contract was spawned with. Adding a transaction
  does not change the ledger's ID, and signing does not change what is spawned.
\<close>

definition ledger_law :: "('led, 'proof, 'signer, 'scid) ledger \<Rightarrow> bool" where
  "ledger_law L \<longleftrightarrow>
     (\<forall>ins w led led' cid name val.
        0 < w \<longrightarrow> AddTransactionAndWait L [ins] w led = (Ok (), led') \<longrightarrow>
        in_Spawn ins = Some \<lparr>sp_ContractID = cid, sp_Args = [\<lparr>arg_Name = name, arg_Value = val\<rparr>]\<rparr> \<longrightarrow>
        (\<exists>p. GetProof L (DeriveID L ins []) led' = Ok p \<and> Match L p \<and>
             InclusionKey L p = DeriveID L ins [] \<and> ContractValue L p cid = Ok val \<and>
             Proof_Verify L p (LedgerID L led') = Ok ())) \<and>
     (\<forall>inss w led. LedgerID L (snd (AddTransactionAndWait L inss w led)) = LedgerID L led) \<and>
     (\<forall>d sg ins ins'. SignBy L d sg ins = Ok ins' \<longrightarrow> in_Spawn ins' = in_Spawn ins)"

text \<open>No call to the ledger fails.\<close>

definition ledger_up :: "('led, 'proof, 'signer, 'scid) ledger \<Rightarrow> bool" where
  "ledger_up L \<longleftrightarrow>
     (\<forall>d sg ins. is_ok (SignBy L d sg ins)) \<and>
     (\<forall>d sg ins. is_ok (SignInstruction L d sg ins)) \<and>
     (\<forall>inss led. is_ok (fst (AddTransaction L inss led))) \<and>
     (\<forall>inss w led. is_ok (fst (AddTransactionAndWait L inss w led)))"

lemma in_Spawn_spawn_instruction [simp]:
  "in_Spawn (spawn_instruction i n cid name val) =
     Some \<lparr>sp_ContractID = cid, sp_Args = [\<lparr>arg_Name = name, arg_Value = val\<rparr>]\<rparr>"
  by (simp add: spawn_instruction_def)

lemma ledger_law_proof:
  assumes "ledger_law L" and "0 < w" and "SignBy L d sg (spawn_instruction i n cid name val) = Ok ins"
    and "AddTransactionAndWait L [ins] w led = (Ok (), led')"
  shows "\<exists>p. GetProof L (DeriveID L ins []) led' = Ok p \<and> Match L p \<and>
             InclusionKey L p = DeriveID L ins [] \<and> ContractValue L p cid = Ok val \<and>
             Proof_Verify L p (LedgerID L led') = Ok ()"
proof -
  from assms(1,3) have "in_Spawn ins =
      Some \<lparr>sp_ContractID = cid, sp_Args = [\<lparr>arg_Name = name, arg_Value = val\<rparr>]\<rparr>"
    by (metis ledger_law_def in_Spawn_spawn_instruction)
  with assms(1,2,4) show ?thesis unfolding ledger_law_def by blast
qed

lemma ledger_law_ID:
  assumes "ledger_law L" and "AddTransactionAndWait L inss w led = (r, led')"
  shows "LedgerID L led' = LedgerID L led"
  using assms by (metis ledger_law_def snd_conv)

lemma spawn_and_prove:
  assumes "ledger_law L" and "ledger_up L" and "0 < w"
  shows "\<exists>ins led' p. SignBy L d sg (spawn_instruction i n cid name val) = Ok ins \<and>
    AddTransactionAndWait L [ins] w led = (Ok (), led') \<and> LedgerID L led' = LedgerID L led \<and>
    GetProof L (DeriveID L ins []) led' = Ok p \<and> Match L p \<and> ContractValue L p cid = Ok val \<and>
    Proof_Verify L p (LedgerID L led) = Ok ()"
proof -
  from assms(2) obtain ins where ins: "SignBy L d sg (spawn_instruction i n cid name val) = Ok ins"
    by (meson ledger_up_def is_ok_iff)
  from assms(2) obtain led' where add: "AddTransactionAndWait L [ins] w led = (Ok (), led')"
    by (metis (full_types) ledger_up_def is_ok_iff old.unit.exhaust prod.collapse)
  note led' = ledger_law_ID [OF assms(1) add]
  from ledger_law_proof [OF assms(1,3) ins add] obtain p where
    "GetProof L (DeriveID L ins []) led' = Ok p" "Match L p" "ContractValue L p cid = Ok val"
    "Proof_Verify L p (LedgerID L led) = Ok ()"
    unfolding led' by blast
  with ins add led' show ?thesis by blast
qed

section \<open>Transactions in a row\<close>

text \<open>The loops with \<open>wait := 0; if i == n-1 { wait = w }\<close>.\<close>

definition row_wait :: "nat \<Rightarrow> int \<Rightarrow> nat \<Rightarrow> int" where
  "row_wait n w i = (if i = n - 1 then w else 0)"

text \<open>The way the loops of the lotteries add transactions: only the last one is waited for.\<close>

definition add_transaction ::
    "('led, 'proof, 'signer, 'scid) ledger \<Rightarrow> Instruction \<Rightarrow> int \<Rightarrow> 'led \<Rightarrow> unit go \<times> 'led" where
  "add_transaction L ins wait led =
     (if wait = 0 then AddTransaction L [ins] led else AddTransactionAndWait L [ins] wait led)"

fun add_in_row ::
    "('led, 'proof, 'signer, 'scid) ledger \<Rightarrow> Instruction list \<Rightarrow> int \<Rightarrow> 'led \<Rightarrow> unit go \<times> 'led" where
  "add_in_row L [] wait led = (Ok (), led)"
| "add_in_row L (ins # inss) wait led =
     bindS (add_transaction L ins (if inss = [] then wait else 0) led) (\<lambda>_. add_in_row L inss wait)"

text \<open>
  What these loops rely on. When the wait for the last transaction of a row returns, all of the
  row is in the ledger, each under its own ID. Signing keeps what is spawned and the nonce, and
  the IDs of instructions with different nonces differ (they are hashes).
\<close>

definition batch_law :: "('led, 'proof, 'signer, 'scid) ledger \<Rightarrow> bool" where
  "batch_law L \<longleftrightarrow>
     (\<forall>inss w led led' ins cid name val.
        0 < w \<longrightarrow> distinct (map (\<lambda>i. DeriveID L i []) inss) \<longrightarrow>
        add_in_row L inss w led = (Ok (), led') \<longrightarrow> ins \<in> set inss \<longrightarrow>
        in_Spawn ins = Some \<lparr>sp_ContractID = cid, sp_Args = [\<lparr>arg_Name = name, arg_Value = val\<rparr>]\<rparr> \<longrightarrow>
        (\<exists>p. GetProof L (DeriveID L ins []) led' = Ok p \<and> Match L p \<and> ContractValue L p cid = Ok val)) \<and>
     (\<forall>d sg ins ins'. SignInstruction L d sg ins = Ok ins' \<longrightarrow>
        in_Spawn ins' = in_Spawn ins \<and> in_Nonce ins' = in_Nonce ins) \<and>
     (\<forall>ins ins'. DeriveID L ins [] = DeriveID L ins' [] \<longrightarrow> in_Nonce ins = in_Nonce ins')"

definition matching_proof ::
    "('led, 'proof, 'signer, 'scid) ledger \<Rightarrow> string \<Rightarrow> bytes \<Rightarrow> 'led \<Rightarrow> 'proof go" where
  "matching_proof L msg iid led =
     bindG (GetProof L iid led) (\<lambda>p. if \<not> Match L p then Err (Error msg) else Ok p)"

lemma batch_law_proof:
  assumes "batch_law L" and "0 < w" and "distinct (map (\<lambda>i. DeriveID L i []) inss)"
    and "add_in_row L inss w led = (Ok (), led')" and "ins \<in> set inss"
    and "in_Spawn ins = Some \<lparr>sp_ContractID = cid, sp_Args = [\<lparr>arg_Name = name, arg_Value = val\<rparr>]\<rparr>"
  shows "\<exists>p. matching_proof L msg (DeriveID L ins []) led' = Ok p \<and> ContractValue L p cid = Ok val"
proof -
  from assms obtain p where "GetProof L (DeriveID L ins []) led' = Ok p" "Match L p"
    "ContractValue L p cid = Ok val"
    unfolding batch_law_def by blast
  then show ?thesis by (simp add: matching_proof_def)
qed

lemma batch_law_sign:
  assumes "batch_law L" and "SignInstruction L d sg ins = Ok ins'"
  shows "in_Spawn ins' = in_Spawn ins" "in_Nonce ins' = in_Nonce ins"
  using assms unfolding batch_law_def by blast+

lemma batch_law_distinct:
  assumes "batch_law L" and "distinct (map in_Nonce inss)"
  shows "distinct (map (\<lambda>i. DeriveID L i []) inss)"
  using assms unfolding batch_law_def distinct_map inj_on_def by blast

lemma ledger_up_sign: "ledger_up L \<Longrightarrow> \<exists>ins'. SignInstruction L d sg ins = Ok ins'"
  unfolding ledger_up_def by (meson is_ok_iff)

lemma ledger_up_add: "ledger_up L \<Longrightarrow> \<exists>led'. add_transaction L ins w led = (Ok (), led')"
  unfolding ledger_up_def add_transaction_def
  by (metis (full_types) is_ok_iff old.unit.exhaust prod.collapse)

section \<open>Darcs and the genesis block\<close>

text \<open>
  The darc package and the creation of a ledger: signers, darcs with their rules, the genesis
  message. \<open>AddRule\<close> takes the action and the identity of the only signer of
  \<open>expression.InitOrExpr\<close>.
\<close>

record ('darc, 'signer, 'rnd, 'si, 'gmsg, 'led) darc_api =
  NewSignerEd25519 :: "'rnd \<Rightarrow> 'signer"
  NewDarc :: "'signer list \<Rightarrow> 'signer list \<Rightarrow> string \<Rightarrow> 'darc" \<comment> \<open>owners, signers, description\<close>
  AddRule :: "string \<Rightarrow> 'signer \<Rightarrow> 'darc \<Rightarrow> 'darc go"
  ToProto :: "'darc \<Rightarrow> bytes go"
  GetBaseID :: "'darc \<Rightarrow> bytes"
  GetID :: "'darc \<Rightarrow> bytes"
  ContractDarcID :: string
  DefaultGenesisMsg :: "'si list \<Rightarrow> string list \<Rightarrow> 'signer \<Rightarrow> 'gmsg go"
  SetBlockInterval :: "64 word \<Rightarrow> 'gmsg \<Rightarrow> 'gmsg"
  GenesisDarc :: "'gmsg \<Rightarrow> 'darc"
  NewLedger :: "'gmsg \<Rightarrow> 'led go"

text \<open>\<open>time.Duration(blockInterval) * time.Second\<close>, in 64-bit nanoseconds.\<close>

definition block_interval :: "int \<Rightarrow> 64 word" where
  "block_interval blockInterval = word_of_int blockInterval * 1000000000"

text \<open>What the four \<open>SetupByzcoin\<close> functions share; they differ in the genesis rules.\<close>

definition setup_ledger ::
    "('darc, 'signer, 'rnd, 'si, 'gmsg, 'led) darc_api \<Rightarrow> 'rnd \<Rightarrow> 'si list \<Rightarrow> string list \<Rightarrow> int
      \<Rightarrow> ('led \<times> 'signer \<times> 'darc) go" where
  "setup_ledger A rnd roster rules blockInterval =
     (let signer = NewSignerEd25519 A rnd in
      bindG (DefaultGenesisMsg A roster rules signer) (\<lambda>gMsg0.
      let gMsg = SetBlockInterval A (block_interval blockInterval) gMsg0;
          gDarc = GenesisDarc A gMsg
      in bindG (NewLedger A gMsg) (\<lambda>cl. Ok (cl, signer, gDarc))))"

text \<open>What the \<open>SpawnDarc\<close> functions share; the nonce is \<open>GenNonce()\<close>.\<close>

definition spawn_darc ::
    "('darc, 'signer, 'rnd, 'si, 'gmsg, 'led) darc_api \<Rightarrow> ('led, 'proof, 'signer, 'scid) ledger
      \<Rightarrow> bytes \<Rightarrow> 'signer \<Rightarrow> 'darc \<Rightarrow> 'darc \<Rightarrow> int \<Rightarrow> 'led \<Rightarrow> unit go \<times> 'led" where
  "spawn_darc A L nonce signer spawnDarc controlDarc wait led =
     (case bindG (ToProto A spawnDarc) (\<lambda>darcBuf.
              SignBy L (GetBaseID A controlDarc) signer
                (spawn_instruction (NewInstanceID L (GetBaseID A controlDarc)) nonce
                   (ContractDarcID A) ''darc'' darcBuf)) of
        Err e \<Rightarrow> (Err e, led)
      | Panic p \<Rightarrow> (Panic p, led)
      | Ok ins \<Rightarrow> AddTransactionAndWait L [ins] wait led)"

text \<open>No rule is refused, and a ledger can be created.\<close>

definition darcs_up :: "('darc, 'signer, 'rnd, 'si, 'gmsg, 'led) darc_api \<Rightarrow> bool" where
  "darcs_up A \<longleftrightarrow> (\<forall>a sg d. is_ok (AddRule A a sg d)) \<and> (\<forall>d. is_ok (ToProto A d))"

lemma spawn_darc_up:
  assumes "darcs_up A" and "ledger_up L"
  shows "is_ok (fst (spawn_darc A L nonce signer d ctl wait led))"
proof -
  obtain buf where "ToProto A d = Ok buf" using assms(1) unfolding darcs_up_def is_ok_iff by blast
  moreover obtain ins where "SignBy L (GetBaseID A ctl) signer
      (spawn_instruction (NewInstanceID L (GetBaseID A ctl)) nonce (ContractDarcID A) ''darc'' buf) = Ok ins"
    using assms(2) unfolding ledger_up_def is_ok_iff by blast
  ultimately show ?thesis using assms(2) by (simp add: spawn_darc_def ledger_up_def)
qed

definition genesis_up :: "('darc, 'signer, 'rnd, 'si, 'gmsg, 'led) darc_api \<Rightarrow> bool" where
  "genesis_up A \<longleftrightarrow> (\<forall>r rules sg. is_ok (DefaultGenesisMsg A r rules sg)) \<and> (\<forall>g. is_ok (NewLedger A g))"

lemma setup_ledger_up: "genesis_up A \<Longrightarrow> is_ok (setup_ledger A rnd roster rules blockInterval)"
  unfolding setup_ledger_def genesis_up_def Let_def is_ok_iff
  by (metis bindG.simps(1))

lemma block_interval_exact:
  assumes "0 \<le> i" and "i < 9223372037"
  shows "sint (block_interval i) = i * 1000000000"
proof -
  have "block_interval i = word_of_int (i * 1000000000)"
    by (simp add: block_interval_def)
  moreover have "signed_take_bit 63 (i * 1000000000) = i * 1000000000"
    using assms by (intro signed_take_bit_int_eq_self) auto
  moreover have "sint (word_of_int z :: 64 word) = signed_take_bit 63 z" for z
    by (simp add: sint_sbintrunc')
  ultimately show ?thesis by (simp only:)
qed

section \<open>A concrete ledger for the witnesses\<close>

text \<open>The ledger is the list of the instructions added, the newest first; a proof is the instance
  ID, the contract and the value.\<close>

type_synonym example_proof = "bytes \<times> string \<times> bytes"

definition example_ID :: "Instruction \<Rightarrow> string \<Rightarrow> bytes" where
  "example_ID ins what = in_Nonce ins @ [1]"

fun example_GetProof :: "bytes \<Rightarrow> Instruction list \<Rightarrow> example_proof go" where
  "example_GetProof iid [] = Err (Error ''no proof'')"
| "example_GetProof iid (i # is) =
     (if example_ID i [] = iid
      then (case in_Spawn i of
              None \<Rightarrow> Err (Error ''not a spawn'')
            | Some sp \<Rightarrow>
                (case sp_Args sp of [a] \<Rightarrow> Ok (iid, sp_ContractID sp, arg_Value a)
                 | _ \<Rightarrow> Err (Error ''no value'')))
      else example_GetProof iid is)"

definition example_ledger :: "(Instruction list, example_proof, 'signer, unit) ledger" where
  "example_ledger =
     \<lparr>SignBy = (\<lambda>d sg ins. Ok ins), SignInstruction = (\<lambda>d sg ins. Ok ins), DeriveID = example_ID, NewInstanceID = (\<lambda>k. k),
      AddTransaction = (\<lambda>is led. (Ok (), is @ led)),
      AddTransactionAndWait = (\<lambda>is w led. (Ok (), is @ led)),
      GetProof = example_GetProof, LedgerID = (\<lambda>_. ()), Match = (\<lambda>_. True),
      InclusionKey = fst,
      ContractValue = (\<lambda>p cid. if fst (snd p) = cid then Ok (snd (snd p))
                               else Err (Error ''wrong contract'')),
      Proof_Verify = (\<lambda>_ _. Ok ())\<rparr>"

lemma example_ledger_law [simp]: "ledger_law example_ledger"
  by (auto simp: ledger_law_def example_ledger_def)

lemma example_ledger_up [simp]: "ledger_up example_ledger"
  by (simp add: ledger_up_def example_ledger_def)

lemma example_GetProof_row:
  assumes "distinct (map (\<lambda>i. example_ID i []) inss)" and "ins \<in> set inss"
    and "in_Spawn ins = Some \<lparr>sp_ContractID = cid, sp_Args = [\<lparr>arg_Name = name, arg_Value = val\<rparr>]\<rparr>"
  shows "example_GetProof (example_ID ins []) (inss @ led) = Ok (example_ID ins [], cid, val)"
  using assms(1,2) by (induction inss) (auto simp: assms(3))

lemma example_add_in_row: "add_in_row example_ledger inss w led = (Ok (), rev inss @ led)"
  by (induction inss arbitrary: led) (simp_all add: add_transaction_def example_ledger_def)

lemma example_batch_law [simp]: "batch_law example_ledger"
proof -
  have "\<exists>p. GetProof example_ledger (DeriveID example_ledger ins []) (rev inss @ led) = Ok p \<and>
      Match example_ledger p \<and> ContractValue example_ledger p cid = Ok val"
    if "distinct (map (\<lambda>i. DeriveID example_ledger i []) inss)" "ins \<in> set inss"
      "in_Spawn ins = Some \<lparr>sp_ContractID = cid, sp_Args = [\<lparr>arg_Name = name, arg_Value = val\<rparr>]\<rparr>"
    for inss ins led cid name val
    using example_GetProof_row [of "rev inss" ins cid name val led] that
    by (simp add: example_ledger_def rev_map [symmetric])
  then have 1: "\<forall>inss w led led' ins cid name val.
        0 < w \<longrightarrow> distinct (map (\<lambda>i. DeriveID example_ledger i []) inss) \<longrightarrow>
        add_in_row example_ledger inss w led = (Ok (), led') \<longrightarrow> ins \<in> set inss \<longrightarrow>
        in_Spawn ins = Some \<lparr>sp_ContractID = cid, sp_Args = [\<lparr>arg_Name = name, arg_Value = val\<rparr>]\<rparr> \<longrightarrow>
        (\<exists>p. GetProof example_ledger (DeriveID example_ledger ins []) led' = Ok p \<and>
             Match example_ledger p \<and> ContractValue example_ledger p cid = Ok val)"
    unfolding example_add_in_row by (metis prod.inject)
  show ?thesis
    unfolding batch_law_def
    by (intro conjI 1) (simp_all add: example_ledger_def example_ID_def)
qed

end
