(* ===== verification/Semi_Centralized.thy ===== *)
theory Semi_Centralized
  imports Key_Relay Blob_Store Onet_Client Byzcoin_Api Example_Env
begin

text \<open>
  \<open>src/semi_centralized\<close>: one server keeps the encrypted data; the writes and the reads are
  transactions on a ByzCoin ledger, and the server re-encrypts a key only for a read that the
  ledger holds.

  \<^item> \<open>struct.go\<close>, \<open>db.go\<close>: the messages and the database;
  \<^item> \<open>service.go\<close>: \<open>verifyDecryptRequest\<close>, \<open>reencryptData\<close>, the handlers and the constructor;
  \<^item> \<open>api.go\<close>, \<open>client/main.go\<close>: the client side.

  \<open>calypso.Read\<close>, \<open>calypso.SemiWrite\<close>, their contract IDs and the protobuf encoding belong to
  packages that are not under \<open>src/\<close>: the data are records, and the IDs and encodings are
  fields of \<open>calypso\<close>.
\<close>

section \<open>Messages and database\<close>

record StoreRequest =
  sr_Data :: bytes
  sr_DataHash :: bytes

record StoreReply =
  sr_StoredKey :: string

record 'pt SemiWrite =
  sw_DataHash :: bytes
  sw_K :: 'pt
  sw_C :: 'pt
  sw_Reader :: 'pt
  sw_EncReader :: bytes

record 'pt CalypsoRead =
  rd_Write :: bytes
  rd_Xc :: 'pt

record ('proof, 'scid) DecryptRequest =
  dr_Write :: 'proof
  dr_Read :: 'proof
  dr_SCID :: 'scid
  dr_Key :: string
  dr_Sig :: bytes

record 'pt DecryptReply =
  dp_Data :: bytes
  dp_DataHash :: bytes
  dp_K :: 'pt
  dp_C :: 'pt

record 'pt calypso =
  ContractSemiWriteID :: string
  ContractReadID :: string
  encode_SemiWrite :: "'pt SemiWrite \<Rightarrow> bytes go"
  decode_SemiWrite :: "bytes \<Rightarrow> 'pt SemiWrite go"
  encode_Read :: "'pt CalypsoRead \<Rightarrow> bytes go"
  decode_Read :: "bytes \<Rightarrow> 'pt CalypsoRead go"

text \<open>Encoding succeeds and decoding inverts it.\<close>

definition calypso_law :: "'pt calypso \<Rightarrow> bool" where
  "calypso_law P \<longleftrightarrow>
     (\<forall>w. \<exists>b. encode_SemiWrite P w = Ok b \<and> decode_SemiWrite P b = Ok w) \<and>
     (\<forall>r. \<exists>b. encode_Read P r = Ok b \<and> decode_Read P b = Ok r)"

definition sc_getFromTx ::
    "('db, StoreRequest) store_env \<Rightarrow> bytes \<Rightarrow> 'db \<Rightarrow> bytes \<Rightarrow> StoreRequest go" where
  "sc_getFromTx E bn tx key =
     (case bGet E tx bn key of
        None \<Rightarrow> Err (Error ''Key does not exist'')
      | Some val \<Rightarrow> bindG (network_Unmarshal E val) assert_type)"

definition GetStoredData ::
    "('db, StoreRequest) store_env \<Rightarrow> bytes \<Rightarrow> 'db \<Rightarrow> string \<Rightarrow> StoreRequest go" where
  "GetStoredData E bn db key =
     bindG (DecodeString key) (\<lambda>keyByte. DB_View E (\<lambda>tx. sc_getFromTx E bn tx keyByte) db)"

definition db_StoreData ::
    "('db, StoreRequest) store_env \<Rightarrow> bytes \<Rightarrow> 'db \<Rightarrow> StoreRequest \<Rightarrow> string go \<times> 'db" where
  "db_StoreData E bn db req =
     (let dataHash = hash256 E (sr_Data req) in
      if Compare dataHash (sr_DataHash req) \<noteq> 0 then (Err (Error ''Hashes do not match''), db)
      else
        case network_Marshal E req of
          Err _ \<Rightarrow> (Err (Error ''Cannot marshal store request''), db)
        | Panic p \<Rightarrow> (Panic p, db)
        | Ok val \<Rightarrow>
            (case DB_Update E (put_if_absent E bn dataHash val) db of
               (res, db') \<Rightarrow> (bindG res (\<lambda>_. Ok (EncodeToString dataHash)), db')))"

section \<open>The service\<close>

record ('sc, 'db) SService =
  ss_priv :: 'sc
  ss_db :: 'db
  ss_bucket :: bytes

definition verifyDecryptRequest ::
    "('pt, 'sc, 'rnd) suite \<Rightarrow> ('led, 'proof, 'signer, 'scid) ledger \<Rightarrow> 'pt calypso
      \<Rightarrow> ('proof, 'scid) DecryptRequest \<Rightarrow> StoreRequest \<Rightarrow> 'pt SemiWrite go" where
  "verifyDecryptRequest S L P req storedData =
     bindG (map_err (\<lambda>e. Error (''didn't get a read instance: '' @ err_msg e))
              (bindG (ContractValue L (dr_Read req) (ContractReadID P)) (decode_Read P))) (\<lambda>read.
     bindG (map_err (\<lambda>e. Error (''didn't get a write instance: '' @ err_msg e))
              (bindG (ContractValue L (dr_Write req) (ContractSemiWriteID P)) (decode_SemiWrite P))) (\<lambda>write.
     if rd_Write read \<noteq> NewInstanceID L (InclusionKey L (dr_Write req))
     then Err (Error ''read doesn't point to passed write'')
     else
       bindG (map_err (\<lambda>e. Error (''read proof cannot be verified to come from scID: '' @ err_msg e))
                (Proof_Verify L (dr_Read req) (dr_SCID req))) (\<lambda>_.
       bindG (map_err (\<lambda>e. Error (''write proof cannot be verified to come from scID: '' @ err_msg e))
                (Proof_Verify L (dr_Write req) (dr_SCID req))) (\<lambda>_.
       bindG (DecodeString (dr_Key req)) (\<lambda>keyBytes.
       if Compare keyBytes (sr_DataHash storedData) \<noteq> 0 then Err (Error ''Keys do not match'')
       else
         bindG (schnorr_Verify S (sw_Reader write) keyBytes (dr_Sig req)) (\<lambda>_.
         Ok write))))))"

definition sc_reencryptData ::
    "('pt, 'sc, 'rnd) suite \<Rightarrow> 'rnd \<Rightarrow> 'rnd \<Rightarrow> unit \<Rightarrow> 'pt SemiWrite \<Rightarrow> 'sc \<Rightarrow> ('pt \<times> 'pt) go" where
  "sc_reencryptData S r1 r2 _ wt sk =
     bindG (ElGamalDecrypt S sk (sw_K wt) (sw_C wt)) (\<lambda>symKey.
     bindG (AeadOpen S symKey (sw_EncReader wt)) (\<lambda>decReader.
     bindG (CompareKeys S (sw_Reader wt) decReader) (\<lambda>ok.
     if ok \<noteq> 0 then Err (Error ''Reader public key does not match'')
     else let (k, c, _) = ElGamalEncrypt S r1 r2 (sw_Reader wt) symKey in Ok (k, c))))"

definition StoreData ::
    "('db, StoreRequest) store_env \<Rightarrow> ('sc, 'db) SService \<Rightarrow> StoreRequest
      \<Rightarrow> StoreReply go \<times> ('sc, 'db) SService" where
  "StoreData E s req =
     (case db_StoreData E (ss_bucket s) (ss_db s) req of
        (res, db') \<Rightarrow>
          (bindG res (\<lambda>storedKey. Ok \<lparr>sr_StoredKey = storedKey\<rparr>), s\<lparr>ss_db := db'\<rparr>))"

definition Decrypt ::
    "('pt, 'sc, 'rnd) suite \<Rightarrow> ('led, 'proof, 'signer, 'scid) ledger \<Rightarrow> 'pt calypso
      \<Rightarrow> ('db, StoreRequest) store_env \<Rightarrow> 'rnd \<Rightarrow> 'rnd \<Rightarrow> ('sc, 'db) SService
      \<Rightarrow> ('proof, 'scid) DecryptRequest \<Rightarrow> 'pt DecryptReply go \<times> ('sc, 'db) SService" where
  "Decrypt S L P E r1 r2 s req =
     (bindG (GetStoredData E (ss_bucket s) (ss_db s) (dr_Key req)) (\<lambda>storedData.
      bindG (verifyDecryptRequest S L P req storedData) (\<lambda>writeTxn.
      bindG (sc_reencryptData S r1 r2 () writeTxn (ss_priv s)) (\<lambda>(k, c).
      Ok \<lparr>dp_Data = sr_Data storedData, dp_DataHash = sr_DataHash storedData,
          dp_K = k, dp_C = c\<rparr>))), s)"

text \<open>\<open>save\<close> and the constructor, with the results of the calls it makes as arguments (compare the fully
  centralised service).\<close>

definition sc_save :: "('disk \<Rightarrow> unit go \<times> 'disk) \<Rightarrow> 'disk \<Rightarrow> 'disk" where
  "sc_save Save disk = (case Save disk of (err, disk') \<Rightarrow> disk')"

definition sc_tryLoad :: "bool option go \<Rightarrow> unit go" where
  "sc_tryLoad load =
     bindG load (\<lambda>msg.
     case msg of
       None \<Rightarrow> Ok ()
     | Some ok \<Rightarrow> if ok then Ok () else Err (Error ''Data of wrong type''))"

definition newSemiCentralizedService ::
    "'sc \<Rightarrow> 'db \<times> bytes \<Rightarrow> unit go \<Rightarrow> bool option go \<Rightarrow> ('sc, 'db) SService go" where
  "newSemiCentralizedService priv bucket reg load =
     bindG (map_err (\<lambda>_. Error ''Couldn't register messages'') reg) (\<lambda>_.
     bindG (sc_tryLoad load) (\<lambda>_.
     Ok \<lparr>ss_priv = priv, ss_db = fst bucket, ss_bucket = snd bucket\<rparr>))"

section \<open>The client\<close>

text \<open>A signer is an Ed25519 key pair.\<close>

record ('pt, 'sc) key_signer =
  sg_Point :: 'pt
  sg_Secret :: 'sc

record TransactionReply =
  tr_InstanceID :: bytes

definition sc_SetupByzcoin ::
    "('darc, 'signer, 'rnd, 'si, 'gmsg, 'led) darc_api \<Rightarrow> 'pt calypso \<Rightarrow> 'rnd \<Rightarrow> 'si list \<Rightarrow> int
      \<Rightarrow> ('led \<times> 'signer \<times> 'darc) go" where
  "sc_SetupByzcoin A P rnd r blockInterval =
     setup_ledger A rnd r
       [''spawn:'' @ ContractDarcID A, ''spawn:'' @ ContractSemiWriteID P, ''spawn:'' @ ContractReadID P]
       blockInterval"

definition sc_SetupDarcs ::
    "('darc, 'signer, 'rnd, 'si, 'gmsg, 'led) darc_api \<Rightarrow> 'pt calypso \<Rightarrow> 'rnd \<Rightarrow> 'rnd
      \<Rightarrow> ('signer \<times> 'signer \<times> 'darc) go" where
  "sc_SetupDarcs A P rndW rndR =
     (let writer = NewSignerEd25519 A rndW;
          reader = NewSignerEd25519 A rndR;
          writeDarc = NewDarc A [writer] [writer] ''Writer''
      in bindG (AddRule A (''spawn:'' @ ContractSemiWriteID P) writer writeDarc) (\<lambda>d1.
         bindG (AddRule A (''spawn:'' @ ContractReadID P) reader d1) (\<lambda>d2.
         Ok (writer, reader, d2))))"

definition sc_SpawnDarc ::
    "('darc, 'signer, 'rnd, 'si, 'gmsg, 'led) darc_api \<Rightarrow> ('led, 'proof, 'signer, 'scid) ledger
      \<Rightarrow> bytes \<Rightarrow> 'signer \<Rightarrow> 'darc \<Rightarrow> 'darc \<Rightarrow> int \<Rightarrow> 'led \<Rightarrow> unit go \<times> 'led" where
  "sc_SpawnDarc A L nonce signer spawnDarc controlDarc wait led =
     spawn_darc A L nonce signer spawnDarc controlDarc wait led"

definition api_StoreData ::
    "('db, StoreRequest) store_env \<Rightarrow> delivery \<Rightarrow> 'si list \<Rightarrow> ('si \<Rightarrow> ('sc, 'db) SService)
      \<Rightarrow> bytes \<Rightarrow> bytes \<Rightarrow> StoreReply go \<times> ('si \<Rightarrow> ('sc, 'db) SService)" where
  "api_StoreData E d roster sv data dataHash =
     (case first_server roster of
        Ok dest \<Rightarrow>
          SendProtobuf d (StoreData E) sv dest \<lparr>sr_Data = data, sr_DataHash = dataHash\<rparr>
      | Err e \<Rightarrow> (Err e, sv)
      | Panic p \<Rightarrow> (Panic p, sv))"

definition AddWriteTransaction ::
    "('darc, ('pt, 'sc) key_signer, 'rnd, 'si, 'gmsg, 'led) darc_api \<Rightarrow> ('led, 'proof, ('pt, 'sc) key_signer, 'scid) ledger
      \<Rightarrow> 'pt calypso \<Rightarrow> 'pt WriteData \<Rightarrow> ('pt, 'sc) key_signer \<Rightarrow> 'darc \<Rightarrow> int \<Rightarrow> 'led \<Rightarrow> TransactionReply go \<times> 'led" where
  "AddWriteTransaction A L P wd signer darc wait led =
     (let sWrite = \<lparr>sw_DataHash = DataHash wd, sw_K = K wd, sw_C = C wd, sw_Reader = Reader wd,
                    sw_EncReader = EncReader wd\<rparr>
      in case bindG (encode_SemiWrite P sWrite) (\<lambda>writeBuf.
                SignBy L (GetID A darc) signer
                  (spawn_instruction (NewInstanceID L (GetBaseID A darc)) zero_nonce
                     (ContractSemiWriteID P) ''write'' writeBuf)) of
           Err e \<Rightarrow> (Err e, led)
         | Panic p \<Rightarrow> (Panic p, led)
         | Ok ins \<Rightarrow>
             (case AddTransactionAndWait L [ins] wait led of
                (res, led') \<Rightarrow>
                  (bindG res (\<lambda>_. Ok \<lparr>tr_InstanceID = DeriveID L ins []\<rparr>), led')))"

definition AddReadTransaction ::
    "('darc, ('pt, 'sc) key_signer, 'rnd, 'si, 'gmsg, 'led) darc_api \<Rightarrow> ('led, 'proof, ('pt, 'sc) key_signer, 'scid) ledger
      \<Rightarrow> 'pt calypso \<Rightarrow> 'proof \<Rightarrow> ('pt, 'sc) key_signer \<Rightarrow> 'darc \<Rightarrow> int \<Rightarrow> 'led \<Rightarrow> TransactionReply go \<times> 'led" where
  "AddReadTransaction A L P proof signer darc wait led =
     (let read = \<lparr>rd_Write = NewInstanceID L (InclusionKey L proof), rd_Xc = sg_Point signer\<rparr>
      in case bindG (encode_Read P read) (\<lambda>readBuf.
                SignBy L (GetID A darc) signer
                  (spawn_instruction (NewInstanceID L (InclusionKey L proof)) zero_nonce
                     (ContractReadID P) ''read'' readBuf)) of
           Err e \<Rightarrow> (Err e, led)
         | Panic p \<Rightarrow> (Panic p, led)
         | Ok ins \<Rightarrow>
             (case AddTransactionAndWait L [ins] wait led of
                (res, led') \<Rightarrow>
                  (bindG res (\<lambda>_. Ok \<lparr>tr_InstanceID = DeriveID L ins []\<rparr>), led')))"

definition api_GetProof ::
    "('led, 'proof, 'signer, 'scid) ledger \<Rightarrow> bytes \<Rightarrow> 'led \<Rightarrow> 'proof go" where
  "api_GetProof L iid led = GetProof L iid led"

definition api_Decrypt ::
    "('pt, 'sc, 'rnd) suite \<Rightarrow> ('led, 'proof, 'signer, 'scid) ledger \<Rightarrow> 'pt calypso
      \<Rightarrow> ('db, StoreRequest) store_env \<Rightarrow> 'rnd \<Rightarrow> 'rnd \<Rightarrow> delivery \<Rightarrow> 'si list
      \<Rightarrow> ('si \<Rightarrow> ('sc, 'db) SService) \<Rightarrow> 'led \<Rightarrow> 'proof \<Rightarrow> 'proof \<Rightarrow> string \<Rightarrow> 'sc
      \<Rightarrow> 'pt DecryptReply go \<times> ('si \<Rightarrow> ('sc, 'db) SService)" where
  "api_Decrypt S L P E r1 r2 d roster sv led wrProof rProof key sk =
     (case bindG (DecodeString key) (schnorr_Sign S sk) of
        Err e \<Rightarrow> (Err e, sv)
      | Panic p \<Rightarrow> (Panic p, sv)
      | Ok sig \<Rightarrow>
          let dr = \<lparr>dr_Write = wrProof, dr_Read = rProof, dr_SCID = LedgerID L led,
                    dr_Key = key, dr_Sig = sig\<rparr>
          in (case first_server roster of
                Ok dest \<Rightarrow> SendProtobuf d (Decrypt S L P E r1 r2) sv dest dr
              | Err e \<Rightarrow> (Err e, sv)
              | Panic p \<Rightarrow> (Panic p, sv)))"

text \<open>
  \<open>runSemiCentralized\<close> after the darcs are set up (\<open>sc_share\<close>): create the write, store the
  ciphertext, add the write transaction, prove it, add the read transaction, prove it, ask the
  server for the key and recover the data. Every call is followed by the source's check of its
  error and of the inclusion proof. The waits of the two transactions are 5 blocks.
\<close>

definition checked_proof ::
    "('led, 'proof, 'signer, 'scid) ledger \<Rightarrow> string \<Rightarrow> bytes \<Rightarrow> 'led \<Rightarrow> 'proof go" where
  "checked_proof L msg iid led =
     bindG (api_GetProof L iid led) (\<lambda>p. if \<not> Match L p then Err (Error msg) else Ok p)"

definition sc_share ::
    "('pt, 'sc, 'rnd) suite \<Rightarrow> ('darc, ('pt, 'sc) key_signer, 'rnd, 'si, 'gmsg, 'led) darc_api
      \<Rightarrow> ('led, 'proof, ('pt, 'sc) key_signer, 'scid) ledger \<Rightarrow> 'pt calypso
      \<Rightarrow> ('db, StoreRequest) store_env \<Rightarrow> 'rnd entropy \<Rightarrow> 'rnd \<Rightarrow> 'rnd \<Rightarrow> delivery \<Rightarrow> delivery
      \<Rightarrow> 'si list \<Rightarrow> ('si \<Rightarrow> ('sc, 'db) SService) \<Rightarrow> 'pt \<Rightarrow> bytes
      \<Rightarrow> ('pt, 'sc) key_signer \<Rightarrow> ('pt, 'sc) key_signer \<Rightarrow> 'darc \<Rightarrow> 'led
      \<Rightarrow> bytes go \<times> ('si \<Rightarrow> ('sc, 'db) SService) \<times> 'led" where
  "sc_share S A L P E e r1 r2 d1 d2 roster sv serverKey data writer reader wDarc led =
     (case CreateWriteData S e data (sg_Point reader) serverKey True of
        Err er \<Rightarrow> (Err er, sv, led) | Panic pa \<Rightarrow> (Panic pa, sv, led)
      | Ok wd0 \<Rightarrow>
     (case api_StoreData E d1 roster sv (Data wd0) (DataHash wd0) of
        (Err er, sv1) \<Rightarrow> (Err er, sv1, led) | (Panic pa, sv1) \<Rightarrow> (Panic pa, sv1, led)
      | (Ok reply, sv1) \<Rightarrow>
     (let wd = wd0\<lparr>StoredKey := sr_StoredKey reply\<rparr> in
      case AddWriteTransaction A L P wd writer wDarc 5 led of
        (Err er, led1) \<Rightarrow> (Err er, sv1, led1) | (Panic pa, led1) \<Rightarrow> (Panic pa, sv1, led1)
      | (Ok writeTxn, led1) \<Rightarrow>
     (case checked_proof L ''Write inclusion proof does not match'' (tr_InstanceID writeTxn) led1 of
        Err er \<Rightarrow> (Err er, sv1, led1) | Panic pa \<Rightarrow> (Panic pa, sv1, led1)
      | Ok wrProof \<Rightarrow>
     (case AddReadTransaction A L P wrProof reader wDarc 5 led1 of
        (Err er, led2) \<Rightarrow> (Err er, sv1, led2) | (Panic pa, led2) \<Rightarrow> (Panic pa, sv1, led2)
      | (Ok readTxn, led2) \<Rightarrow>
     (case checked_proof L ''Read inclusion proof does not match'' (tr_InstanceID readTxn) led2 of
        Err er \<Rightarrow> (Err er, sv1, led2) | Panic pa \<Rightarrow> (Panic pa, sv1, led2)
      | Ok rProof \<Rightarrow>
     (case api_Decrypt S L P E r1 r2 d2 roster sv1 led2 wrProof rProof (StoredKey wd)
             (sg_Secret reader) of
        (Err er, sv2) \<Rightarrow> (Err er, sv2, led2) | (Panic pa, sv2) \<Rightarrow> (Panic pa, sv2, led2)
      | (Ok dr, sv2) \<Rightarrow>
          (RecoverData S (dp_Data dr) (sg_Secret reader) (dp_K dr) (dp_C dr), sv2, led2))))))))"

text \<open>The whole client; the data is the string the source writes into its program.\<close>

definition runSemiCentralized ::
    "('pt, 'sc, 'rnd) suite \<Rightarrow> ('darc, ('pt, 'sc) key_signer, 'rnd, 'si, 'gmsg, 'led) darc_api
      \<Rightarrow> ('led, 'proof, ('pt, 'sc) key_signer, 'scid) ledger \<Rightarrow> 'pt calypso
      \<Rightarrow> ('db, StoreRequest) store_env \<Rightarrow> 'rnd \<Rightarrow> 'rnd \<Rightarrow> 'rnd \<Rightarrow> bytes \<Rightarrow> 'rnd entropy \<Rightarrow> 'rnd \<Rightarrow> 'rnd
      \<Rightarrow> delivery \<Rightarrow> delivery \<Rightarrow> 'si list \<Rightarrow> ('si \<Rightarrow> ('sc, 'db) SService) \<Rightarrow> 'pt \<Rightarrow> int
      \<Rightarrow> bytes go \<times> ('si \<Rightarrow> ('sc, 'db) SService) \<times> 'led option" where
  "runSemiCentralized S A L P E rndA rndW rndR nonce e r1 r2 d1 d2 r sv serverKey interval =
     (case sc_SetupByzcoin A P rndA r interval of
        Err er \<Rightarrow> (Err er, sv, None) | Panic pa \<Rightarrow> (Panic pa, sv, None)
      | Ok (byzCl, admin, gDarc) \<Rightarrow>
     (case sc_SetupDarcs A P rndW rndR of
        Err er \<Rightarrow> (Err er, sv, Some byzCl) | Panic pa \<Rightarrow> (Panic pa, sv, Some byzCl)
      | Ok (writer, reader, wDarc) \<Rightarrow>
     (case sc_SpawnDarc A L nonce admin wDarc gDarc 0 byzCl of
        (Err er, led) \<Rightarrow> (Err er, sv, Some led) | (Panic pa, led) \<Rightarrow> (Panic pa, sv, Some led)
      | (Ok _, led) \<Rightarrow>
     (case sc_share S A L P E e r1 r2 d1 d2 r sv serverKey
             (map of_char ''On Wisconsin!'') writer reader wDarc led of
        (res, sv', led') \<Rightarrow> (res, sv', Some led')))))"

text \<open>The calls a server gets, in any order: \<open>RegisterHandlers(s.StoreData, s.Decrypt)\<close>.\<close>

datatype ('proof, 'scid, 'rnd) sc_call =
    CallStoreData StoreRequest
  | CallDecrypt 'rnd 'rnd "('proof, 'scid) DecryptRequest"

primrec sc_serve ::
    "('pt, 'sc, 'rnd) suite \<Rightarrow> ('led, 'proof, 'signer, 'scid) ledger \<Rightarrow> 'pt calypso
      \<Rightarrow> ('db, StoreRequest) store_env \<Rightarrow> ('sc, 'db) SService \<Rightarrow> ('proof, 'scid, 'rnd) sc_call
      \<Rightarrow> ('sc, 'db) SService" where
  "sc_serve S L P E s (CallStoreData req) = snd (StoreData E s req)"
| "sc_serve S L P E s (CallDecrypt r1 r2 req) = snd (Decrypt S L P E r1 r2 s req)"

definition sc_serve_all ::
    "('pt, 'sc, 'rnd) suite \<Rightarrow> ('led, 'proof, 'signer, 'scid) ledger \<Rightarrow> 'pt calypso
      \<Rightarrow> ('db, StoreRequest) store_env \<Rightarrow> ('sc, 'db) SService \<Rightarrow> ('proof, 'scid, 'rnd) sc_call list
      \<Rightarrow> ('sc, 'db) SService" where
  "sc_serve_all S L P E s cs = foldl (sc_serve S L P E) s cs"

section \<open>Facts\<close>

lemma db_StoreData_OkD:
  assumes "store_law E" and "db_StoreData E bn db req = (Ok key, db')"
  shows "sr_DataHash req = hash256 E (sr_Data req) \<and> key = EncodeToString (sr_DataHash req) \<and>
    bGet E db bn (sr_DataHash req) = None \<and>
    (\<exists>v. network_Marshal E req = Ok v \<and>
         bGet E db' = (bGet E db)(bn := (bGet E db bn)(sr_DataHash req \<mapsto> v)))"
  using assms(2)
  by (auto simp: db_StoreData_def Let_def go_simps
      split: if_splits go.splits prod.splits dest!: put_new_Ok [OF assms(1)])

lemma db_StoreData_refused:
  "db_StoreData E bn db req = (res, db') \<Longrightarrow> \<not> is_ok res \<Longrightarrow> db' = db"
  by (auto simp: db_StoreData_def Let_def split: if_splits go.splits prod.splits
      dest!: DB_Update_cases)

lemma db_StoreData_accepts:
  assumes "store_law E" and "store_up E" and "sr_DataHash req = hash256 E (sr_Data req)"
    and "bGet E db bn (sr_DataHash req) = None"
  shows "is_ok (fst (db_StoreData E bn db req))"
proof -
  from store_upD(4) [OF assms(2)] obtain v where v: "network_Marshal E req = Ok v" by blast
  from store_upD(5) [OF assms(2)] assms(3) have "sr_DataHash req \<noteq> []" by simp
  from put_new_accepts [OF assms(1,2) this assms(4), of v] obtain db' where
    "DB_Update E (put_if_absent E bn (sr_DataHash req) v) db = (Ok (), db')" by blast
  with v assms(3) show ?thesis
    by (simp add: db_StoreData_def Let_def)
qed

lemma sc_getFromTx_Ok_iff [go_simps]:
  "sc_getFromTx E bn tx k = Ok r \<longleftrightarrow>
     (\<exists>v. bGet E tx bn k = Some v \<and> network_Unmarshal E v = Ok (Some r))"
  by (auto simp: sc_getFromTx_def go_simps split: option.splits)

lemma GetStoredData_iff:
  assumes "store_law E"
  shows "GetStoredData E bn db key = Ok r \<longleftrightarrow>
    (\<exists>tx k v. DecodeString key = Ok k \<and> bBegin E db = Ok tx \<and> bGet E db bn k = Some v \<and>
              network_Unmarshal E v = Ok (Some r))"
  using store_lawD(1) [OF assms]
  by (fastforce simp: GetStoredData_def DB_View_def go_simps)

lemma db_StoreData_mismatch:
  "sr_DataHash req \<noteq> hash256 E (sr_Data req) \<Longrightarrow> db_StoreData E bn db req = (Err (Error ''Hashes do not match''), db)"
  by (auto simp: db_StoreData_def Let_def)

lemma db_StoreData_taken:
  assumes "store_law E" and "store_up E" and "sr_DataHash req = hash256 E (sr_Data req)" and "bGet E db bn (sr_DataHash req) = Some v"
  shows "db_StoreData E bn db req = (Err (Error ''Key already exists''), db)"
proof -
  from store_upD(1) [OF assms(2)] obtain tx where tx: "bBegin E db = Ok tx" by blast
  from store_upD(4) [OF assms(2)] obtain val where "network_Marshal E req = Ok val" by blast
  with put_taken [OF assms(1,4) tx] assms(3) show ?thesis by (simp add: db_StoreData_def Let_def)
qed

lemma GetStoredData_read:
  assumes "store_law E" and "bBegin E db = Ok tx"
  shows "GetStoredData E bn db key = bindG (DecodeString key) (\<lambda>k.
    case bGet E db bn k of None \<Rightarrow> Err (Error ''Key does not exist'')
    | Some v \<Rightarrow> bindG (network_Unmarshal E v) assert_type)"
  using assms(2) store_lawD(1) [OF assms] by (simp add: GetStoredData_def DB_View_def sc_getFromTx_def)

interpretation sc_db: blob_store db_StoreData GetStoredData sr_Data sr_DataHash
  by unfold_locales
    (fact db_StoreData_OkD db_StoreData_refused db_StoreData_accepts GetStoredData_iff
      db_StoreData_mismatch db_StoreData_taken GetStoredData_read)+

lemma verifyDecryptRequest_Ok_iff [go_simps]:
  "verifyDecryptRequest S L P req sd = Ok w \<longleftrightarrow>
     (\<exists>rb wb rd. ContractValue L (dr_Read req) (ContractReadID P) = Ok rb \<and> decode_Read P rb = Ok rd \<and>
        ContractValue L (dr_Write req) (ContractSemiWriteID P) = Ok wb \<and> decode_SemiWrite P wb = Ok w \<and>
        rd_Write rd = NewInstanceID L (InclusionKey L (dr_Write req))) \<and>
     Proof_Verify L (dr_Read req) (dr_SCID req) = Ok () \<and>
     Proof_Verify L (dr_Write req) (dr_SCID req) = Ok () \<and>
     DecodeString (dr_Key req) = Ok (sr_DataHash sd) \<and>
     schnorr_Verify S (sw_Reader w) (sr_DataHash sd) (dr_Sig req) = Ok ()"
  by (auto simp: verifyDecryptRequest_def go_simps split: if_splits)

lemma sc_reencryptData_Ok_iff [go_simps]:
  "sc_reencryptData S r1 r2 u wt sk = Ok (k, c) \<longleftrightarrow>
     (\<exists>m rb rem. ElGamalDecrypt S sk (sw_K wt) (sw_C wt) = Ok m \<and>
        MarshalBinary S (sw_Reader wt) = Ok rb \<and> AeadOpen S m (sw_EncReader wt) = Ok rb \<and>
        ElGamalEncrypt S r1 r2 (sw_Reader wt) m = (k, c, rem))"
  by (auto simp: sc_reencryptData_def CompareKeys_def go_simps split_def Let_def prod_eq_iff
      split: if_splits)

interpretation sc_relay: key_relay sc_reencryptData sw_K sw_C sw_Reader
  by unfold_locales (auto simp: go_simps)

lemma Decrypt_Ok_iff:
  "Decrypt S L P E r1 r2 s req = (Ok rep, s') \<longleftrightarrow>
     s' = s \<and>
     (\<exists>sd w. GetStoredData E (ss_bucket s) (ss_db s) (dr_Key req) = Ok sd \<and>
        verifyDecryptRequest S L P req sd = Ok w \<and>
        sc_reencryptData S r1 r2 () w (ss_priv s) = Ok (dp_K rep, dp_C rep) \<and>
        dp_Data rep = sr_Data sd \<and> dp_DataHash rep = sr_DataHash sd)"
  by (cases rep) (auto simp: Decrypt_def go_simps)

lemma StoreData_Ok_iff:
  "StoreData E s req = (Ok rep, s') \<longleftrightarrow>
     (\<exists>db'. db_StoreData E (ss_bucket s) (ss_db s) req = (Ok (sr_StoredKey rep), db') \<and>
            s' = s\<lparr>ss_db := db'\<rparr>)"
  by (cases rep) (auto simp: StoreData_def go_simps split: prod.splits)

abbreviation semi_write_of :: "'pt WriteData \<Rightarrow> 'pt SemiWrite" where
  "semi_write_of wd \<equiv> \<lparr>sw_DataHash = DataHash wd, sw_K = K wd, sw_C = C wd, sw_Reader = Reader wd,
                       sw_EncReader = EncReader wd\<rparr>"

lemma CreateWriteData_semi:
  assumes "entropy_ok e" and "nonceDraw e = Ok n" and "readerNonceDraw e = Ok n'"
    and "MarshalBinary S reader = Ok rb"
  shows "\<exists>wd. CreateWriteData S e data reader pk True = Ok wd \<and>
    Data wd = gcm_Seal S (symKeyDraw e) n data @ n"
  using assms by (auto simp: CreateWriteData_def entropy_ok_def seal_defs split_def Let_def)

lemma api_StoreData_stores:
  assumes "store_law E" and "store_up E" and "dh = hash256 E data"
    and "bGet E (ss_db (sv srv)) (ss_bucket (sv srv)) dh = None"
  shows "\<exists>sv'. api_StoreData E (Delivered w) (srv # rest) sv data dh =
        (Ok \<lparr>sr_StoredKey = EncodeToString dh\<rparr>, sv') \<and> ss_priv (sv' srv) = ss_priv (sv srv) \<and>
      GetStoredData E (ss_bucket (sv' srv)) (ss_db (sv' srv)) (EncodeToString dh) =
        Ok \<lparr>sr_Data = data, sr_DataHash = dh\<rparr>"
proof -
  let ?r = "\<lparr>sr_Data = data, sr_DataHash = dh\<rparr>" and ?s = "sv srv"
  from db_StoreData_accepts [OF assms(1,2), of ?r] assms(3,4) obtain key db' where
    st: "db_StoreData E (ss_bucket ?s) (ss_db ?s) ?r = (Ok key, db')"
    by (fastforce simp: go_simps prod_eq_iff)
  with db_StoreData_OkD [OF assms(1) st] have key: "key = EncodeToString dh" by simp
  from store_upD(1) [OF assms(2)] obtain tx where "bBegin E db' = Ok tx" by blast
  with sc_db.fetch_after_store [OF assms(1) st, of "[]"] key have
    "GetStoredData E (ss_bucket ?s) db' (EncodeToString dh) = Ok ?r" by simp
  moreover have "api_StoreData E (Delivered w) (srv # rest) sv data dh =
      (Ok \<lparr>sr_StoredKey = EncodeToString dh\<rparr>, sv(srv := ?s\<lparr>ss_db := db'\<rparr>))"
    using st key by (simp add: api_StoreData_def SendProtobuf_def StoreData_def)
  ultimately show ?thesis by simp
qed

lemma AddWriteTransaction_proved:
  assumes "ledger_law L" and "ledger_up L" and "calypso_law P" and "0 < w"
  shows "\<exists>t led' p wb. AddWriteTransaction A L P wd sg darc w led = (Ok t, led') \<and>
    checked_proof L msg (tr_InstanceID t) led' = Ok p \<and> LedgerID L led' = LedgerID L led \<and>
    ContractValue L p (ContractSemiWriteID P) = Ok wb \<and>
    decode_SemiWrite P wb = Ok (semi_write_of wd) \<and>
    Proof_Verify L p (LedgerID L led) = Ok ()"
proof -
  from assms(3) obtain wb where wb: "encode_SemiWrite P (semi_write_of wd) = Ok wb"
    "decode_SemiWrite P wb = Ok (semi_write_of wd)"
    by (auto simp: calypso_law_def)
  from spawn_and_prove [OF assms(1,2,4), of "GetID A darc" sg "NewInstanceID L (GetBaseID A darc)"
      zero_nonce "ContractSemiWriteID P" "''write''" wb led] wb
  show ?thesis
    by (fastforce simp: AddWriteTransaction_def checked_proof_def api_GetProof_def Let_def)
qed

lemma AddReadTransaction_proved:
  assumes "ledger_law L" and "ledger_up L" and "calypso_law P" and "0 < w"
  shows "\<exists>t led' p rb rd. AddReadTransaction A L P wp sg darc w led = (Ok t, led') \<and>
    checked_proof L msg (tr_InstanceID t) led' = Ok p \<and> LedgerID L led' = LedgerID L led \<and>
    ContractValue L p (ContractReadID P) = Ok rb \<and> decode_Read P rb = Ok rd \<and>
    rd_Write rd = NewInstanceID L (InclusionKey L wp) \<and>
    Proof_Verify L p (LedgerID L led) = Ok ()"
proof -
  let ?rd = "\<lparr>rd_Write = NewInstanceID L (InclusionKey L wp), rd_Xc = sg_Point sg\<rparr>"
  from assms(3) obtain rb where rb: "encode_Read P ?rd = Ok rb" "decode_Read P rb = Ok ?rd"
    by (auto simp: calypso_law_def)
  from spawn_and_prove [OF assms(1,2,4), of "GetID A darc" sg "NewInstanceID L (InclusionKey L wp)"
      zero_nonce "ContractReadID P" "''read''" rb led] rb
  show ?thesis
    by (fastforce simp: AddReadTransaction_def checked_proof_def api_GetProof_def Let_def)
qed

text \<open>The write and the read of the client, and what their proofs hold.\<close>

lemma ledger_write_and_read:
  assumes "ledger_law L" and "ledger_up L" and "calypso_law P"
  shows "\<exists>t1 led1 wp wb t2 led2 rp rbuf rd.
    AddWriteTransaction A L P wd writer darc 5 led = (Ok t1, led1) \<and>
    checked_proof L msgW (tr_InstanceID t1) led1 = Ok wp \<and>
    AddReadTransaction A L P wp reader darc 5 led1 = (Ok t2, led2) \<and>
    checked_proof L msgR (tr_InstanceID t2) led2 = Ok rp \<and>
    ContractValue L wp (ContractSemiWriteID P) = Ok wb \<and>
    decode_SemiWrite P wb = Ok (semi_write_of wd) \<and>
    ContractValue L rp (ContractReadID P) = Ok rbuf \<and> decode_Read P rbuf = Ok rd \<and>
    rd_Write rd = NewInstanceID L (InclusionKey L wp) \<and>
    Proof_Verify L wp (LedgerID L led2) = Ok () \<and> Proof_Verify L rp (LedgerID L led2) = Ok ()"
proof -
  obtain t1 led1 wp wb where w: "AddWriteTransaction A L P wd writer darc 5 led = (Ok t1, led1)"
    "checked_proof L msgW (tr_InstanceID t1) led1 = Ok wp"
    "LedgerID L led1 = LedgerID L led" "ContractValue L wp (ContractSemiWriteID P) = Ok wb"
    "decode_SemiWrite P wb = Ok (semi_write_of wd)" "Proof_Verify L wp (LedgerID L led) = Ok ()"
    using AddWriteTransaction_proved [where msg = msgW, OF assms, of 5 A wd writer darc led] by auto
  obtain t2 led2 rp rbuf rd where r: "AddReadTransaction A L P wp reader darc 5 led1 = (Ok t2, led2)"
    "checked_proof L msgR (tr_InstanceID t2) led2 = Ok rp"
    "LedgerID L led2 = LedgerID L led1" "ContractValue L rp (ContractReadID P) = Ok rbuf"
    "decode_Read P rbuf = Ok rd" "rd_Write rd = NewInstanceID L (InclusionKey L wp)"
    "Proof_Verify L rp (LedgerID L led1) = Ok ()"
    using AddReadTransaction_proved [where msg = msgR, OF assms, of 5 A wp reader darc led1] by auto
  from w r show ?thesis by auto
qed

lemma api_Decrypt_serves:
  assumes "sign_law S" and "GetStoredData E (ss_bucket (sv srv)) (ss_db (sv srv)) key = Ok sd"
    and "DecodeString key = Ok (sr_DataHash sd)"
    and "ContractValue L rp (ContractReadID P) = Ok rb" "decode_Read P rb = Ok rd"
    and "rd_Write rd = NewInstanceID L (InclusionKey L wp)"
    and "ContractValue L wp (ContractSemiWriteID P) = Ok wb" "decode_SemiWrite P wb = Ok w"
    and "Proof_Verify L rp (LedgerID L led) = Ok ()" "Proof_Verify L wp (LedgerID L led) = Ok ()"
    and "sw_Reader w = Mul S rsk None"
    and "ElGamalDecrypt S (ss_priv (sv srv)) (sw_K w) (sw_C w) = Ok m"
    and "MarshalBinary S (sw_Reader w) = Ok mb" "AeadOpen S m (sw_EncReader w) = Ok mb"
  shows "\<exists>rep. api_Decrypt S L P E r1 r2 (Delivered wrap) (srv # rest) sv led wp rp key rsk =
      (Ok rep, sv) \<and> dp_Data rep = sr_Data sd \<and>
      sc_reencryptData S r1 r2 () w (ss_priv (sv srv)) = Ok (dp_K rep, dp_C rep)"
proof -
  from assms(1,11) obtain sig where sig: "schnorr_Sign S rsk (sr_DataHash sd) = Ok sig"
    and ver: "schnorr_Verify S (sw_Reader w) (sr_DataHash sd) sig = Ok ()"
    by (metis sign_law_def)
  let ?dr = "\<lparr>dr_Write = wp, dr_Read = rp, dr_SCID = LedgerID L led, dr_Key = key, dr_Sig = sig\<rparr>"
  have v: "verifyDecryptRequest S L P ?dr sd = Ok w"
    using assms(3-10) ver by (simp add: verifyDecryptRequest_Ok_iff)
  obtain k c rem where "ElGamalEncrypt S r1 r2 (sw_Reader w) m = (k, c, rem)"
    by (rule prod_cases3)
  with assms(12-14) have re: "sc_reencryptData S r1 r2 () w (ss_priv (sv srv)) = Ok (k, c)"
    by (auto simp: sc_reencryptData_Ok_iff)
  have "api_Decrypt S L P E r1 r2 (Delivered wrap) (srv # rest) sv led wp rp key rsk =
      (Ok \<lparr>dp_Data = sr_Data sd, dp_DataHash = sr_DataHash sd, dp_K = k, dp_C = c\<rparr>, sv)"
    using assms(2,3) sig v re by (simp add: api_Decrypt_def SendProtobuf_def Decrypt_def Let_def)
  with re show ?thesis by simp
qed

text \<open>Only the stores of a run of calls reach the database.\<close>

fun sc_stores :: "('proof, 'scid, 'rnd) sc_call list \<Rightarrow> StoreRequest list" where
  "sc_stores [] = []"
| "sc_stores (CallStoreData r # cs) = r # sc_stores cs"
| "sc_stores (CallDecrypt _ _ _ # cs) = sc_stores cs"

lemma sc_serve_bucket: "ss_bucket (sc_serve S L P E s c) = ss_bucket s"
  by (cases c) (simp_all add: StoreData_def Decrypt_def split_def)

lemma sc_serve_all_bucket: "ss_bucket (sc_serve_all S L P E s cs) = ss_bucket s"
  by (induction cs arbitrary: s) (simp_all add: sc_serve_all_def sc_serve_bucket)

lemma sc_serve_all_db:
  "ss_db (sc_serve_all S L P E s cs) =
     snd (store_all (db_StoreData E (ss_bucket s)) (ss_db s) (sc_stores cs))"
  by (induction cs arbitrary: s rule: sc_stores.induct)
    (simp_all add: sc_serve_all_def StoreData_def Decrypt_def split_def Let_def)

text \<open>The client once the darcs are set up, on a ledger that takes its write and its read.\<close>

lemma sc_share_on_ledger:
  assumes laws: "group_law S" "aead_law S" "sign_law S" "store_law E" "store_up E"
    and adds: "\<And>wd. \<exists>t1 led1 wp wb t2 led2 rp rbuf rd.
      AddWriteTransaction A L P wd writer wDarc 5 led = (Ok t1, led1) \<and>
      checked_proof L ''Write inclusion proof does not match'' (tr_InstanceID t1) led1 = Ok wp \<and>
      AddReadTransaction A L P wp reader wDarc 5 led1 = (Ok t2, led2) \<and>
      checked_proof L ''Read inclusion proof does not match'' (tr_InstanceID t2) led2 = Ok rp \<and>
      ContractValue L wp (ContractSemiWriteID P) = Ok wb \<and>
      decode_SemiWrite P wb = Ok (semi_write_of wd) \<and>
      ContractValue L rp (ContractReadID P) = Ok rbuf \<and> decode_Read P rbuf = Ok rd \<and>
      rd_Write rd = NewInstanceID L (InclusionKey L wp) \<and>
      Proof_Verify L wp (LedgerID L led2) = Ok () \<and> Proof_Verify L rp (LedgerID L led2) = Ok ()"
    and hash: "hash256 E = Sum256 S"
    and draws: "entropy_ok e" "nonceDraw e = Ok n" "readerNonceDraw e = Ok n'"
    and key: "serverKey = Mul S (ss_priv (sv srv)) None"
    and reader: "sg_Point reader = Mul S (sg_Secret reader) None"
      "MarshalBinary S (sg_Point reader) = Ok rb"
    and fresh: "bGet E (ss_db (sv srv)) (ss_bucket (sv srv))
                  (Sum256 S (gcm_Seal S (symKeyDraw e) n data @ n)) = None"
  shows "fst (sc_share S A L P E e r1 r2 (Delivered w1) (Delivered w2) (srv # rest) sv serverKey data
                writer reader wDarc led) = Ok data"
proof -
  let ?R = "sg_Point reader" and ?s = "sv srv"
  obtain wd where wd: "CreateWriteData S e data ?R serverKey True = Ok wd"
    and enc: "Data wd = gcm_Seal S (symKeyDraw e) n data @ n"
    using CreateWriteData_semi [OF draws reader(2), of data serverKey] by auto
  note wdD = CreateWriteData_OkD [OF wd]
    and rec = CreateWriteData_recover [OF laws(1,2) draws(1) wd [unfolded key]]
  have encR: "AeadOpen S (symKeyDraw e) (EncReader wd) = Ok rb"
    using CreateWriteData_encReader [OF laws(2) draws(1) wd] reader(2) by auto
  from wdD(2) hash have dh: "DataHash wd = hash256 E (Data wd)" by simp
  with fresh enc hash have "bGet E (ss_db ?s) (ss_bucket ?s) (DataHash wd) = None" by simp
  from api_StoreData_stores [where sv = sv and srv = srv, OF laws(4,5) dh this, of w1 rest]
  obtain sv' where
    api: "api_StoreData E (Delivered w1) (srv # rest) sv (Data wd) (DataHash wd) =
        (Ok \<lparr>sr_StoredKey = EncodeToString (DataHash wd)\<rparr>, sv')" and
    priv: "ss_priv (sv' srv) = ss_priv ?s" and
    get: "GetStoredData E (ss_bucket (sv' srv)) (ss_db (sv' srv)) (EncodeToString (DataHash wd)) =
        Ok \<lparr>sr_Data = Data wd, sr_DataHash = DataHash wd\<rparr>"
    by blast
  let ?wd = "wd\<lparr>StoredKey := EncodeToString (DataHash wd)\<rparr>"
  obtain t1 led1 wp wb t2 led2 rp rbuf rd where
    led: "AddWriteTransaction A L P ?wd writer wDarc 5 led = (Ok t1, led1)"
      "checked_proof L ''Write inclusion proof does not match'' (tr_InstanceID t1) led1 = Ok wp"
      "AddReadTransaction A L P wp reader wDarc 5 led1 = (Ok t2, led2)"
      "checked_proof L ''Read inclusion proof does not match'' (tr_InstanceID t2) led2 = Ok rp"
    and proofs: "ContractValue L wp (ContractSemiWriteID P) = Ok wb"
      "decode_SemiWrite P wb = Ok (semi_write_of ?wd)"
      "ContractValue L rp (ContractReadID P) = Ok rbuf" "decode_Read P rbuf = Ok rd"
      "rd_Write rd = NewInstanceID L (InclusionKey L wp)"
      "Proof_Verify L wp (LedgerID L led2) = Ok ()" "Proof_Verify L rp (LedgerID L led2) = Ok ()"
    using adds [of ?wd] by blast
  obtain rep where dec: "api_Decrypt S L P E r1 r2 (Delivered w2) (srv # rest) sv' led2 wp rp
        (EncodeToString (DataHash wd)) (sg_Secret reader) = (Ok rep, sv')" "dp_Data rep = Data wd"
    "sc_reencryptData S r1 r2 () (semi_write_of ?wd) (ss_priv ?s) = Ok (dp_K rep, dp_C rep)"
    using api_Decrypt_serves [where sv = sv' and srv = srv and rsk = "sg_Secret reader" and
        m = "symKeyDraw e" and mb = rb and led = led2, OF laws(3) get _ proofs(3-5,1,2,7,6),
        of r1 r2 w2 rest]
      wdD(4) rec(1) encR reader priv by auto
  have "RecoverData S (dp_Data rep) (sg_Secret reader) (dp_K rep) (dp_C rep) = Ok data"
    using sc_relay.relay_recover [OF laws(1) dec(3), of "sg_Secret reader"] dec(2) wdD(4) rec reader
    by simp
  with wd api led dec(1) show ?thesis
    by (simp add: sc_share_def Let_def)
qed

lemma sc_share_ok:
  assumes laws: "group_law S" "aead_law S" "sign_law S" "store_law E" "store_up E"
      "ledger_law L" "ledger_up L" "calypso_law P"
    and hash: "hash256 E = Sum256 S"
    and draws: "entropy_ok e" "nonceDraw e = Ok n" "readerNonceDraw e = Ok n'"
    and key: "serverKey = Mul S (ss_priv (sv srv)) None"
    and reader: "sg_Point reader = Mul S (sg_Secret reader) None"
      "MarshalBinary S (sg_Point reader) = Ok rb"
    and fresh: "bGet E (ss_db (sv srv)) (ss_bucket (sv srv))
                  (Sum256 S (gcm_Seal S (symKeyDraw e) n data @ n)) = None"
  shows "fst (sc_share S A L P E e r1 r2 (Delivered w1) (Delivered w2) (srv # rest) sv serverKey data
                writer reader wDarc led) = Ok data"
  by (rule sc_share_on_ledger [where sv = sv and srv = srv and n = n and n' = n' and rb = rb,
        OF laws(1-5) ledger_write_and_read [OF laws(6-8)] hash draws key reader fresh])

section \<open>A concrete server and ledger for the witnesses\<close>

definition sr_put :: "StoreRequest \<Rightarrow> bytes" where
  "sr_put r = put_bytes (sr_Data r) @ put_bytes (sr_DataHash r)"

definition sr_get :: "bytes \<Rightarrow> StoreRequest option" where
  "sr_get s =
     Option.bind (get_bytes s) (\<lambda>(d, s).
     Option.bind (get_bytes s) (\<lambda>(h, s). Some \<lparr>sr_Data = d, sr_DataHash = h\<rparr>))"

abbreviation sc_env :: "(map_db, StoreRequest) store_env" where
  "sc_env \<equiv> map_env sr_put sr_get"

lemma sr_get_put: "sr_get (sr_put r) = Some r"
  using get_put_bytes [of "sr_DataHash r" "[]"] by (simp add: sr_get_def sr_put_def)

lemma sc_env_law [simp]: "store_law sc_env"
  by (rule map_env_law) (rule sr_get_put)

definition sw_put :: "int SemiWrite \<Rightarrow> bytes" where
  "sw_put w = put_bytes (sw_DataHash w) @ put_int (sw_K w) @ put_int (sw_C w) @
     put_int (sw_Reader w) @ put_bytes (sw_EncReader w)"

definition sw_get :: "bytes \<Rightarrow> int SemiWrite option" where
  "sw_get s =
     Option.bind (get_bytes s) (\<lambda>(h, s).
     Option.bind (get_int s) (\<lambda>(k, s).
     Option.bind (get_int s) (\<lambda>(c, s).
     Option.bind (get_int s) (\<lambda>(r, s).
     Option.bind (get_bytes s) (\<lambda>(er, s).
     Some \<lparr>sw_DataHash = h, sw_K = k, sw_C = c, sw_Reader = r, sw_EncReader = er\<rparr>)))))"

definition rd_put :: "int CalypsoRead \<Rightarrow> bytes" where
  "rd_put r = put_int (rd_Xc r) @ put_bytes (rd_Write r)"

definition rd_get :: "bytes \<Rightarrow> int CalypsoRead option" where
  "rd_get s =
     Option.bind (get_int s) (\<lambda>(x, s).
     Option.bind (get_bytes s) (\<lambda>(w, s). Some \<lparr>rd_Write = w, rd_Xc = x\<rparr>))"

definition example_calypso :: "int calypso" where
  "example_calypso =
     \<lparr>ContractSemiWriteID = ''semiwrite'', ContractReadID = ''read'',
      encode_SemiWrite = (\<lambda>w. Ok (sw_put w)),
      decode_SemiWrite = (\<lambda>b. case sw_get b of None \<Rightarrow> Err (Error ''decode'') | Some w \<Rightarrow> Ok w),
      encode_Read = (\<lambda>r. Ok (rd_put r)),
      decode_Read = (\<lambda>b. case rd_get b of None \<Rightarrow> Err (Error ''decode'') | Some r \<Rightarrow> Ok r)\<rparr>"

lemma sw_get_put: "sw_get (sw_put w) = Some w"
  using get_put_bytes [of "sw_EncReader w" "[]"] by (simp add: sw_get_def sw_put_def)

lemma rd_get_put: "rd_get (rd_put r) = Some r"
  using get_put_bytes [of "rd_Write r" "[]"] by (simp add: rd_get_def rd_put_def)

lemma example_calypso_law [simp]: "calypso_law example_calypso"
  by (simp add: calypso_law_def example_calypso_def sw_get_put rd_get_put)

abbreviation sc_ledger :: "(Instruction list, example_proof, (int, int) key_signer, unit) ledger" where
  "sc_ledger \<equiv> example_ledger"

abbreviation sc_server :: "(int, map_db) SService" where
  "sc_server \<equiv> \<lparr>ss_priv = 7, ss_db = (\<lambda>_ _. None), ss_bucket = [2]\<rparr>"

abbreviation sc_reader :: "(int, int) key_signer" where
  "sc_reader \<equiv> \<lparr>sg_Point = 3, sg_Secret = 3\<rparr>"

abbreviation sc_entropy :: "int entropy" where
  "sc_entropy \<equiv> \<lparr>symKeyDraw = replicate 16 5, nonceDraw = Ok (replicate 12 9), embedDraw = 0,
     scalarDraw = 11, readerNonceDraw = Ok (replicate 12 3)\<rparr>"

lemma sc_entropy_ok [simp]: "entropy_ok sc_entropy"
  by (simp add: entropy_ok_def)

definition example_darcs ::
    "(bytes, (int, int) key_signer, int, unit, unit, Instruction list) darc_api" where
  "example_darcs =
     \<lparr>NewSignerEd25519 = (\<lambda>r. \<lparr>sg_Point = r, sg_Secret = r\<rparr>), NewDarc = (\<lambda>_ _ _. [4]),
      AddRule = (\<lambda>a s d. Ok d), ToProto = Ok, GetBaseID = (\<lambda>d. d), GetID = (\<lambda>d. d),
      ContractDarcID = ''darc'', DefaultGenesisMsg = (\<lambda>_ _ _. Ok ()),
      SetBlockInterval = (\<lambda>_ g. g), GenesisDarc = (\<lambda>_. [5]), NewLedger = (\<lambda>_. Ok [])\<rparr>"

text \<open>A server that holds one ciphertext, a write for it by the reader with key 3 (key bytes
  \<open>replicate 16 5\<close>, sealed reader key), and a read of that write.\<close>

abbreviation sc_server1 :: "(int, map_db) SService" where
  "sc_server1 \<equiv> \<lparr>ss_priv = 7,
     ss_db = (\<lambda>_ _. None)([2] := [[1, 8, 8] \<mapsto> sr_put \<lparr>sr_Data = [8, 8], sr_DataHash = [1, 8, 8]\<rparr>]),
     ss_bucket = [2]\<rparr>"

abbreviation sc_symKey :: bytes where
  "sc_symKey \<equiv> replicate 16 5"

abbreviation sc_write :: "int SemiWrite" where
  "sc_write \<equiv> \<lparr>sw_DataHash = [1, 8, 8], sw_K = 2, sw_C = 14 + bytes_num sc_symKey, sw_Reader = 3,
     sw_EncReader = ([3, 0] @ sc_symKey @ replicate 12 4) @ replicate 12 4\<rparr>"

abbreviation sc_dreq :: "(example_proof, unit) DecryptRequest" where
  "sc_dreq \<equiv> \<lparr>dr_Write = ([6], ''semiwrite'', sw_put sc_write),
     dr_Read = ([6, 1], ''read'', rd_put \<lparr>rd_Write = [6], rd_Xc = 3\<rparr>), dr_SCID = (),
     dr_Key = EncodeToString [1, 8, 8], dr_Sig = [3, 1, 8, 8]\<rparr>"

abbreviation sc_drep :: "int DecryptReply" where
  "sc_drep \<equiv> \<lparr>dp_Data = [8, 8], dp_DataHash = [1, 8, 8], dp_K = 5, dp_C = 15 + bytes_num sc_symKey\<rparr>"

lemma sc_server1_StoreData:
  "StoreData sc_env sc_server \<lparr>sr_Data = [8, 8], sr_DataHash = [1, 8, 8]\<rparr> =
     (Ok \<lparr>sr_StoredKey = EncodeToString [1, 8, 8]\<rparr>, sc_server1)"
  by (simp add: StoreData_def db_StoreData_def DB_Update_def put_if_absent_def Let_def map_env_def
      example_suite_def del: EncodeToString.simps)

lemma sc_server1_GetStoredData:
  "GetStoredData sc_env [2] (ss_db sc_server1) (EncodeToString [1, 8, 8]) =
     Ok \<lparr>sr_Data = [8, 8], sr_DataHash = [1, 8, 8]\<rparr>"
  unfolding GetStoredData_iff [OF sc_env_law]
  by (simp add: sr_get_put map_env_def del: EncodeToString.simps)

lemma sc_server1_reencrypt:
  "sc_reencryptData example_suite 0 5 () sc_write 7 = Ok (5, 15 + bytes_num sc_symKey)"
proof -
  have "AeadOpen example_suite sc_symKey (sw_EncReader sc_write) = Ok [3, 0]"
    by (simp add: AeadOpen_Ok_iff example_suite_def example_Open_def Let_def)
  moreover have "num_bytes 29 (bytes_num sc_symKey) = Ok sc_symKey"
    by (rule num_bytes_num) simp
  ultimately show ?thesis
    by (simp add: sc_reencryptData_Ok_iff ElGamalDecrypt_def ElGamalEncrypt_def
        example_suite_def Let_def del: bytes_num.simps replicate.simps)
qed

lemma sc_server1_Decrypt:
  "Decrypt example_suite sc_ledger example_calypso sc_env 0 5 sc_server1 sc_dreq =
     (Ok sc_drep, sc_server1)"
proof -
  have "verifyDecryptRequest example_suite sc_ledger example_calypso sc_dreq
      \<lparr>sr_Data = [8, 8], sr_DataHash = [1, 8, 8]\<rparr> = Ok sc_write"
    by (simp add: verifyDecryptRequest_Ok_iff example_ledger_def example_calypso_def sw_get_put
        rd_get_put example_suite_def del: EncodeToString.simps bytes_num.simps replicate.simps)
  with sc_server1_GetStoredData sc_server1_reencrypt show ?thesis
    by (simp add: Decrypt_def del: EncodeToString.simps bytes_num.simps replicate.simps)
qed

section \<open>Properties\<close>

text \<open>C2. Round trip of the semi-centralised system: once the darcs are set up, the client that
  stores a ciphertext, adds the write and the read to the ledger, proves both, asks the server
  for the key and recovers, gets exactly the data it started from, for all data, keys and random
  draws, when the transport, the database and the ledger are up and the hash is not taken.\<close>

theorem semi_centralized_roundtrip:
  assumes laws: "group_law S" "aead_law S" "sign_law S" "store_law E" "store_up E"
      "ledger_law L" "ledger_up L" "calypso_law P"
    and hash: "hash256 E = Sum256 S"
    and draws: "entropy_ok e" "nonceDraw e = Ok n" "readerNonceDraw e = Ok n'"
    and key: "serverKey = Mul S (ss_priv (sv srv)) None"
    and reader: "sg_Point reader = Mul S (sg_Secret reader) None"
      "MarshalBinary S (sg_Point reader) = Ok rb"
    and fresh: "bGet E (ss_db (sv srv)) (ss_bucket (sv srv))
                  (Sum256 S (gcm_Seal S (symKeyDraw e) n data @ n)) = None"
  shows "fst (sc_share S A L P E e r1 r2 (Delivered w1) (Delivered w2) (srv # rest) sv serverKey data
                writer reader wDarc led) = Ok data"
  by (rule sc_share_ok [where sv = sv and srv = srv and n = n and n' = n' and rb = rb, OF assms])

theorem semi_centralized_roundtrip_witness:
  "fst (sc_share example_suite example_darcs sc_ledger example_calypso sc_env sc_entropy 1 2
          (Delivered id) (Delivered id) [()] (\<lambda>_. sc_server) 7 [72, 105] sc_reader sc_reader [4] []) =
     Ok [72, 105]"
  by (rule semi_centralized_roundtrip [where n = "replicate 12 9" and n' = "replicate 12 3" and
        rb = "[3, 0]"])
    (simp_all, simp_all add: example_suite_def)

text \<open>C3. Authorisation of decryption: the server answers only if the two proofs verify against
  the ledger the request names, the read instance points to the write instance, the key names
  stored data, the request is signed by the reader of the write, and the reader key sealed under
  the write's key is that reader's key. The answer holds the stored data and the write's key,
  re-encrypted to that reader, and the server is unchanged.\<close>

theorem semi_decrypt_authorised:
  assumes "group_law S" and "Decrypt S L P E r1 r2 s req = (Ok rep, s')"
  shows "s' = s \<and> (\<exists>sd w rd rb wb key mb.
    Proof_Verify L (dr_Read req) (dr_SCID req) = Ok () \<and>
    Proof_Verify L (dr_Write req) (dr_SCID req) = Ok () \<and>
    ContractValue L (dr_Read req) (ContractReadID P) = Ok rb \<and> decode_Read P rb = Ok rd \<and>
    ContractValue L (dr_Write req) (ContractSemiWriteID P) = Ok wb \<and> decode_SemiWrite P wb = Ok w \<and>
    rd_Write rd = NewInstanceID L (InclusionKey L (dr_Write req)) \<and>
    GetStoredData E (ss_bucket s) (ss_db s) (dr_Key req) = Ok sd \<and>
    DecodeString (dr_Key req) = Ok (sr_DataHash sd) \<and>
    schnorr_Verify S (sw_Reader w) (sr_DataHash sd) (dr_Sig req) = Ok () \<and>
    ElGamalDecrypt S (ss_priv s) (sw_K w) (sw_C w) = Ok key \<and>
    MarshalBinary S (sw_Reader w) = Ok mb \<and> AeadOpen S key (sw_EncReader w) = Ok mb \<and>
    dp_Data rep = sr_Data sd \<and>
    (\<forall>rsk. sw_Reader w = Mul S rsk None \<longrightarrow>
       ElGamalDecrypt S rsk (dp_K rep) (dp_C rep) = Ok key))"
proof -
  from assms(2) obtain sd w where s': "s' = s"
    and sd: "GetStoredData E (ss_bucket s) (ss_db s) (dr_Key req) = Ok sd"
    and v: "verifyDecryptRequest S L P req sd = Ok w"
    and re: "sc_reencryptData S r1 r2 () w (ss_priv s) = Ok (dp_K rep, dp_C rep)"
    and d: "dp_Data rep = sr_Data sd"
    by (auto simp: Decrypt_Ok_iff)
  from re obtain key mb where key: "ElGamalDecrypt S (ss_priv s) (sw_K w) (sw_C w) = Ok key"
    "MarshalBinary S (sw_Reader w) = Ok mb" "AeadOpen S key (sw_EncReader w) = Ok mb"
    by (auto simp: sc_reencryptData_Ok_iff)
  have "\<forall>rsk. sw_Reader w = Mul S rsk None \<longrightarrow>
      ElGamalDecrypt S rsk (dp_K rep) (dp_C rep) = Ok key"
    using sc_relay.relay_same_key [OF assms(1) re] key(1) by simp
  with s' sd d key v [unfolded verifyDecryptRequest_Ok_iff] show ?thesis by blast
qed

theorem semi_decrypt_authorised_witness:
  "\<exists>(w :: int SemiWrite) (sd :: StoreRequest).
     schnorr_Verify example_suite (sw_Reader w) (sr_DataHash sd) (dr_Sig sc_dreq) = Ok () \<and>
     DecodeString (dr_Key sc_dreq) = Ok (sr_DataHash sd) \<and> dp_Data sc_drep = sr_Data sd"
  using semi_decrypt_authorised [OF example_group_law sc_server1_Decrypt] by blast

text \<open>C14. The reader is bound to the key: take a write made by \<open>CreateWriteData\<close> for one reader and
  put another reader's public key into it (one with another encoding). The server refuses to
  re-encrypt the key, with the error the source gives.\<close>

theorem semi_reader_substitution_rejected:
  assumes "group_law S" and "aead_law S" and "entropy_ok e"
    and "CreateWriteData S e data reader (Mul S sk None) True = Ok wd"
    and "MarshalBinary S reader = Ok rb" and "MarshalBinary S other = Ok ob" and "ob \<noteq> rb"
  shows "sc_reencryptData S r1 r2 () \<lparr>sw_DataHash = DataHash wd, sw_K = K wd, sw_C = C wd,
      sw_Reader = other, sw_EncReader = EncReader wd\<rparr> sk =
    Err (Error ''Reader public key does not match'')"
proof -
  have "ElGamalDecrypt S sk (K wd) (C wd) = Ok (symKeyDraw e)"
    using CreateWriteData_recover(1) [OF assms(1-4)] .
  moreover have "AeadOpen S (symKeyDraw e) (EncReader wd) = Ok rb"
    using CreateWriteData_encReader [OF assms(2-4)] assms(5) by simp
  ultimately show ?thesis
    using assms(6,7) by (simp add: sc_reencryptData_def CompareKeys_def)
qed

theorem semi_reader_substitution_rejected_witness:
  "\<exists>wd. CreateWriteData example_suite sc_entropy [8] 3 7 True = Ok wd \<and>
     sc_reencryptData example_suite 0 5 () \<lparr>sw_DataHash = DataHash wd, sw_K = K wd, sw_C = C wd,
       sw_Reader = 4, sw_EncReader = EncReader wd\<rparr> 7 =
     Err (Error ''Reader public key does not match'')"
proof -
  have mb: "MarshalBinary example_suite 3 = Ok [3, 0]" "MarshalBinary example_suite 4 = Ok [4, 0]"
    by (simp_all add: example_suite_def)
  obtain wd where wd: "CreateWriteData example_suite sc_entropy [8] 3 7 True = Ok wd"
    using CreateWriteData_semi [OF sc_entropy_ok _ _ mb(1), of _ _ "[8]" 7] by auto
  moreover have "Mul example_suite 7 None = 7" by (simp add: example_suite_def)
  ultimately show ?thesis
    using semi_reader_substitution_rejected [OF example_group_law example_aead_law sc_entropy_ok _
        mb, of "[8]" 7 wd 0 5] by auto
qed

text \<open>C16. Stored ciphertexts are immutable and authentic: after a ciphertext was stored, and after
  any further sequence of stores and decryption requests, its key still looks up exactly it; and
  on a server whose bucket was empty, what any key looks up hashes to that key.\<close>

theorem semi_store_immutable:
  assumes "store_law E" and "\<And>k. bGet E (ss_db s0) (ss_bucket s0) k = None"
    and "s = sc_serve_all S L P E s0 before"
    and "StoreData E s req = (Ok rep, s1)" and "s2 = sc_serve_all S L P E s1 after"
    and "bBegin E (ss_db s2) = Ok tx"
  shows "GetStoredData E (ss_bucket s2) (ss_db s2) (sr_StoredKey rep) = Ok req \<and>
    (\<forall>key r. GetStoredData E (ss_bucket s2) (ss_db s2) key = Ok r \<longrightarrow>
       DecodeString key = Ok (hash256 E (sr_Data r)))"
proof -
  let ?b = "ss_bucket s0"
  from assms(4) obtain db1 where
    st: "db_StoreData E (ss_bucket s) (ss_db s) req = (Ok (sr_StoredKey rep), db1)"
    and s1: "s1 = s\<lparr>ss_db := db1\<rparr>"
    by (auto simp: StoreData_Ok_iff)
  have b: "ss_bucket s = ?b" "ss_bucket s2 = ?b"
    by (simp_all add: assms(3,5) sc_serve_all_bucket s1)
  have run: "store_all (db_StoreData E (ss_bucket s)) db1 (sc_stores after) =
      (fst (store_all (db_StoreData E (ss_bucket s)) db1 (sc_stores after)), ss_db s2)"
    by (simp add: assms(5) sc_serve_all_db s1)
  have "content_addressed sr_Data sr_DataHash E ?b (ss_db s0)"
    by (simp add: content_addressed_def assms(2))
  from sc_db.store_all_content_addressed [OF assms(1) this, of "sc_stores before"]
  have "content_addressed sr_Data sr_DataHash E ?b (ss_db s)"
    by (simp add: assms(3) sc_serve_all_db)
  from sc_db.store_content_addressed [OF assms(1) this] st b
  have "content_addressed sr_Data sr_DataHash E ?b db1" by simp
  from sc_db.store_all_content_addressed [OF assms(1) this, of "sc_stores after"] run b
  have "content_addressed sr_Data sr_DataHash E ?b (ss_db s2)" by (metis snd_conv)
  from sc_db.fetch_authentic [OF assms(1) this] sc_db.fetch_after_store [OF assms(1) st run assms(6)] b
  show ?thesis by auto
qed

theorem semi_store_immutable_witness:
  "GetStoredData sc_env [2] (ss_db sc_server1) (EncodeToString [1, 8, 8]) =
     Ok \<lparr>sr_Data = [8, 8], sr_DataHash = [1, 8, 8]\<rparr>"
proof -
  have b: "bBegin sc_env (ss_db sc_server1) = Ok (ss_db sc_server1)" by (simp add: map_env_def)
  have "sc_server1 = sc_serve_all example_suite sc_ledger example_calypso sc_env sc_server1
      [CallDecrypt 0 5 sc_dreq]"
    by (simp add: sc_serve_all_def Decrypt_def)
  from semi_store_immutable [OF sc_env_law _ _ sc_server1_StoreData this b, of sc_server "[]"]
  show ?thesis by (simp add: sc_serve_all_def del: EncodeToString.simps)
qed

end
