(* ===== verification/Ledger_Rows.thy ===== *)
theory Ledger_Rows
  imports Byzcoin_Api Example_Env
begin

text \<open>
  Rows of transactions as the semi-centralised simulation adds them: each with \<open>AddTransactionAndWait\<close>,
  only the last one with a wait. \<open>row_law\<close> is what the simulation relies on; for a row of one transaction
  it is \<open>ledger_law\<close>.
\<close>

section \<open>The law\<close>

definition spawn_row ::
    "('led, 'proof, 'signer, 'scid) ledger \<Rightarrow> Instruction list \<Rightarrow> int \<Rightarrow> 'led \<Rightarrow> unit list go \<times> 'led" where
  "spawn_row L inss w =
     mapS (\<lambda>i. AddTransactionAndWait L [inss ! i] (row_wait (length inss) w i)) [0..<length inss]"

inductive tx_later :: "('led, 'proof, 'signer, 'scid) ledger \<Rightarrow> 'led \<Rightarrow> 'led \<Rightarrow> bool" for L where
  tx_refl [intro]: "tx_later L led led"
| tx_add: "tx_later L led led' \<Longrightarrow> tx_later L led (snd (AddTransactionAndWait L inss w led'))"

lemma tx_later_trans: "tx_later L led' led'' \<Longrightarrow> tx_later L led led' \<Longrightarrow> tx_later L led led''"
  by (induction rule: tx_later.induct) (auto intro: tx_add)

text \<open>The proof of an instruction that spawns an instance of \<open>cid\<close> with the argument \<open>val\<close>.\<close>

definition proves ::
    "('led, 'proof, 'signer, 'scid) ledger \<Rightarrow> 'led \<Rightarrow> bytes \<Rightarrow> string \<Rightarrow> bytes \<Rightarrow> 'proof \<Rightarrow> bool" where
  "proves L led iid cid val p \<longleftrightarrow>
     GetProof L iid led = Ok p \<and> Match L p \<and> InclusionKey L p = iid \<and> ContractValue L p cid = Ok val \<and>
     Proof_Verify L p (LedgerID L led) = Ok ()"

text \<open>
  When the wait for the last transaction of a row returns, all of the row is in the ledger and stays there;
  the ID of an instance is a hash of what is spawned.
\<close>

definition row_law :: "('led, 'proof, 'signer, 'scid) ledger \<Rightarrow> bool" where
  "row_law L \<longleftrightarrow>
     (\<forall>inss w led us led' led'' ins cid name val.
        0 < w \<longrightarrow> spawn_row L inss w led = (Ok us, led') \<longrightarrow> tx_later L led' led'' \<longrightarrow> ins \<in> set inss \<longrightarrow>
        in_Spawn ins = Some \<lparr>sp_ContractID = cid, sp_Args = [\<lparr>arg_Name = name, arg_Value = val\<rparr>]\<rparr> \<longrightarrow>
        (\<exists>p. proves L led'' (DeriveID L ins []) cid val p)) \<and>
     (\<forall>inss w led. LedgerID L (snd (AddTransactionAndWait L inss w led)) = LedgerID L led) \<and>
     (\<forall>d sg ins ins'. SignBy L d sg ins = Ok ins' \<longrightarrow> in_Spawn ins' = in_Spawn ins)"

lemma row_law_proof:
  assumes "row_law L" and "0 < w" and "spawn_row L inss w led = (Ok us, led')" and "tx_later L led' led''"
    and "ins \<in> set inss"
    and "in_Spawn ins = Some \<lparr>sp_ContractID = cid, sp_Args = [\<lparr>arg_Name = name, arg_Value = val\<rparr>]\<rparr>"
  shows "\<exists>p. proves L led'' (DeriveID L ins []) cid val p"
  by (rule assms(1) [unfolded row_law_def, THEN conjunct1, rule_format, OF assms(2-6)])

lemma row_law_sign: "row_law L \<Longrightarrow> SignBy L d sg ins = Ok ins' \<Longrightarrow> in_Spawn ins' = in_Spawn ins"
  unfolding row_law_def by blast

lemma row_law_ID:
  assumes "row_law L" and "tx_later L led led'"
  shows "LedgerID L led' = LedgerID L led"
  using assms(2) by (induction rule: tx_later.induct) (use assms(1) in \<open>simp_all add: row_law_def\<close>)

lemma row_law_ledger_law:
  assumes "row_law L"
  shows "ledger_law L"
  unfolding ledger_law_def
proof (intro conjI allI impI)
  fix ins w led led' cid name val
  assume "0 < w" and "AddTransactionAndWait L [ins] w led = (Ok (), led')"
    and ins: "in_Spawn ins = Some \<lparr>sp_ContractID = cid, sp_Args = [\<lparr>arg_Name = name, arg_Value = val\<rparr>]\<rparr>"
  then have "spawn_row L [ins] w led = (Ok [()], led')" by (simp add: spawn_row_def row_wait_def)
  from row_law_proof [OF assms \<open>0 < w\<close> this tx_refl _ ins]
  show "\<exists>p. GetProof L (DeriveID L ins []) led' = Ok p \<and> Match L p \<and> InclusionKey L p = DeriveID L ins [] \<and>
      ContractValue L p cid = Ok val \<and> Proof_Verify L p (LedgerID L led') = Ok ()"
    by (auto simp: proves_def)
next
  fix inss w led
  show "LedgerID L (snd (AddTransactionAndWait L inss w led)) = LedgerID L led"
    using assms by (simp add: row_law_def)
next
  fix d sg ins ins'
  assume "SignBy L d sg ins = Ok ins'"
  then show "in_Spawn ins' = in_Spawn ins" by (rule row_law_sign [OF assms])
qed

lemma spawn_row_enumerate:
  "spawn_row L inss w led =
     mapS (\<lambda>(i, ins). AddTransactionAndWait L [ins] (row_wait (length inss) w i)) (enumerate 0 inss) led"
  unfolding spawn_row_def
  by (rule mapS_enumerate [where f = "\<lambda>i ins. AddTransactionAndWait L [ins] (row_wait (length inss) w i)"])

lemma mapS_later:
  assumes "\<And>x led. \<exists>inss w. f x led = AddTransactionAndWait L inss w led"
  shows "tx_later L led (snd (mapS f xs led))"
proof (induction xs arbitrary: led)
  case (Cons x xs)
  obtain inss w where "f x led = AddTransactionAndWait L inss w led" using assms by blast
  then have 1: "tx_later L led (snd (f x led))" using tx_add [OF tx_refl] by simp
  obtain r led1 where f: "f x led = (r, led1)" by (cases "f x led")
  have "tx_later L led (snd (mapS f xs led1))" using tx_later_trans [OF Cons] 1 f by simp
  with 1 f show ?case by (cases r) (auto simp: bindS_def split: go.splits)
qed auto

lemma spawn_row_later: "spawn_row L inss w led = (r, led') \<Longrightarrow> tx_later L led led'"
  using mapS_later [of "\<lambda>i. AddTransactionAndWait L [inss ! i] (row_wait (length inss) w i)" L led "[0..<length inss]"]
  by (auto simp: spawn_row_def)

lemma spawn_row_up:
  assumes "ledger_up L"
  shows "\<exists>us led'. spawn_row L inss w led = (Ok us, led')"
  using mapS_up [of "[0..<length inss]" "\<lambda>i. AddTransactionAndWait L [inss ! i] (row_wait (length inss) w i)" led] assms
  by (auto simp: spawn_row_def ledger_up_def)

section \<open>A concrete ledger\<close>

text \<open>The ledger is the list of the instructions, the newest first; an ID is an encoding of what is
  spawned.\<close>

definition put_string :: "string \<Rightarrow> bytes" where
  "put_string s = put_bytes (map of_char s)"

fun put_args :: "Argument list \<Rightarrow> bytes" where
  "put_args [] = [0]"
| "put_args (a # as) = 1 # put_string (arg_Name a) @ put_bytes (arg_Value a) @ put_args as"

definition spawn_ID :: "Instruction \<Rightarrow> string \<Rightarrow> bytes" where
  "spawn_ID ins what =
     (case in_Spawn ins of None \<Rightarrow> [] | Some sp \<Rightarrow> put_string (sp_ContractID sp) @ put_args (sp_Args sp))"

lemma put_bytes_append: "put_bytes a @ r = put_bytes b @ r' \<longleftrightarrow> a = b \<and> r = r'"
  using get_put_bytes [of a r] get_put_bytes [of b r'] by (metis option.inject prod.inject)

lemma of_char_byte: "(of_char c :: byte) = of_char d \<longleftrightarrow> c = d"
proof -
  have m: "unat (of_nat m :: byte) = m" if "m < 256" for m :: nat using that by (simp add: unat_of_nat)
  have lt: "(of_char x :: nat) < 256" for x by simp
  have n: "unat (of_char x :: byte) = of_char x" for x
    using m [OF lt] by (simp only: of_nat_of_char)
  show ?thesis
  proof
    assume "(of_char c :: byte) = of_char d"
    from arg_cong [OF this, of unat] have "(of_char c :: nat) = of_char d" by (simp only: n)
    then show "c = d" by simp
  qed simp
qed

lemma put_string_append: "put_string a @ r = put_string b @ r' \<longleftrightarrow> a = b \<and> r = r'"
proof -
  have "inj (of_char :: char \<Rightarrow> byte)" by (rule injI) (simp add: of_char_byte)
  then show ?thesis by (simp add: put_string_def put_bytes_append inj_map_eq_map)
qed

lemma put_args_inj: "put_args as = put_args bs \<longleftrightarrow> as = bs"
proof (induction as arbitrary: bs)
  case Nil
  then show ?case by (cases bs) simp_all
next
  case (Cons a "as")
  show ?case
  proof (cases bs)
    case (Cons b bs')
    have "a = b \<longleftrightarrow> arg_Name a = arg_Name b \<and> arg_Value a = arg_Value b" by (cases a; cases b) simp
    then show ?thesis by (simp add: Cons Cons.IH put_string_append put_bytes_append del: put_bytes.simps)
  qed simp
qed

lemma spawn_ID_inj:
  assumes "spawn_ID a w = spawn_ID b w'" and "in_Spawn a = Some sp"
  shows "in_Spawn b = Some sp"
proof (cases "in_Spawn b")
  case None
  have "put_bytes x \<noteq> []" for x by (cases x) simp_all
  with assms None show ?thesis by (simp add: spawn_ID_def put_string_def)
next
  case (Some sp')
  with assms show ?thesis by (cases sp; cases sp') (simp add: spawn_ID_def put_string_append put_args_inj)
qed

fun spawn_proof :: "bytes \<Rightarrow> Instruction list \<Rightarrow> example_proof go" where
  "spawn_proof iid [] = Err (Error ''no proof'')"
| "spawn_proof iid (i # is) =
     (if spawn_ID i [] = iid
      then (case in_Spawn i of
              Some sp \<Rightarrow> (case sp_Args sp of [a] \<Rightarrow> Ok (iid, sp_ContractID sp, arg_Value a) | _ \<Rightarrow> Err (Error ''no value''))
            | None \<Rightarrow> Err (Error ''not a spawn''))
      else spawn_proof iid is)"

definition spawn_ledger :: "(Instruction list, example_proof, 'signer, unit) ledger" where
  "spawn_ledger = example_ledger\<lparr>DeriveID := spawn_ID, GetProof := spawn_proof\<rparr>"

lemma spawn_proof_found:
  assumes "ins \<in> set led"
    and "in_Spawn ins = Some \<lparr>sp_ContractID = cid, sp_Args = [\<lparr>arg_Name = name, arg_Value = val\<rparr>]\<rparr>"
  shows "spawn_proof (spawn_ID ins []) led = Ok (spawn_ID ins [], cid, val)"
  using assms(1) by (induction led) (auto simp: assms(2) dest: spawn_ID_inj [OF sym, OF _ assms(2)])

lemma spawn_ledger_row: "spawn_row spawn_ledger inss w led = (Ok us, led') \<Longrightarrow> set inss \<subseteq> set led'"
proof -
  have "mapS (\<lambda>(i, ins). AddTransactionAndWait spawn_ledger [ins] (v i)) (enumerate k xs) led = (Ok us, led') \<Longrightarrow>
      set xs \<union> set led \<subseteq> set led'" for v k xs us
    by (induction xs arbitrary: k led us) (fastforce simp: go_simps spawn_ledger_def example_ledger_def)+
  then show "spawn_row spawn_ledger inss w led = (Ok us, led') \<Longrightarrow> set inss \<subseteq> set led'"
    unfolding spawn_row_enumerate by blast
qed

lemma spawn_ledger_later: "tx_later spawn_ledger led led' \<Longrightarrow> set led \<subseteq> set led'"
  by (induction rule: tx_later.induct) (auto simp: spawn_ledger_def example_ledger_def)

lemma spawn_ledger_law [simp]: "row_law spawn_ledger"
proof -
  have "\<exists>p. proves spawn_ledger led'' (DeriveID spawn_ledger ins []) cid val p"
    if "spawn_row spawn_ledger inss w led = (Ok us, led')" "tx_later spawn_ledger led' led''" "ins \<in> set inss"
      "in_Spawn ins = Some \<lparr>sp_ContractID = cid, sp_Args = [\<lparr>arg_Name = name, arg_Value = val\<rparr>]\<rparr>"
    for inss w led us led' led'' ins cid name val
    using spawn_proof_found [OF _ that(4), of led''] spawn_ledger_row [OF that(1)] spawn_ledger_later [OF that(2)] that(3)
    by (auto simp: proves_def spawn_ledger_def example_ledger_def)
  then show ?thesis unfolding row_law_def
    by (intro conjI) (blast, simp_all add: spawn_ledger_def example_ledger_def)
qed

lemma spawn_ledger_up [simp]: "ledger_up spawn_ledger"
  by (simp add: ledger_up_def spawn_ledger_def example_ledger_def)

end
