(* ===== verification/Goroutines.thy ===== *)
theory Goroutines
  imports Go_Prelude
begin

text \<open>
  The goroutines of the simulations with many clients: each client adds a read, asks for its proof and
  has its data decrypted, all at the same time and on the same ledger, and \<open>wg.Wait()\<close> returns when
  all are done. A goroutine is a state that moves in steps, one for each call it makes; a schedule is the
  list of the goroutines in the order in which they move. The locale \<open>goroutine_pool\<close> holds what is
  true of any such group: it ends under every schedule that lets each one move often enough.
\<close>

section \<open>Schedules\<close>

definition sched_step :: "(nat \<Rightarrow> 'g \<Rightarrow> 's \<Rightarrow> 'g \<times> 's) \<Rightarrow> nat \<Rightarrow> 'g list \<times> 's \<Rightarrow> 'g list \<times> 's" where
  "sched_step step i c =
     (case c of (gs, s) \<Rightarrow>
        if i < length gs then (case step i (gs ! i) s of (g, s') \<Rightarrow> (gs[i := g], s')) else (gs, s))"

primrec run_sched :: "(nat \<Rightarrow> 'g \<Rightarrow> 's \<Rightarrow> 'g \<times> 's) \<Rightarrow> nat list \<Rightarrow> 'g list \<times> 's \<Rightarrow> 'g list \<times> 's" where
  "run_sched step [] c = c"
| "run_sched step (i # is) c = run_sched step is (sched_step step i c)"

locale goroutine_pool =
  fixes step :: "nat \<Rightarrow> 'g \<Rightarrow> 's \<Rightarrow> 'g \<times> 's" and rank :: "'g \<Rightarrow> nat"
  assumes done_stays: "rank g = 0 \<Longrightarrow> step i g s = (g, s)"
    and step_rank: "0 < rank g \<Longrightarrow> rank (fst (step i g s)) < rank g"
begin

lemma sched_length: "length (fst (run_sched step is c)) = length (fst c)"
  by (induction "is" arbitrary: c) (auto simp: sched_step_def split: prod.splits)

text \<open>A goroutine with rank \<open>k\<close> is done once it has moved \<open>k\<close> times.\<close>

lemma fair_sched_ends:
  assumes "\<And>i. i < length gs \<Longrightarrow> rank (gs ! i) \<le> count_list is i" and "j < length gs"
  shows "rank (fst (run_sched step is (gs, s)) ! j) = 0"
  using assms
proof (induction "is" arbitrary: gs s)
  case (Cons k ks)
  obtain gs' s' where c: "sched_step step k (gs, s) = (gs', s')" by (cases "sched_step step k (gs, s)")
  then have len: "length gs' = length gs" by (auto simp: sched_step_def split: if_splits prod.splits)
  have "rank (gs' ! i) \<le> count_list ks i" if "i < length gs" for i
  proof (cases "i = k")
    case True
    with c that have g: "gs' ! i = fst (step i (gs ! i) s)"
      by (auto simp: sched_step_def split: prod.splits)
    show ?thesis
      unfolding g using Cons.prems(1) [OF that] True step_rank [of "gs ! i" i s] done_stays [of "gs ! i" i s]
      by (cases "rank (gs ! i)") auto
  next
    case False
    with c have "gs' ! i = gs ! i" by (auto simp: sched_step_def split: if_splits prod.splits)
    with Cons.prems(1) [OF that] False show ?thesis by simp
  qed
  with Cons.IH [of gs' s'] Cons.prems(2) len c show ?case by simp
qed simp

text \<open>An invariant of every goroutine and the shared state, kept by its own steps and those of the others.\<close>

lemma sched_invariant:
  assumes "\<And>i g s. i < n \<Longrightarrow> P i g s \<Longrightarrow> P i (fst (step i g s)) (snd (step i g s))"
    and "\<And>i j g h s. i < n \<Longrightarrow> i \<noteq> j \<Longrightarrow> P i g s \<Longrightarrow> P j h s \<Longrightarrow> P j h (snd (step i g s))"
    and "\<And>i. i < n \<Longrightarrow> P i (gs ! i) s" and "length gs = n"
    and "run_sched step is (gs, s) = (gs', s')" and "j < n"
  shows "P j (gs' ! j) s'"
  using assms(3-5)
proof (induction "is" arbitrary: gs s)
  case (Cons k ks)
  obtain hs t where c: "sched_step step k (gs, s) = (hs, t)" by (cases "sched_step step k (gs, s)")
  then have len: "length hs = length gs" by (auto simp: sched_step_def split: if_splits prod.splits)
  have "P i (hs ! i) t" if "i < n" for i
    using c Cons.prems(1) [OF that] Cons.prems(1) [of k] assms(1) [of k "gs ! k" s]
      assms(2) [of k i "gs ! k" s "gs ! i"] that Cons.prems(2)
    by (auto simp: sched_step_def nth_list_update split: if_splits prod.splits)
  with Cons.IH [of hs t] Cons.prems(2,3) len c show ?case by simp
qed (use assms(6) in simp)

lemma sched_none: "run_sched step is ([], s) = ([], s)"
  by (induction "is") (simp_all add: sched_step_def)

end

section \<open>A client\<close>

text \<open>The body of the two \<open>decrypt\<close> functions: \<open>add\<close> adds the read, \<open>prove\<close> asks for its proof and
  \<open>decrypt\<close> asks for the key and compares what it opens.\<close>

datatype 'proof client =
    Reading
  | Proving bytes
  | Decrypting 'proof
  | Finished "unit go"

primrec client_rank :: "'proof client \<Rightarrow> nat" where
  "client_rank Reading = 3"
| "client_rank (Proving iid) = 2"
| "client_rank (Decrypting p) = 1"
| "client_rank (Finished r) = 0"

primrec next_client :: "('a \<Rightarrow> 'proof client) \<Rightarrow> 'a go \<Rightarrow> 'proof client" where
  "next_client f (Ok x) = f x"
| "next_client f (Err e) = Finished (Err e)"
| "next_client f (Panic p) = Finished (Panic p)"

primrec client_step ::
    "('s \<Rightarrow> bytes go \<times> 's) \<Rightarrow> (bytes \<Rightarrow> 's \<Rightarrow> 'proof go) \<Rightarrow> ('proof \<Rightarrow> 's \<Rightarrow> unit go \<times> 's)
      \<Rightarrow> 'proof client \<Rightarrow> 's \<Rightarrow> 'proof client \<times> 's" where
  "client_step add prove decrypt Reading s = (case add s of (r, s') \<Rightarrow> (next_client Proving r, s'))"
| "client_step add prove decrypt (Proving iid) s = (next_client Decrypting (prove iid s), s)"
| "client_step add prove decrypt (Decrypting p) s = (case decrypt p s of (r, s') \<Rightarrow> (Finished r, s'))"
| "client_step add prove decrypt (Finished r) s = (Finished r, s)"

interpretation clients: goroutine_pool "\<lambda>i. client_step (add i) (prove i) (decrypt i)" client_rank
proof
  fix g :: "'b client" and i s
  show "client_rank g = 0 \<Longrightarrow> client_step (add i) (prove i) (decrypt i) g s = (g, s)"
    by (cases g) simp_all
  have r: "client_rank (next_client f x) \<le> n" if "\<And>y. client_rank (f y) \<le> n" for f :: "'z \<Rightarrow> 'b client" and x n
    using that by (cases x) simp_all
  show "0 < client_rank g \<Longrightarrow> client_rank (fst (client_step (add i) (prove i) (decrypt i) g s)) < client_rank g"
    using r [of Proving 2] r [of Decrypting 1] by (cases g) (auto simp: less_Suc_eq_le numeral_3_eq_3 numeral_2_eq_2 split: prod.splits)
qed

text \<open>The loop that starts the clients, and \<open>wg.Wait()\<close>: \<open>None\<close> while one of them is not done. The
  errors of the clients are logged; the list has them. A panic of one ends the program.\<close>

primrec client_result :: "'proof client \<Rightarrow> unit go option" where
  "client_result Reading = None"
| "client_result (Proving iid) = None"
| "client_result (Decrypting p) = None"
| "client_result (Finished r) = Some r"

definition run_clients ::
    "(nat \<Rightarrow> 'proof client \<Rightarrow> 's \<Rightarrow> 'proof client \<times> 's) \<Rightarrow> nat list \<Rightarrow> nat \<Rightarrow> 's
      \<Rightarrow> (unit go list go \<times> 's) option" where
  "run_clients step sched n s =
     (case run_sched step sched (replicate n Reading, s) of
        (gs, s') \<Rightarrow>
          (case those (map client_result gs) of
             None \<Rightarrow> None
           | Some rs \<Rightarrow>
               (case find (\<lambda>r. case r of Panic _ \<Rightarrow> True | _ \<Rightarrow> False) rs of
                  Some (Panic p) \<Rightarrow> Some (Panic p, s')
                | _ \<Rightarrow> Some (Ok rs, s'))))"

lemma those_replicate: "those (replicate n (Some x)) = Some (replicate n x)"
  by (induction n) simp_all

text \<open>
  The clients under every schedule that lets each of them move three times: when an added read is proved
  from then on, and its proof lets the client decrypt, all clients end without an error.
\<close>

lemma run_clients_ok:
  assumes add: "\<And>i s. i < n \<Longrightarrow> I s \<Longrightarrow> \<exists>iid s'. add i s = (Ok iid, s') \<and> I s' \<and> later s s' \<and>
        (\<forall>s''. later s' s'' \<longrightarrow> (\<exists>p. prove i iid s'' = Ok p \<and> Q i p))"
    and dec: "\<And>i p s. i < n \<Longrightarrow> I s \<Longrightarrow> Q i p \<Longrightarrow> decrypt i p s = (Ok (), s)"
    and later: "\<And>s. later s s" "\<And>s t u. later s t \<Longrightarrow> later t u \<Longrightarrow> later s u"
    and fair: "\<And>i. i < n \<Longrightarrow> 3 \<le> count_list sched i" and init: "I s"
  shows "\<exists>s'. run_clients (\<lambda>i. client_step (add i) (prove i) (decrypt i)) sched n s = Some (Ok (replicate n (Ok ())), s') \<and> I s'"
proof -
  let ?step = "\<lambda>i. client_step (add i) (prove i) (decrypt i)"
  obtain gs s' where run: "run_sched ?step sched (replicate n Reading, s) = (gs, s')"
    by (cases "run_sched ?step sched (replicate n Reading, s)")
  define P where "P = (\<lambda>i g s. I s \<and> (case g of Reading \<Rightarrow> True
      | Proving iid \<Rightarrow> (\<forall>s''. later s s'' \<longrightarrow> (\<exists>p. prove i iid s'' = Ok p \<and> Q i p))
      | Decrypting p \<Rightarrow> Q i p | Finished r \<Rightarrow> r = Ok ()))"
  have move: "P i (fst (?step i g s)) (snd (?step i g s))" "later s (snd (?step i g s))"
    if "i < n" "P i g s" for i g s
    using add [OF that(1), of s] dec [OF that(1), of s] later(1) [of s] that(2)
    by (cases g; fastforce simp: P_def)+
  have len: "length gs = n"
    using clients.sched_length [of add prove decrypt sched "(replicate n Reading, s)"] run by simp
  have inv: "P j (gs ! j) s'" if "j < n" for j
  proof (rule clients.sched_invariant [OF _ _ _ _ run that])
    fix i j g h s assume "i < n" "P i g s" "P j h s"
    with move [OF this(1,2)] later(2) [of s "snd (?step i g s)"] show "P j h (snd (?step i g s))"
      by (cases h) (auto simp: P_def)
  qed (use init move in \<open>auto simp: P_def\<close>)
  have "gs ! j = Finished (Ok ())" if "j < n" for j
    using clients.fair_sched_ends [of "replicate n Reading" sched j add prove decrypt s] fair that run inv [OF that]
    by (cases "gs ! j") (auto simp: P_def)
  then have gs: "gs = replicate n (Finished (Ok ()))" using len by (intro nth_equalityI) simp_all
  have "I s'"
  proof (cases n)
    case 0
    with run init show ?thesis by (simp add: clients.sched_none)
  qed (use inv [of 0] in \<open>simp add: P_def\<close>)
  moreover have "find (\<lambda>r. case r of Panic _ \<Rightarrow> True | _ \<Rightarrow> False) (replicate n (Ok ())) = None"
    by (simp add: find_None_iff)
  ultimately show ?thesis using run gs by (simp add: run_clients_def those_replicate)
qed

end
