(* ===== verification/Semi_Simulation.thy ===== *)
theory Semi_Simulation
  imports Semi_Centralized Ledger_Rows Goroutines
begin

text \<open>
  \<open>src/semi_centralized/simulation/service.go\<close>: the simulations of the semi-centralised system. A batch of
  writes and reads (\<open>runMicrobenchmark\<close>) and clients that read at the same time
  (\<open>runMultiClientSimulation\<close>, the one that \<open>Run\<close> calls); the replay of a list of transactions is in
  \<open>Semi_Byzgen\<close>. The state is the pair of the servers and the ledger. Draws, data and the fate of each
  request are functions of the transaction, collected in \<open>sb_random\<close>.
\<close>

section \<open>The parts\<close>

record 'rnd sb_random =
  sb_adminDraw :: 'rnd
  sb_writerDraw :: 'rnd
  sb_readerDraw :: 'rnd
  sb_darcNonce :: bytes
  sb_data :: "nat \<Rightarrow> bytes"
  sb_entropy :: "nat \<Rightarrow> 'rnd entropy"
  sb_serverDraw1 :: "nat \<Rightarrow> 'rnd"
  sb_serverDraw2 :: "nat \<Rightarrow> 'rnd"
  sb_store :: "nat \<Rightarrow> delivery"
  sb_decrypt :: "nat \<Rightarrow> delivery"

type_synonym ('si, 'sc, 'db, 'led) sb_state = "('si \<Rightarrow> ('sc, 'db) SService) \<times> 'led"

definition on_servers :: "('v \<Rightarrow> 'a go \<times> 'v) \<Rightarrow> 'v \<times> 'l \<Rightarrow> 'a go \<times> ('v \<times> 'l)" where
  "on_servers f st = (case f (fst st) of (r, sv) \<Rightarrow> (r, (sv, snd st)))"

definition on_ledger :: "('l \<Rightarrow> 'a go \<times> 'l) \<Rightarrow> 'v \<times> 'l \<Rightarrow> 'a go \<times> ('v \<times> 'l)" where
  "on_ledger f st = (case f (snd st) of (r, led) \<Rightarrow> (r, (fst st, led)))"

definition sb_setup ::
    "('darc, ('pt, 'sc) key_signer, 'rnd, 'si, 'gmsg, 'led) darc_api
      \<Rightarrow> ('led, 'proof, ('pt, 'sc) key_signer, 'scid) ledger \<Rightarrow> 'pt calypso \<Rightarrow> 'rnd sb_random \<Rightarrow> 'si list \<Rightarrow> int \<Rightarrow> int
      \<Rightarrow> ('si, 'sc, 'db, 'led) sb_state
      \<Rightarrow> (('pt, 'sc) key_signer \<times> ('pt, 'sc) key_signer \<times> 'darc) go \<times> ('si, 'sc, 'db, 'led) sb_state" where
  "sb_setup A L P rand roster blockInterval wait st =
     bindS (sc_SetupByzcoin A P (sb_adminDraw rand) roster blockInterval, st) (\<lambda>(byzCl, admin, gDarc) st.
     bindS (sc_SetupDarcs A P (sb_writerDraw rand) (sb_readerDraw rand), (fst st, byzCl))
       (\<lambda>(writer, reader, wDarc) st.
     bindS (on_ledger (sc_SpawnDarc A L (sb_darcNonce rand) admin wDarc gDarc wait) st) (\<lambda>_ st.
     (Ok (writer, reader, wDarc), st))))"

definition sb_create ::
    "('pt, 'sc, 'rnd) suite \<Rightarrow> 'rnd sb_random \<Rightarrow> ('pt, 'sc) key_signer \<Rightarrow> 'pt \<Rightarrow> nat list \<Rightarrow> 'pt WriteData list go" where
  "sb_create S rand reader serverPk =
     mapG (\<lambda>i. CreateWriteData S (sb_entropy rand i) (sb_data rand i) (sg_Point reader) serverPk True)"

definition sb_store_write ::
    "('db, StoreRequest) store_env \<Rightarrow> delivery \<Rightarrow> 'si list \<Rightarrow> 'pt WriteData \<Rightarrow> ('si \<Rightarrow> ('sc, 'db) SService)
      \<Rightarrow> 'pt WriteData go \<times> ('si \<Rightarrow> ('sc, 'db) SService)" where
  "sb_store_write E d roster wd sv =
     bindS (api_StoreData E d roster sv (Data wd) (DataHash wd)) (\<lambda>reply sv.
     (Ok (wd\<lparr>StoredKey := sr_StoredKey reply\<rparr>), sv))"

text \<open>The writes: store all, add all, prove all. The list of the write data has the stored keys then.\<close>

definition sb_add_writes ::
    "('darc, ('pt, 'sc) key_signer, 'rnd, 'si, 'gmsg, 'led) darc_api
      \<Rightarrow> ('led, 'proof, ('pt, 'sc) key_signer, 'scid) ledger \<Rightarrow> 'pt calypso \<Rightarrow> ('db, StoreRequest) store_env
      \<Rightarrow> 'rnd sb_random \<Rightarrow> 'si list \<Rightarrow> ('pt, 'sc) key_signer \<Rightarrow> 'darc \<Rightarrow> int \<Rightarrow> 'pt WriteData list
      \<Rightarrow> ('si, 'sc, 'db, 'led) sb_state \<Rightarrow> ('pt WriteData list \<times> 'proof list) go \<times> ('si, 'sc, 'db, 'led) sb_state" where
  "sb_add_writes A L P E rand roster writer wDarc wait wds st =
     bindS (on_servers (mapS (\<lambda>i. sb_store_write E (sb_store rand i) roster (wds ! i)) [0..<length wds]) st)
       (\<lambda>wdList st.
     bindS (on_ledger (mapS (\<lambda>i. AddWriteTransaction A L P (wdList ! i) writer wDarc (row_wait (length wds) wait i))
                        [0..<length wds]) st) (\<lambda>writeTxnList st.
     bindS (mapG (\<lambda>t. checked_proof L ''Write inclusion proof does not match'' (tr_InstanceID t) (snd st)) writeTxnList, st)
       (\<lambda>wrProofList st.
     (Ok (wdList, wrProofList), st))))"

text \<open>The request for a key, and the data it opens.\<close>

definition sb_open ::
    "('pt, 'sc, 'rnd) suite \<Rightarrow> ('led, 'proof, ('pt, 'sc) key_signer, 'scid) ledger \<Rightarrow> 'pt calypso
      \<Rightarrow> ('db, StoreRequest) store_env \<Rightarrow> 'rnd sb_random \<Rightarrow> nat \<Rightarrow> 'si list \<Rightarrow> ('pt, 'sc) key_signer
      \<Rightarrow> 'proof \<Rightarrow> 'proof \<Rightarrow> 'pt WriteData \<Rightarrow> ('si, 'sc, 'db, 'led) sb_state
      \<Rightarrow> bytes go \<times> ('si, 'sc, 'db, 'led) sb_state" where
  "sb_open S L P E rand i roster reader wrProof rProof wd st =
     bindS (on_servers (\<lambda>sv. api_Decrypt S L P E (sb_serverDraw1 rand i) (sb_serverDraw2 rand i) (sb_decrypt rand i)
              roster sv (snd st) wrProof rProof (StoredKey wd) (sg_Secret reader)) st) (\<lambda>dr st.
     (RecoverData S (dp_Data dr) (sg_Secret reader) (dp_K dr) (dp_C dr), st))"

section \<open>The microbenchmark\<close>

text \<open>One round; the result is the recovered data, which the source compares with the original in a log.\<close>

definition sb_micro_round ::
    "('pt, 'sc, 'rnd) suite \<Rightarrow> ('darc, ('pt, 'sc) key_signer, 'rnd, 'si, 'gmsg, 'led) darc_api
      \<Rightarrow> ('led, 'proof, ('pt, 'sc) key_signer, 'scid) ledger \<Rightarrow> 'pt calypso \<Rightarrow> ('db, StoreRequest) store_env
      \<Rightarrow> 'rnd sb_random \<Rightarrow> 'si list \<Rightarrow> 'pt \<Rightarrow> int \<Rightarrow> nat \<Rightarrow> ('si, 'sc, 'db, 'led) sb_state
      \<Rightarrow> bytes list go \<times> ('si, 'sc, 'db, 'led) sb_state" where
  "sb_micro_round S A L P E rand roster serverPk blockInterval n st =
     bindS (sb_setup A L P rand roster blockInterval 4 st) (\<lambda>(writer, reader, wDarc) st.
     bindS (sb_create S rand reader serverPk [0..<n], st) (\<lambda>wds st.
     bindS (sb_add_writes A L P E rand roster writer wDarc 3 wds st) (\<lambda>(wdList, wrProofList) st.
     bindS (on_ledger (mapS (\<lambda>i. AddReadTransaction A L P (wrProofList ! i) reader wDarc (row_wait n 3 i)) [0..<n]) st)
       (\<lambda>readTxnList st.
     bindS (mapG (\<lambda>t. checked_proof L ''Read inclusion proof does not match'' (tr_InstanceID t) (snd st)) readTxnList, st)
       (\<lambda>readProofList st.
     mapS (\<lambda>i. sb_open S L P E rand i roster reader (wrProofList ! i) (readProofList ! i) (wdList ! i)) [0..<n] st)))))"

definition sb_runMicrobenchmark ::
    "('pt, 'sc, 'rnd) suite \<Rightarrow> ('darc, ('pt, 'sc) key_signer, 'rnd, 'si, 'gmsg, 'led) darc_api
      \<Rightarrow> ('led, 'proof, ('pt, 'sc) key_signer, 'scid) ledger \<Rightarrow> 'pt calypso \<Rightarrow> ('db, StoreRequest) store_env
      \<Rightarrow> (nat \<Rightarrow> 'rnd sb_random) \<Rightarrow> 'si list \<Rightarrow> 'pt \<Rightarrow> int \<Rightarrow> nat \<Rightarrow> nat \<Rightarrow> ('si, 'sc, 'db, 'led) sb_state
      \<Rightarrow> bytes list list go \<times> ('si, 'sc, 'db, 'led) sb_state" where
  "sb_runMicrobenchmark S A L P E rand roster serverPk blockInterval n rounds =
     mapS (\<lambda>round. sb_micro_round S A L P E (rand round) roster serverPk blockInterval n) [0..<rounds]"

section \<open>Many clients\<close>

text \<open>The goroutine of a client; its errors are logged by its caller.\<close>

definition sb_client ::
    "('pt, 'sc, 'rnd) suite \<Rightarrow> ('darc, ('pt, 'sc) key_signer, 'rnd, 'si, 'gmsg, 'led) darc_api
      \<Rightarrow> ('led, 'proof, ('pt, 'sc) key_signer, 'scid) ledger \<Rightarrow> 'pt calypso \<Rightarrow> ('db, StoreRequest) store_env
      \<Rightarrow> 'rnd sb_random \<Rightarrow> 'si list \<Rightarrow> nat \<Rightarrow> 'pt WriteData \<Rightarrow> 'proof \<Rightarrow> ('pt, 'sc) key_signer \<Rightarrow> 'darc \<Rightarrow> bytes \<Rightarrow> int
      \<Rightarrow> 'proof client \<Rightarrow> ('si, 'sc, 'db, 'led) sb_state \<Rightarrow> 'proof client \<times> ('si, 'sc, 'db, 'led) sb_state" where
  "sb_client S A L P E rand roster idx wd wrProof reader wDarc d wait =
     client_step
       (\<lambda>st. bindS (on_ledger (AddReadTransaction A L P wrProof reader wDarc wait) st) (\<lambda>re st.
               (Ok (tr_InstanceID re), st)))
       (\<lambda>iid st. checked_proof L ''Read inclusion proof does not match'' iid (snd st))
       (\<lambda>rProof st. bindS (sb_open S L P E rand idx roster reader wrProof rProof wd st) (\<lambda>data st.
          (if data \<noteq> d then Err (Error ''Incorrect decryption'') else Ok (), st)))"

definition sb_multi_round ::
    "('pt, 'sc, 'rnd) suite \<Rightarrow> ('darc, ('pt, 'sc) key_signer, 'rnd, 'si, 'gmsg, 'led) darc_api
      \<Rightarrow> ('led, 'proof, ('pt, 'sc) key_signer, 'scid) ledger \<Rightarrow> 'pt calypso \<Rightarrow> ('db, StoreRequest) store_env
      \<Rightarrow> 'rnd sb_random \<Rightarrow> nat list \<Rightarrow> 'si list \<Rightarrow> 'pt \<Rightarrow> int \<Rightarrow> int \<Rightarrow> nat \<Rightarrow> ('si, 'sc, 'db, 'led) sb_state
      \<Rightarrow> (unit go list go \<times> ('si, 'sc, 'db, 'led) sb_state) option" where
  "sb_multi_round S A L P E rand sched roster serverPk blockInterval blockWait n st =
     bindO (Some (sb_setup A L P rand roster blockInterval blockWait st)) (\<lambda>(writer, reader, wDarc) st.
     bindO (Some (sb_create S rand reader serverPk [0..<n], st)) (\<lambda>wds st.
     bindO (Some (sb_add_writes A L P E rand roster writer wDarc blockWait wds st)) (\<lambda>(wdList, wrProofList) st.
     run_clients (\<lambda>i. sb_client S A L P E rand roster i (wdList ! i) (wrProofList ! i) reader wDarc
                        (sb_data rand i) blockWait) sched n st)))"

definition runMultiClientSimulation ::
    "('pt, 'sc, 'rnd) suite \<Rightarrow> ('darc, ('pt, 'sc) key_signer, 'rnd, 'si, 'gmsg, 'led) darc_api
      \<Rightarrow> ('led, 'proof, ('pt, 'sc) key_signer, 'scid) ledger \<Rightarrow> 'pt calypso \<Rightarrow> ('db, StoreRequest) store_env
      \<Rightarrow> (nat \<Rightarrow> 'rnd sb_random) \<Rightarrow> (nat \<Rightarrow> nat list) \<Rightarrow> 'si list \<Rightarrow> 'pt \<Rightarrow> int \<Rightarrow> int \<Rightarrow> nat \<Rightarrow> nat
      \<Rightarrow> ('si, 'sc, 'db, 'led) sb_state \<Rightarrow> (unit go list list go \<times> ('si, 'sc, 'db, 'led) sb_state) option" where
  "runMultiClientSimulation S A L P E rand sched roster serverPk blockInterval blockWait n rounds =
     mapO (\<lambda>round. sb_multi_round S A L P E (rand round) (sched round) roster serverPk blockInterval blockWait n)
       [0..<rounds]"

text \<open>\<open>Run\<close> returns the error of the simulation; the key of the server is \<open>Publics()[0]\<close>.\<close>

definition sb_Run ::
    "('pt, 'sc, 'rnd) suite \<Rightarrow> ('darc, ('pt, 'sc) key_signer, 'rnd, 'si, 'gmsg, 'led) darc_api
      \<Rightarrow> ('led, 'proof, ('pt, 'sc) key_signer, 'scid) ledger \<Rightarrow> 'pt calypso \<Rightarrow> ('db, StoreRequest) store_env
      \<Rightarrow> (nat \<Rightarrow> 'rnd sb_random) \<Rightarrow> (nat \<Rightarrow> nat list) \<Rightarrow> 'si list \<Rightarrow> ('si \<Rightarrow> 'pt) \<Rightarrow> int \<Rightarrow> int \<Rightarrow> nat \<Rightarrow> nat
      \<Rightarrow> ('si, 'sc, 'db, 'led) sb_state \<Rightarrow> (unit go \<times> ('si, 'sc, 'db, 'led) sb_state) option" where
  "sb_Run S A L P E rand sched roster pub blockInterval blockWait n rounds st =
     bindO (Some (index_go (map pub roster) 0, st)) (\<lambda>serverPk st.
     bindO (runMultiClientSimulation S A L P E rand sched roster serverPk blockInterval blockWait n rounds st)
       (\<lambda>_ st. Some (Ok (), st)))"

section \<open>The servers\<close>

text \<open>A ciphertext that the server has, and a server that may differ from another one in some hashes only.\<close>

definition sb_stored :: "('db, StoreRequest) store_env \<Rightarrow> ('sc, 'db) SService \<Rightarrow> 'pt WriteData \<Rightarrow> bool" where
  "sb_stored E s wd \<longleftrightarrow> (\<exists>v. bGet E (ss_db s) (ss_bucket s) (DataHash wd) = Some v \<and>
     network_Unmarshal E v = Ok (Some \<lparr>sr_Data = Data wd, sr_DataHash = DataHash wd\<rparr>))"

definition sb_same ::
    "('db, StoreRequest) store_env \<Rightarrow> bytes set \<Rightarrow> ('sc, 'db) SService \<Rightarrow> ('sc, 'db) SService \<Rightarrow> bool" where
  "sb_same E H s s' \<longleftrightarrow> ss_priv s' = ss_priv s \<and> ss_bucket s' = ss_bucket s \<and>
     (\<forall>x. x \<notin> H \<longrightarrow> bGet E (ss_db s') (ss_bucket s') x = bGet E (ss_db s) (ss_bucket s) x)"

lemma sb_sameD:
  assumes "sb_same E H s s'"
  shows "ss_priv s' = ss_priv s" and "ss_bucket s' = ss_bucket s"
    and "x \<notin> H \<Longrightarrow> bGet E (ss_db s') (ss_bucket s') x = bGet E (ss_db s) (ss_bucket s) x"
  using assms unfolding sb_same_def by blast+

lemma sb_same_refl: "sb_same E H s s"
  by (simp add: sb_same_def)

lemma sb_same_trans: "sb_same E H s s' \<Longrightarrow> sb_same E H' s' s'' \<Longrightarrow> sb_same E (H \<union> H') s s''"
  unfolding sb_same_def by (metis Un_iff)

lemma sb_stored_same: "sb_same E H s s' \<Longrightarrow> DataHash wd \<notin> H \<Longrightarrow> sb_stored E s wd \<Longrightarrow> sb_stored E s' wd"
  using sb_sameD(3) [of E H s s' "DataHash wd"] by (simp add: sb_stored_def)

lemma sb_store_new:
  assumes "store_law E" and "store_up E" and "DataHash wd = hash256 E (Data wd)"
    and "bGet E (ss_db (sv srv)) (ss_bucket (sv srv)) (DataHash wd) = None"
  shows "\<exists>s'. sb_store_write E (Delivered w) (srv # rest) wd sv =
      (Ok (wd\<lparr>StoredKey := EncodeToString (DataHash wd)\<rparr>), sv(srv := s')) \<and>
    sb_same E {DataHash wd} (sv srv) s' \<and> sb_stored E s' wd"
proof -
  let ?r = "\<lparr>sr_Data = Data wd, sr_DataHash = DataHash wd\<rparr>" and ?s = "sv srv"
  from db_StoreData_accepts [OF assms(1,2), of ?r] assms(3,4) obtain key db' where
    st: "db_StoreData E (ss_bucket ?s) (ss_db ?s) ?r = (Ok key, db')"
    by (fastforce simp: go_simps prod_eq_iff)
  from db_StoreData_OkD [OF assms(1) st] obtain v where v: "network_Marshal E ?r = Ok v"
    "bGet E db' = (bGet E (ss_db ?s))(ss_bucket ?s := (bGet E (ss_db ?s) (ss_bucket ?s))(DataHash wd \<mapsto> v))"
    and key: "key = EncodeToString (DataHash wd)" by auto
  with store_lawD(4) [OF assms(1)] have "sb_same E {DataHash wd} ?s (?s\<lparr>ss_db := db'\<rparr>)"
    "sb_stored E (?s\<lparr>ss_db := db'\<rparr>) wd" by (simp_all add: sb_same_def sb_stored_def)
  then show ?thesis
    using st key by (intro exI [of _ "?s\<lparr>ss_db := db'\<rparr>"])
      (simp add: sb_store_write_def api_StoreData_def SendProtobuf_def StoreData_def)
qed

lemma sb_store_again:
  assumes "store_law E" and "store_up E" and "DataHash wd = hash256 E (Data wd)" and "sb_stored E (sv srv) wd"
  shows "sb_store_write E (Delivered w) (srv # rest) wd sv = (Err (w (Error ''Key already exists'')), sv)"
proof -
  obtain v where v: "network_Marshal E \<lparr>sr_Data = Data wd, sr_DataHash = DataHash wd\<rparr> = Ok v"
    using store_upD(4) [OF assms(2)] by blast
  obtain tx where tx: "bBegin E (ss_db (sv srv)) = Ok tx" using store_upD(1) [OF assms(2)] by blast
  with store_lawD(1) [OF assms(1) tx] assms(4) have "bGet E tx (ss_bucket (sv srv)) (DataHash wd) \<noteq> None"
    by (auto simp: sb_stored_def)
  with v tx assms(3) show ?thesis
    by (auto simp: sb_store_write_def api_StoreData_def SendProtobuf_def StoreData_def db_StoreData_def Let_def
        DB_Update_def put_if_absent_def split: option.splits)
qed

text \<open>A row of writes with new hashes.\<close>

abbreviation keyed :: "'pt WriteData \<Rightarrow> 'pt WriteData" where
  "keyed wd \<equiv> wd\<lparr>StoredKey := EncodeToString (DataHash wd)\<rparr>"

lemma sb_store_row:
  assumes laws: "store_law E" "store_up E"
    and dh: "\<And>i. i \<in> set js \<Longrightarrow> DataHash (ws ! i) = hash256 E (Data (ws ! i))"
    and tr: "\<And>i. \<exists>w. d i = Delivered w"
    and new: "distinct (map (\<lambda>i. DataHash (ws ! i)) js)"
      "\<And>i. i \<in> set js \<Longrightarrow> bGet E (ss_db (sv srv)) (ss_bucket (sv srv)) (DataHash (ws ! i)) = None"
  shows "\<exists>s'. mapS (\<lambda>i. sb_store_write E (d i) (srv # rest) (ws ! i)) js sv =
      (Ok (map (\<lambda>i. keyed (ws ! i)) js), sv(srv := s')) \<and>
    sb_same E ((\<lambda>i. DataHash (ws ! i)) ` set js) (sv srv) s' \<and> (\<forall>i \<in> set js. sb_stored E s' (ws ! i))"
  using dh new
proof (induction js arbitrary: sv)
  case Nil
  then show ?case by (auto intro!: exI [of _ "sv srv"] sb_same_refl)
next
  case (Cons i js)
  obtain w where w: "d i = Delivered w" using tr by blast
  obtain s1 where s1: "sb_store_write E (Delivered w) (srv # rest) (ws ! i) sv = (Ok (keyed (ws ! i)), sv(srv := s1))"
    "sb_same E {DataHash (ws ! i)} (sv srv) s1" "sb_stored E s1 (ws ! i)"
    using sb_store_new [where sv = sv and srv = srv, OF laws, of "ws ! i" w rest] Cons.prems by auto
  have "\<exists>s'. mapS (\<lambda>i. sb_store_write E (d i) (srv # rest) (ws ! i)) js (sv(srv := s1)) =
      (Ok (map (\<lambda>i. keyed (ws ! i)) js), (sv(srv := s1))(srv := s')) \<and>
    sb_same E ((\<lambda>i. DataHash (ws ! i)) ` set js) ((sv(srv := s1)) srv) s' \<and> (\<forall>i \<in> set js. sb_stored E s' (ws ! i))"
  proof (rule Cons.IH)
    fix j assume j: "j \<in> set js"
    from imageI [OF this, of "\<lambda>i. DataHash (ws ! i)"] Cons.prems(2) have
      "DataHash (ws ! j) \<notin> {DataHash (ws ! i)}" by (auto simp del: imageI)
    with sb_sameD(3) [OF s1(2) this] Cons.prems(3) j show
      "bGet E (ss_db ((sv(srv := s1)) srv)) (ss_bucket ((sv(srv := s1)) srv)) (DataHash (ws ! j)) = None" by simp
  qed (use Cons.prems in auto)
  then obtain s' where s': "mapS (\<lambda>i. sb_store_write E (d i) (srv # rest) (ws ! i)) js (sv(srv := s1)) =
      (Ok (map (\<lambda>i. keyed (ws ! i)) js), sv(srv := s'))"
    "sb_same E ((\<lambda>i. DataHash (ws ! i)) ` set js) s1 s'" "\<forall>i \<in> set js. sb_stored E s' (ws ! i)" by auto
  have "sb_stored E s' (ws ! i)"
    using sb_stored_same [OF s'(2) _ s1(3)] Cons.prems(2) by auto
  with s1(1) w s' sb_same_trans [OF s1(2) s'(2)] show ?case
    by (intro exI [of _ s']) (simp add: fun_upd_def)
qed

section \<open>The transactions\<close>

definition write_proved ::
    "('led, 'proof, ('pt, 'sc) key_signer, 'scid) ledger \<Rightarrow> 'pt calypso \<Rightarrow> 'scid \<Rightarrow> 'proof \<Rightarrow> 'pt WriteData \<Rightarrow> bool" where
  "write_proved L P sid p wd \<longleftrightarrow> (\<exists>val. ContractValue L p (ContractSemiWriteID P) = Ok val \<and>
     decode_SemiWrite P val = Ok (semi_write_of wd) \<and> Proof_Verify L p sid = Ok ())"

definition read_proved ::
    "('led, 'proof, ('pt, 'sc) key_signer, 'scid) ledger \<Rightarrow> 'pt calypso \<Rightarrow> 'scid \<Rightarrow> 'proof \<Rightarrow> 'proof \<Rightarrow> bool" where
  "read_proved L P sid p wp \<longleftrightarrow> (\<exists>val rd. ContractValue L p (ContractReadID P) = Ok val \<and>
     decode_Read P val = Ok rd \<and> rd_Write rd = NewInstanceID L (InclusionKey L wp) \<and> Proof_Verify L p sid = Ok ())"

text \<open>The instruction that a call adds, and its argument.\<close>

definition adds ::
    "('led, 'proof, 'signer, 'scid) ledger \<Rightarrow> (int \<Rightarrow> 'led \<Rightarrow> TransactionReply go \<times> 'led) \<Rightarrow> Instruction \<Rightarrow> bool" where
  "adds L call ins \<longleftrightarrow> (\<forall>w led. call w led =
     bindS (AddTransactionAndWait L [ins] w led) (\<lambda>_ led. (Ok \<lparr>tr_InstanceID = DeriveID L ins []\<rparr>, led)))"

lemma AddWriteTransaction_adds:
  assumes "row_law L" and "ledger_up L" and "calypso_law P"
  shows "\<exists>ins val. adds L (AddWriteTransaction A L P wd sg darc) ins \<and>
    in_Spawn ins = Some \<lparr>sp_ContractID = ContractSemiWriteID P, sp_Args = [\<lparr>arg_Name = ''write'', arg_Value = val\<rparr>]\<rparr> \<and>
    decode_SemiWrite P val = Ok (semi_write_of wd)"
proof -
  from assms(3) obtain val where val: "encode_SemiWrite P (semi_write_of wd) = Ok val"
    "decode_SemiWrite P val = Ok (semi_write_of wd)" by (auto simp: calypso_law_def)
  let ?i = "spawn_instruction (NewInstanceID L (GetBaseID A darc)) zero_nonce (ContractSemiWriteID P) ''write'' val"
  obtain ins where ins: "SignBy L (GetID A darc) sg ?i = Ok ins"
    using assms(2) unfolding ledger_up_def is_ok_iff by blast
  have "adds L (AddWriteTransaction A L P wd sg darc) ins"
    using val(1) ins by (auto simp: adds_def AddWriteTransaction_def Let_def bindS_def split: prod.splits go.splits)
  with row_law_sign [OF assms(1) ins] val(2) show ?thesis by auto
qed

lemma AddReadTransaction_adds:
  assumes "row_law L" and "ledger_up L" and "calypso_law P"
  shows "\<exists>ins val rd. adds L (AddReadTransaction A L P wp sg darc) ins \<and>
    in_Spawn ins = Some \<lparr>sp_ContractID = ContractReadID P, sp_Args = [\<lparr>arg_Name = ''read'', arg_Value = val\<rparr>]\<rparr> \<and>
    decode_Read P val = Ok rd \<and> rd_Write rd = NewInstanceID L (InclusionKey L wp)"
proof -
  let ?rd = "\<lparr>rd_Write = NewInstanceID L (InclusionKey L wp), rd_Xc = sg_Point sg\<rparr>"
  from assms(3) obtain val where val: "encode_Read P ?rd = Ok val" "decode_Read P val = Ok ?rd"
    by (auto simp: calypso_law_def)
  let ?i = "spawn_instruction (NewInstanceID L (InclusionKey L wp)) zero_nonce (ContractReadID P) ''read'' val"
  obtain ins where ins: "SignBy L (GetID A darc) sg ?i = Ok ins"
    using assms(2) unfolding ledger_up_def is_ok_iff by blast
  have "adds L (AddReadTransaction A L P wp sg darc) ins"
    using val(1) ins by (auto simp: adds_def AddReadTransaction_def Let_def bindS_def split: prod.splits go.splits)
  with row_law_sign [OF assms(1) ins] val(2) show ?thesis by auto
qed

text \<open>A row of calls is a row of instructions.\<close>

lemma adds_row:
  assumes "\<And>i. i < n \<Longrightarrow> adds L (call i) (ins i)"
    and "spawn_row L (map ins [0..<n]) w led = (Ok us, led')"
  shows "mapS (\<lambda>i. call i (row_wait n w i)) [0..<n] led =
    (Ok (map (\<lambda>i. \<lparr>tr_InstanceID = DeriveID L (ins i) []\<rparr>) [0..<n]), led')"
proof -
  have "mapS (\<lambda>i. call i (row_wait n w i)) is led =
      (Ok (map (\<lambda>i. \<lparr>tr_InstanceID = DeriveID L (ins i) []\<rparr>) is), led')"
    if "mapS (\<lambda>i. AddTransactionAndWait L [map ins [0..<n] ! i] (row_wait n w i)) is led = (Ok us, led')"
      "\<forall>i \<in> set is. i < n" for "is" us led
    using that
    by (induction "is" arbitrary: led us) (auto simp: go_simps assms(1) [unfolded adds_def, rule_format])
  with assms(2) show ?thesis by (simp add: spawn_row_def)
qed

text \<open>Rows of writes and of reads, with what their proofs hold from then on.\<close>

lemma sb_write_row:
  assumes laws: "row_law L" "ledger_up L" "calypso_law P" and w: "0 < w"
  shows "\<exists>ts led'. mapS (\<lambda>i. AddWriteTransaction A L P (wds ! i) sg darc (row_wait n w i)) [0..<n] led = (Ok ts, led') \<and>
    length ts = n \<and> tx_later L led led' \<and>
    (\<forall>led''. tx_later L led' led'' \<longrightarrow> (\<forall>i < n. \<exists>p. checked_proof L msg (tr_InstanceID (ts ! i)) led'' = Ok p \<and>
       write_proved L P (LedgerID L led) p (wds ! i)))"
proof -
  have "\<forall>i. \<exists>ins. adds L (AddWriteTransaction A L P (wds ! i) sg darc) ins \<and> (\<exists>val.
      in_Spawn ins = Some \<lparr>sp_ContractID = ContractSemiWriteID P, sp_Args = [\<lparr>arg_Name = ''write'', arg_Value = val\<rparr>]\<rparr> \<and>
      decode_SemiWrite P val = Ok (semi_write_of (wds ! i)))"
    by (intro allI) (use AddWriteTransaction_adds [OF laws, of A "wds ! i" sg darc for i] in blast)
  from choice [OF this] obtain ins where ins: "\<And>i. adds L (AddWriteTransaction A L P (wds ! i) sg darc) (ins i)"
    "\<And>i. \<exists>val. in_Spawn (ins i) =
      Some \<lparr>sp_ContractID = ContractSemiWriteID P, sp_Args = [\<lparr>arg_Name = ''write'', arg_Value = val\<rparr>]\<rparr> \<and>
      decode_SemiWrite P val = Ok (semi_write_of (wds ! i))" by blast
  obtain us led' where row: "spawn_row L (map ins [0..<n]) w led = (Ok us, led')"
    using spawn_row_up [OF laws(2)] by blast
  note later = spawn_row_later [OF row]
  have "\<exists>p. checked_proof L msg (DeriveID L (ins i) []) led'' = Ok p \<and> write_proved L P (LedgerID L led) p (wds ! i)"
    if "tx_later L led' led''" "i < n" for led'' i
  proof -
    from ins(2) [of i] obtain val where val: "in_Spawn (ins i) =
        Some \<lparr>sp_ContractID = ContractSemiWriteID P, sp_Args = [\<lparr>arg_Name = ''write'', arg_Value = val\<rparr>]\<rparr>"
      "decode_SemiWrite P val = Ok (semi_write_of (wds ! i))" by blast
    from row_law_proof [OF laws(1) w row that(1) _ val(1)] that(2) obtain p where
      "proves L led'' (DeriveID L (ins i) []) (ContractSemiWriteID P) val p" by auto
    with val(2) row_law_ID [OF laws(1) tx_later_trans [OF that(1) later]] show ?thesis
      by (auto simp: proves_def checked_proof_def api_GetProof_def write_proved_def)
  qed
  with adds_row [OF ins(1) row] later show ?thesis by auto
qed

lemma sb_read_row:
  assumes laws: "row_law L" "ledger_up L" "calypso_law P" and w: "0 < w"
  shows "\<exists>ts led'. mapS (\<lambda>i. AddReadTransaction A L P (wps ! i) sg darc (row_wait n w i)) [0..<n] led = (Ok ts, led') \<and>
    length ts = n \<and> tx_later L led led' \<and>
    (\<forall>led''. tx_later L led' led'' \<longrightarrow> (\<forall>i < n. \<exists>p. checked_proof L msg (tr_InstanceID (ts ! i)) led'' = Ok p \<and>
       read_proved L P (LedgerID L led) p (wps ! i)))"
proof -
  have "\<forall>i. \<exists>ins. adds L (AddReadTransaction A L P (wps ! i) sg darc) ins \<and> (\<exists>val rd.
      in_Spawn ins = Some \<lparr>sp_ContractID = ContractReadID P, sp_Args = [\<lparr>arg_Name = ''read'', arg_Value = val\<rparr>]\<rparr> \<and>
      decode_Read P val = Ok rd \<and> rd_Write rd = NewInstanceID L (InclusionKey L (wps ! i)))"
    by (intro allI) (use AddReadTransaction_adds [OF laws, of A "wps ! i" sg darc for i] in blast)
  from choice [OF this] obtain ins where ins: "\<And>i. adds L (AddReadTransaction A L P (wps ! i) sg darc) (ins i)"
    "\<And>i. \<exists>val rd. in_Spawn (ins i) =
      Some \<lparr>sp_ContractID = ContractReadID P, sp_Args = [\<lparr>arg_Name = ''read'', arg_Value = val\<rparr>]\<rparr> \<and>
      decode_Read P val = Ok rd \<and> rd_Write rd = NewInstanceID L (InclusionKey L (wps ! i))" by blast
  obtain us led' where row: "spawn_row L (map ins [0..<n]) w led = (Ok us, led')"
    using spawn_row_up [OF laws(2)] by blast
  note later = spawn_row_later [OF row]
  have "\<exists>p. checked_proof L msg (DeriveID L (ins i) []) led'' = Ok p \<and> read_proved L P (LedgerID L led) p (wps ! i)"
    if "tx_later L led' led''" "i < n" for led'' i
  proof -
    from ins(2) [of i] obtain val rd where val: "in_Spawn (ins i) =
        Some \<lparr>sp_ContractID = ContractReadID P, sp_Args = [\<lparr>arg_Name = ''read'', arg_Value = val\<rparr>]\<rparr>"
      "decode_Read P val = Ok rd" "rd_Write rd = NewInstanceID L (InclusionKey L (wps ! i))" by blast
    from row_law_proof [OF laws(1) w row that(1) _ val(1)] that(2) obtain p where
      "proves L led'' (DeriveID L (ins i) []) (ContractReadID P) val p" by auto
    with val(2,3) row_law_ID [OF laws(1) tx_later_trans [OF that(1) later]] show ?thesis
      by (auto simp: proves_def checked_proof_def api_GetProof_def read_proved_def)
  qed
  with adds_row [OF ins(1) row] later show ?thesis by auto
qed

section \<open>A round\<close>

text \<open>A write that the server can re-encrypt to the reader, and its data.\<close>

definition sb_made :: "('pt, 'sc, 'rnd) suite \<Rightarrow> 'sc \<Rightarrow> 'sc \<Rightarrow> 'pt WriteData \<Rightarrow> bytes \<Rightarrow> bool" where
  "sb_made S sk rsk wd d \<longleftrightarrow> Reader wd = Mul S rsk None \<and>
     (\<exists>key mb. ElGamalDecrypt S sk (K wd) (C wd) = Ok key \<and> MarshalBinary S (Reader wd) = Ok mb \<and>
        AeadOpen S key (EncReader wd) = Ok mb \<and> AeadOpen S key (Data wd) = Ok d)"

lemma sb_made_created:
  assumes "group_law S" and "aead_law S" and "entropy_ok e"
    and "CreateWriteData S e d (Mul S rsk None) (Mul S sk None) True = Ok wd"
  shows "sb_made S sk rsk wd d"
  using CreateWriteData_recover [OF assms] CreateWriteData_encReader [OF assms(2-4)]
    CreateWriteData_OkD(4) [OF assms(4)] unfolding sb_made_def by auto

lemma sb_open_ok:
  assumes "group_law S" and "sign_law S" and "store_law E" and "store_up E"
    and "sb_stored E (sv srv) wd" and "sb_made S (ss_priv (sv srv)) (sg_Secret reader) wd d"
    and "write_proved L P (LedgerID L led) wp wd" and "read_proved L P (LedgerID L led) rp wp"
    and "\<exists>w. sb_decrypt rand i = Delivered w"
  shows "sb_open S L P E rand i (srv # rest) reader wp rp (keyed wd) (sv, led) = (Ok d, (sv, led))"
proof -
  obtain w where w: "sb_decrypt rand i = Delivered w" using assms(9) by blast
  obtain tx where "bBegin E (ss_db (sv srv)) = Ok tx" using store_upD(1) [OF assms(4)] by blast
  with assms(5) have get: "GetStoredData E (ss_bucket (sv srv)) (ss_db (sv srv)) (EncodeToString (DataHash wd)) =
      Ok \<lparr>sr_Data = Data wd, sr_DataHash = DataHash wd\<rparr>"
    unfolding GetStoredData_iff [OF assms(3)] by (auto simp: sb_stored_def)
  from assms(6) obtain key mb where made: "Reader wd = Mul S (sg_Secret reader) None"
    "ElGamalDecrypt S (ss_priv (sv srv)) (K wd) (C wd) = Ok key" "MarshalBinary S (Reader wd) = Ok mb"
    "AeadOpen S key (EncReader wd) = Ok mb" "AeadOpen S key (Data wd) = Ok d" by (auto simp: sb_made_def)
  from assms(7,8) obtain val val' rd where
    wp: "ContractValue L wp (ContractSemiWriteID P) = Ok val" "decode_SemiWrite P val = Ok (semi_write_of wd)"
      "Proof_Verify L wp (LedgerID L led) = Ok ()"
    and rp: "ContractValue L rp (ContractReadID P) = Ok val'" "decode_Read P val' = Ok rd"
      "rd_Write rd = NewInstanceID L (InclusionKey L wp)" "Proof_Verify L rp (LedgerID L led) = Ok ()"
    unfolding write_proved_def read_proved_def by blast
  obtain rep where dec: "api_Decrypt S L P E (sb_serverDraw1 rand i) (sb_serverDraw2 rand i) (Delivered w) (srv # rest)
      sv led wp rp (EncodeToString (DataHash wd)) (sg_Secret reader) = (Ok rep, sv)" "dp_Data rep = Data wd"
    "sc_reencryptData S (sb_serverDraw1 rand i) (sb_serverDraw2 rand i) () (semi_write_of wd) (ss_priv (sv srv)) =
      Ok (dp_K rep, dp_C rep)"
    using api_Decrypt_serves [where sv = sv and srv = srv and rsk = "sg_Secret reader" and m = key and mb = mb and
        led = led, OF assms(2) get _ rp(1-3) wp(1,2) rp(4) wp(3), of "sb_serverDraw1 rand i" "sb_serverDraw2 rand i" w rest]
      made by auto
  have "RecoverData S (dp_Data rep) (sg_Secret reader) (dp_K rep) (dp_C rep) = Ok d"
    using sc_relay.relay_recover [OF assms(1) dec(3), of "sg_Secret reader"] dec(2) made by simp
  with dec(1) w show ?thesis by (simp add: sb_open_def on_servers_def)
qed

text \<open>A signer is a key pair.\<close>

definition signer_law ::
    "('pt, 'sc, 'rnd) suite \<Rightarrow> ('darc, ('pt, 'sc) key_signer, 'rnd, 'si, 'gmsg, 'led) darc_api \<Rightarrow> bool" where
  "signer_law S A \<longleftrightarrow>
     (\<forall>r. sg_Point (NewSignerEd25519 A r) = Mul S (sg_Secret (NewSignerEd25519 A r)) None)"

lemma sb_setup_up:
  assumes "darcs_up A" and "genesis_up A" and "ledger_up L"
  shows "\<exists>writer darc led'. sb_setup A L P rand roster bi w (sv, led) =
    (Ok (writer, NewSignerEd25519 A (sb_readerDraw rand), darc), (sv, led'))"
proof -
  have rule: "\<exists>d'. AddRule A a sg d = Ok d'" for a sg d
    using assms(1) by (simp add: darcs_up_def is_ok_iff)
  obtain cl admin gDarc where b: "sc_SetupByzcoin A P (sb_adminDraw rand) roster bi = Ok (cl, admin, gDarc)"
    using setup_ledger_up [OF assms(2), of "sb_adminDraw rand" roster "[''spawn:'' @ ContractDarcID A,
        ''spawn:'' @ ContractSemiWriteID P, ''spawn:'' @ ContractReadID P]" bi]
    by (auto simp: sc_SetupByzcoin_def is_ok_iff)
  let ?w = "NewSignerEd25519 A (sb_writerDraw rand)"
  obtain d1 where "AddRule A (''spawn:'' @ ContractSemiWriteID P) ?w (NewDarc A [?w] [?w] ''Writer'') = Ok d1"
    using rule by blast
  moreover obtain d2 where "AddRule A (''spawn:'' @ ContractReadID P) (NewSignerEd25519 A (sb_readerDraw rand)) d1 = Ok d2"
    using rule by blast
  ultimately have d: "sc_SetupDarcs A P (sb_writerDraw rand) (sb_readerDraw rand) =
      Ok (?w, NewSignerEd25519 A (sb_readerDraw rand), d2)" by (simp add: sc_SetupDarcs_def Let_def)
  obtain led' where "sc_SpawnDarc A L (sb_darcNonce rand) admin d2 gDarc w cl = (Ok (), led')"
    using spawn_darc_up [OF assms(1,3), of "sb_darcNonce rand" admin d2 gDarc w cl]
    by (cases "sc_SpawnDarc A L (sb_darcNonce rand) admin d2 gDarc w cl") (auto simp: sc_SpawnDarc_def is_ok_iff)
  with b d show ?thesis by (simp add: sb_setup_def on_ledger_def)
qed

text \<open>What a round needs of its write data.\<close>

definition round_data ::
    "('pt, 'sc, 'rnd) suite \<Rightarrow> ('darc, ('pt, 'sc) key_signer, 'rnd, 'si, 'gmsg, 'led) darc_api
      \<Rightarrow> ('db, StoreRequest) store_env \<Rightarrow> 'rnd sb_random \<Rightarrow> 'sc \<Rightarrow> nat \<Rightarrow> 'pt WriteData list \<Rightarrow> bool" where
  "round_data S A E rand sk n ws \<longleftrightarrow>
     (\<forall>i. entropy_ok (sb_entropy rand i)) \<and>
     (\<forall>i. (\<exists>w. sb_store rand i = Delivered w) \<and> (\<exists>w. sb_decrypt rand i = Delivered w)) \<and>
     sb_create S rand (NewSignerEd25519 A (sb_readerDraw rand)) (Mul S sk None) [0..<n] = Ok ws"

definition fresh_on :: "('db, StoreRequest) store_env \<Rightarrow> ('sc, 'db) SService \<Rightarrow> 'pt WriteData list \<Rightarrow> bool" where
  "fresh_on E s ws \<longleftrightarrow> (\<forall>wd \<in> set ws. bGet E (ss_db s) (ss_bucket s) (DataHash wd) = None)"

lemma round_data_made:
  assumes "group_law S" and "aead_law S" and "signer_law S A" and "hash256 E = Sum256 S"
    and "round_data S A E rand sk n ws"
  shows "length ws = n" and "\<And>i. i < n \<Longrightarrow> DataHash (ws ! i) = hash256 E (Data (ws ! i))"
    and "\<And>i. i < n \<Longrightarrow> sb_made S sk (sg_Secret (NewSignerEd25519 A (sb_readerDraw rand))) (ws ! i) (sb_data rand i)"
proof -
  let ?reader = "NewSignerEd25519 A (sb_readerDraw rand)"
  from assms(3) have pt: "sg_Point ?reader = Mul S (sg_Secret ?reader) None" by (simp add: signer_law_def)
  from assms(5) show len: "length ws = n"
    by (auto simp: round_data_def sb_create_def mapG_Ok_iff dest: list_all2_lengthD)
  fix i assume i: "i < n"
  with assms(5) have cr: "CreateWriteData S (sb_entropy rand i) (sb_data rand i) (Mul S (sg_Secret ?reader) None)
      (Mul S sk None) True = Ok (ws ! i)"
    by (auto simp: round_data_def sb_create_def mapG_Ok_iff list_all2_conv_all_nth pt)
  show "DataHash (ws ! i) = hash256 E (Data (ws ! i))" using CreateWriteData_OkD(2) [OF cr] assms(4) by simp
  show "sb_made S sk (sg_Secret ?reader) (ws ! i) (sb_data rand i)"
    using assms(5) by (intro sb_made_created [OF assms(1,2) _ cr]) (simp add: round_data_def)
qed

lemma sb_add_writes_ok:
  assumes laws: "store_law E" "store_up E" "row_law L" "ledger_up L" "calypso_law P" and w: "0 < w"
    and tr: "\<And>i. \<exists>w. sb_store rand i = Delivered w"
    and dh: "\<And>i. i < length ws \<Longrightarrow> DataHash (ws ! i) = hash256 E (Data (ws ! i))"
    and new: "distinct (map DataHash ws)" "fresh_on E (sv srv) ws"
  shows "\<exists>ps s' led'. sb_add_writes A L P E rand (srv # rest) writer darc w ws (sv, led) =
      (Ok (map keyed ws, ps), (sv(srv := s'), led')) \<and> sb_same E (DataHash ` set ws) (sv srv) s' \<and>
    (\<forall>i < length ws. sb_stored E s' (ws ! i) \<and> write_proved L P (LedgerID L led') (ps ! i) (ws ! i))"
proof -
  let ?n = "length ws"
  have mk: "map (\<lambda>i. keyed (ws ! i)) [0..<?n] = map keyed ws" by (rule nth_equalityI) simp_all
  have "map (\<lambda>i. DataHash (ws ! i)) [0..<?n] = map DataHash ws" by (rule nth_equalityI) simp_all
  moreover from arg_cong [OF this, of set] have im: "(\<lambda>i. DataHash (ws ! i)) ` {0..<?n} = DataHash ` set ws"
    by simp
  moreover have "bGet E (ss_db (sv srv)) (ss_bucket (sv srv)) (DataHash (ws ! i)) = None" if "i < ?n" for i
    using new(2) that by (simp add: fresh_on_def)
  ultimately obtain s' where st: "mapS (\<lambda>i. sb_store_write E (sb_store rand i) (srv # rest) (ws ! i)) [0..<?n] sv =
        (Ok (map keyed ws), sv(srv := s'))"
    "sb_same E (DataHash ` set ws) (sv srv) s'" "\<forall>i < ?n. sb_stored E s' (ws ! i)"
    using sb_store_row [where sv = sv and srv = srv and ws = ws and d = "sb_store rand" and rest = rest and
        js = "[0..<?n]", OF laws(1,2) dh tr] new(1) unfolding mk by auto
  let ?msg = "''Write inclusion proof does not match''"
  obtain ts led' where row:
    "mapS (\<lambda>i. AddWriteTransaction A L P (map keyed ws ! i) writer darc (row_wait ?n w i)) [0..<?n] led = (Ok ts, led')"
    "length ts = ?n" "tx_later L led led'"
    "\<And>led'' i. tx_later L led' led'' \<Longrightarrow> i < ?n \<Longrightarrow> \<exists>p. checked_proof L ?msg (tr_InstanceID (ts ! i)) led'' = Ok p \<and>
       write_proved L P (LedgerID L led) p (map keyed ws ! i)"
    using sb_write_row [OF laws(3-5) w, of A "map keyed ws" writer darc ?n led ?msg] by blast
  have "\<forall>i. \<exists>p. i < ?n \<longrightarrow> checked_proof L ?msg (tr_InstanceID (ts ! i)) led' = Ok p \<and>
       write_proved L P (LedgerID L led') p (ws ! i)"
    using row(4) [OF tx_refl] row_law_ID [OF laws(3) row(3)] by (fastforce simp: write_proved_def)
  from choice [OF this] obtain p where p: "\<forall>i. i < ?n \<longrightarrow> checked_proof L ?msg (tr_InstanceID (ts ! i)) led' = Ok (p i) \<and>
       write_proved L P (LedgerID L led') (p i) (ws ! i)" by (rule exE)
  then have "mapG (\<lambda>t. checked_proof L ?msg (tr_InstanceID t) led') ts = Ok (map p [0..<?n])"
    using row(2) by (simp add: mapG_Ok_iff list_all2_conv_all_nth)
  with st row(1) p show ?thesis
    by (intro exI [of _ "map p [0..<?n]"] exI [of _ s'] exI [of _ led'])
      (simp add: sb_add_writes_def on_servers_def on_ledger_def)
qed

text \<open>The hypotheses on a working system, collected.\<close>

definition semi_works ::
    "('pt, 'sc, 'rnd) suite \<Rightarrow> ('darc, ('pt, 'sc) key_signer, 'rnd, 'si, 'gmsg, 'led) darc_api
      \<Rightarrow> ('led, 'proof, ('pt, 'sc) key_signer, 'scid) ledger \<Rightarrow> 'pt calypso \<Rightarrow> ('db, StoreRequest) store_env \<Rightarrow> bool" where
  "semi_works S A L P E \<longleftrightarrow>
     group_law S \<and> aead_law S \<and> sign_law S \<and> store_law E \<and> store_up E \<and> hash256 E = Sum256 S \<and>
     row_law L \<and> ledger_up L \<and> calypso_law P \<and> signer_law S A \<and> darcs_up A \<and> genesis_up A"

lemma semi_worksD:
  assumes "semi_works S A L P E"
  shows "group_law S" "aead_law S" "sign_law S" "store_law E" "store_up E" "hash256 E = Sum256 S"
    "row_law L" "ledger_up L" "calypso_law P" "signer_law S A" "darcs_up A" "genesis_up A"
  using assms unfolding semi_works_def by blast+

lemma sb_micro_round_ok:
  assumes sys: "semi_works S A L P E" and rd: "round_data S A E rand (ss_priv (sv srv)) n ws"
    and new: "distinct (map DataHash ws)" "fresh_on E (sv srv) ws"
  shows "\<exists>s' led'. sb_micro_round S A L P E rand (srv # rest) (Mul S (ss_priv (sv srv)) None) bi n (sv, led) =
      (Ok (map (sb_data rand) [0..<n]), (sv(srv := s'), led')) \<and> sb_same E (DataHash ` set ws) (sv srv) s'"
proof -
  note laws = semi_worksD [OF sys]
  let ?reader = "NewSignerEd25519 A (sb_readerDraw rand)"
  note made = round_data_made [OF laws(1,2,10,6) rd]
  from rd have tr: "\<And>i. \<exists>w. sb_store rand i = Delivered w" "\<And>i. \<exists>w. sb_decrypt rand i = Delivered w"
    and cr: "sb_create S rand ?reader (Mul S (ss_priv (sv srv)) None) [0..<n] = Ok ws" by (auto simp: round_data_def)
  obtain writer darc led1 where s: "sb_setup A L P rand (srv # rest) bi 4 (sv, led) = (Ok (writer, ?reader, darc), (sv, led1))"
    using sb_setup_up [OF laws(11,12,8)] by blast
  obtain wps s' led2 where
    wr: "sb_add_writes A L P E rand (srv # rest) writer darc 3 ws (sv, led1) = (Ok (map keyed ws, wps), (sv(srv := s'), led2))"
    and s': "sb_same E (DataHash ` set ws) (sv srv) s'"
    and wp: "\<And>i. i < n \<Longrightarrow> sb_stored E s' (ws ! i) \<and> write_proved L P (LedgerID L led2) (wps ! i) (ws ! i)"
    using sb_add_writes_ok [where sv = sv and srv = srv and rest = rest and rand = rand and writer = writer and
        darc = darc and led = led1 and A = A, OF laws(4,5,7-9) _ tr(1) _ new, of 3] made(1,2) by auto
  let ?msg = "''Read inclusion proof does not match''"
  obtain ts led3 where row:
    "mapS (\<lambda>i. AddReadTransaction A L P (wps ! i) ?reader darc (row_wait n 3 i)) [0..<n] led2 = (Ok ts, led3)"
    "length ts = n" "tx_later L led2 led3"
    "\<And>led'' i. tx_later L led3 led'' \<Longrightarrow> i < n \<Longrightarrow> \<exists>p. checked_proof L ?msg (tr_InstanceID (ts ! i)) led'' = Ok p \<and>
       read_proved L P (LedgerID L led2) p (wps ! i)"
    using sb_read_row [OF laws(7-9), of 3 A wps ?reader darc n led2 ?msg] by auto
  note id3 = row_law_ID [OF laws(7) row(3)]
  have "\<forall>i. \<exists>p. i < n \<longrightarrow> checked_proof L ?msg (tr_InstanceID (ts ! i)) led3 = Ok p \<and>
       read_proved L P (LedgerID L led3) p (wps ! i)"
    using row(4) [OF tx_refl] id3 by fastforce
  from choice [OF this] obtain p where p: "\<forall>i. i < n \<longrightarrow> checked_proof L ?msg (tr_InstanceID (ts ! i)) led3 = Ok (p i) \<and>
       read_proved L P (LedgerID L led3) (p i) (wps ! i)" by (rule exE)
  then have rps: "mapG (\<lambda>t. checked_proof L ?msg (tr_InstanceID t) led3) ts = Ok (map p [0..<n])"
    using row(2) by (simp add: mapG_Ok_iff list_all2_conv_all_nth)
  have "mapS (\<lambda>i. sb_open S L P E rand i (srv # rest) ?reader (wps ! i) (map p [0..<n] ! i) (map keyed ws ! i))
      [0..<n] (sv(srv := s'), led3) = (Ok (map (sb_data rand) [0..<n]), (sv(srv := s'), led3))"
  proof (rule mapS_stable)
    fix i assume "i \<in> set [0..<n]"
    then have i: "i < n" by simp
    have "sb_open S L P E rand i (srv # rest) ?reader (wps ! i) (p i) (keyed (ws ! i)) (sv(srv := s'), led3) =
        (Ok (sb_data rand i), (sv(srv := s'), led3))"
      using wp [OF i] made(3) [OF i] p i sb_sameD(1) [OF s'] id3
      by (intro sb_open_ok [OF laws(1,3-5) _ _ _ _ tr(2)]) auto
    with i made(1) show "sb_open S L P E rand i (srv # rest) ?reader (wps ! i) (map p [0..<n] ! i) (map keyed ws ! i)
        (sv(srv := s'), led3) = (Ok (sb_data rand i), (sv(srv := s'), led3))" by simp
  qed
  with s cr wr row(1) rps s' show ?thesis
    by (intro exI [of _ s'] exI [of _ led3]) (simp add: sb_micro_round_def on_ledger_def)
qed

lemma sb_multi_round_ok:
  assumes sys: "semi_works S A L P E" and rd: "round_data S A E rand (ss_priv (sv srv)) n ws"
    and new: "distinct (map DataHash ws)" "fresh_on E (sv srv) ws"
    and w: "0 < w" and fair: "\<And>i. i < n \<Longrightarrow> 3 \<le> count_list sched i"
  shows "\<exists>s' led'. sb_multi_round S A L P E rand sched (srv # rest) (Mul S (ss_priv (sv srv)) None) bi w n (sv, led) =
      Some (Ok (replicate n (Ok ())), (sv(srv := s'), led')) \<and> sb_same E (DataHash ` set ws) (sv srv) s'"
proof -
  note laws = semi_worksD [OF sys]
  let ?reader = "NewSignerEd25519 A (sb_readerDraw rand)"
  note made = round_data_made [OF laws(1,2,10,6) rd]
  from rd have tr: "\<And>i. \<exists>w. sb_store rand i = Delivered w" "\<And>i. \<exists>w. sb_decrypt rand i = Delivered w"
    and cr: "sb_create S rand ?reader (Mul S (ss_priv (sv srv)) None) [0..<n] = Ok ws" by (auto simp: round_data_def)
  obtain writer darc led1 where s: "sb_setup A L P rand (srv # rest) bi w (sv, led) = (Ok (writer, ?reader, darc), (sv, led1))"
    using sb_setup_up [OF laws(11,12,8)] by blast
  obtain wps s' led2 where
    wr: "sb_add_writes A L P E rand (srv # rest) writer darc w ws (sv, led1) = (Ok (map keyed ws, wps), (sv(srv := s'), led2))"
    and s': "sb_same E (DataHash ` set ws) (sv srv) s'"
    and wp: "\<And>i. i < n \<Longrightarrow> sb_stored E s' (ws ! i) \<and> write_proved L P (LedgerID L led2) (wps ! i) (ws ! i)"
    using sb_add_writes_ok [where sv = sv and srv = srv and rest = rest and rand = rand and writer = writer and
        darc = darc and led = led1 and A = A, OF laws(4,5,7-9) w tr(1) _ new] made(1,2) by auto
  let ?msg = "''Read inclusion proof does not match''" and ?sv = "sv(srv := s')"
  let ?I = "\<lambda>st. fst st = ?sv \<and> LedgerID L (snd st) = LedgerID L led2"
    and ?Q = "\<lambda>i p. read_proved L P (LedgerID L led2) p (wps ! i)"
  have add: "\<exists>iid st'. bindS (on_ledger (AddReadTransaction A L P (wps ! i) ?reader darc w) st)
        (\<lambda>re st. (Ok (tr_InstanceID re), st)) = (Ok iid, st') \<and> ?I st' \<and> tx_later L (snd st) (snd st') \<and>
      (\<forall>st''. tx_later L (snd st') (snd st'') \<longrightarrow> (\<exists>p. checked_proof L ?msg iid (snd st'') = Ok p \<and> ?Q i p))"
    if "?I st" for i st
  proof -
    have rw: "row_wait (Suc 0) w 0 = w" by (simp add: row_wait_def)
    obtain t led' where r: "AddReadTransaction A L P (wps ! i) ?reader darc w (snd st) = (Ok t, led')"
      "tx_later L (snd st) led'"
      "\<forall>led''. tx_later L led' led'' \<longrightarrow> (\<exists>p. checked_proof L ?msg (tr_InstanceID t) led'' = Ok p \<and>
         read_proved L P (LedgerID L (snd st)) p (wps ! i))"
      using sb_read_row [OF laws(7-9) w, of A "[wps ! i]" ?reader darc 1 "snd st" ?msg]
      by (auto simp: rw go_simps)
    with that row_law_ID [OF laws(7) r(2)] show ?thesis
      by (cases st) (auto simp: on_ledger_def)
  qed
  have "\<exists>st'. run_clients (\<lambda>i. sb_client S A L P E rand (srv # rest) i (map keyed ws ! i) (wps ! i) ?reader darc
      (sb_data rand i) w) sched n (?sv, led2) = Some (Ok (replicate n (Ok ())), st') \<and> ?I st'"
    unfolding sb_client_def
  proof (rule run_clients_ok [where later = "\<lambda>st st'. tx_later L (snd st) (snd st')" and Q = ?Q])
    fix i p st assume i: "i < n" and st: "?I st" and p: "?Q i p"
    have "sb_open S L P E rand i (srv # rest) ?reader (wps ! i) p (keyed (ws ! i)) (?sv, snd st) =
        (Ok (sb_data rand i), (?sv, snd st))"
      using wp [OF i] made(3) [OF i] p st sb_sameD(1) [OF s']
      by (intro sb_open_ok [OF laws(1,3-5) _ _ _ _ tr(2)]) auto
    moreover have "st = (?sv, snd st)" using st by (simp add: prod_eq_iff)
    ultimately show "bindS (sb_open S L P E rand i (srv # rest) ?reader (wps ! i) p (map keyed ws ! i) st) (\<lambda>data st.
        (if data \<noteq> sb_data rand i then Err (Error ''Incorrect decryption'') else Ok (), st)) = (Ok (), st)"
      using i made(1) by simp
  next
    fix st st' st'' assume "tx_later L (snd st) (snd st')" "tx_later L (snd st') (snd st'')"
    then show "tx_later L (snd st) (snd st'')" by (rule tx_later_trans [rotated])
  qed (use add fair in auto)
  then obtain st' where run: "run_clients (\<lambda>i. sb_client S A L P E rand (srv # rest) i (map keyed ws ! i) (wps ! i) ?reader
      darc (sb_data rand i) w) sched n (?sv, led2) = Some (Ok (replicate n (Ok ())), st')" and st': "fst st' = ?sv"
    by blast
  have "sb_multi_round S A L P E rand sched (srv # rest) (Mul S (ss_priv (sv srv)) None) bi w n (sv, led) =
      Some (Ok (replicate n (Ok ())), (?sv, snd st'))"
    unfolding sb_multi_round_def s cr wr bindO_simps prod.case run by (simp add: prod_eq_iff st')
  with s' show ?thesis by blast
qed

text \<open>Rounds whose write data all have different hashes.\<close>

lemma sb_rounds:
  assumes "\<And>r sv led. r \<in> set rs \<Longrightarrow> ss_priv (sv srv) = sk \<Longrightarrow> fresh_on E (sv srv) (ws r) \<Longrightarrow>
      \<exists>s' led'. f r (sv, led) = Some (Ok (g r), (sv(srv := s'), led')) \<and> sb_same E (DataHash ` set (ws r)) (sv srv) s'"
    and "distinct (concat (map (map DataHash \<circ> ws) rs))" and "ss_priv (sv srv) = sk"
    and "\<And>r. r \<in> set rs \<Longrightarrow> fresh_on E (sv srv) (ws r)"
  shows "\<exists>st'. mapO f rs (sv, led) = Some (Ok (map g rs), st')"
  using assms
proof (induction rs arbitrary: sv led)
  case (Cons r rs)
  obtain s' led' where r: "f r (sv, led) = Some (Ok (g r), (sv(srv := s'), led'))"
    and s': "sb_same E (DataHash ` set (ws r)) (sv srv) s'"
    using Cons.prems(1) [of r sv led, OF _ Cons.prems(3) Cons.prems(4)] by (metis list.set_intros(1))
  have "\<exists>st'. mapO f rs (sv(srv := s'), led') = Some (Ok (map g rs), st')"
  proof (rule Cons.IH)
    fix q assume q: "q \<in> set rs"
    show "fresh_on E ((sv(srv := s')) srv) (ws q)"
      unfolding fresh_on_def
    proof
      fix wd assume wd: "wd \<in> set (ws q)"
      with q Cons.prems(2) have "DataHash wd \<notin> DataHash ` set (ws r)" by auto
      with sb_sameD(3) [OF s' this] Cons.prems(4) [of q] q wd
      show "bGet E (ss_db ((sv(srv := s')) srv)) (ss_bucket ((sv(srv := s')) srv)) (DataHash wd) = None"
        by (simp add: fresh_on_def)
    qed
  qed (use Cons.prems(1-3) sb_sameD(1) [OF s'] in auto)
  with r show ?case by auto
qed simp

lemma distinct_rounds:
  assumes "distinct (concat (map (map DataHash \<circ> ws) rs))" and "r \<in> set rs"
  shows "distinct (map DataHash (ws r))"
  using assms by (induction rs) auto

text \<open>Write data as the clients keep them: the hash is that of the ciphertext, the stored key names the
  ciphertext by its hash, and the server's key and then the reader's key open it to \<open>d\<close>.\<close>

definition write_typed :: "('pt, 'sc, 'rnd) suite \<Rightarrow> 'sc \<Rightarrow> 'sc \<Rightarrow> 'pt WriteData \<Rightarrow> bytes \<Rightarrow> bool" where
  "write_typed S sk rsk wd d \<longleftrightarrow>
     DataHash wd = Sum256 S (Data wd) \<and> StoredKey wd = EncodeToString (DataHash wd) \<and> sb_made S sk rsk wd d"

lemma sb_store_write_keyed:
  assumes "store_law E" and "sb_store_write E tr roster wd sv = (Ok wd', sv')"
  shows "wd' = keyed wd"
proof -
  from assms(2) obtain reply where rep: "api_StoreData E tr roster sv (Data wd) (DataHash wd) = (Ok reply, sv')"
    and wd': "wd' = wd\<lparr>StoredKey := sr_StoredKey reply\<rparr>"
    by (auto simp: sb_store_write_def go_simps)
  from rep obtain dest where
    "SendProtobuf tr (StoreData E) sv dest \<lparr>sr_Data = Data wd, sr_DataHash = DataHash wd\<rparr> = (Ok reply, sv')"
    by (auto simp: api_StoreData_def split: go.splits)
  from SendProtobuf_Ok [OF this] obtain db' where
    "db_StoreData E (ss_bucket (sv dest)) (ss_db (sv dest)) \<lparr>sr_Data = Data wd, sr_DataHash = DataHash wd\<rparr> =
      (Ok (sr_StoredKey reply), db')" by (auto simp: StoreData_Ok_iff)
  from db_StoreData_OkD [OF assms(1) this] wd' show ?thesis by simp
qed

lemma sb_store_keyed_row:
  assumes "store_law E"
    and "mapS (\<lambda>i. sb_store_write E (tr i) roster (ws ! i)) js sv = (Ok wds, sv')"
  shows "wds = map (\<lambda>i. keyed (ws ! i)) js"
  using assms(2)
proof (induction js arbitrary: sv wds)
  case (Cons i js)
  then obtain wd sv1 wds' where "sb_store_write E (tr i) roster (ws ! i) sv = (Ok wd, sv1)" "wds = wd # wds'"
    "mapS (\<lambda>i. sb_store_write E (tr i) roster (ws ! i)) js sv1 = (Ok wds', sv')" by (auto simp: go_simps)
  with Cons.IH sb_store_write_keyed [OF assms(1)] show ?case by simp
qed simp

section \<open>A concrete system\<close>

abbreviation sb_ledger :: "(Instruction list, example_proof, (int, int) key_signer, unit) ledger" where
  "sb_ledger \<equiv> spawn_ledger"

abbreviation sb_rand :: "int sb_random" where
  "sb_rand \<equiv> \<lparr>sb_adminDraw = 1, sb_writerDraw = 2, sb_readerDraw = 3, sb_darcNonce = [4],
     sb_data = (\<lambda>i. [word_of_nat i]), sb_entropy = (\<lambda>_. sc_entropy), sb_serverDraw1 = int,
     sb_serverDraw2 = (\<lambda>i. int i + 5), sb_store = (\<lambda>_. Delivered id), sb_decrypt = (\<lambda>_. Delivered id)\<rparr>"

lemma sb_example_works: "semi_works example_suite example_darcs sb_ledger example_calypso sc_env"
  by (simp add: semi_works_def signer_law_def darcs_up_def genesis_up_def example_darcs_def)
    (simp add: example_suite_def)

text \<open>The write data of \<open>n\<close> transactions.\<close>

definition sb_example :: "nat \<Rightarrow> int WriteData list" where
  "sb_example n = (case sb_create example_suite sb_rand sc_reader 7 [0..<n] of Ok ws \<Rightarrow> ws | _ \<Rightarrow> [])"

lemma sb_example_data:
  "sb_create example_suite sb_rand sc_reader 7 [0..<n] = Ok (sb_example n)"
  "map DataHash (sb_example n) =
     map (\<lambda>i. 1 # word_of_nat i # replicate 16 5 @ replicate 12 9 @ replicate 12 9) [0..<n]"
proof -
  have mb: "MarshalBinary example_suite 3 = Ok [3, 0]" by (simp add: example_suite_def)
  have wd: "\<exists>wd. CreateWriteData example_suite sc_entropy d 3 7 True = Ok wd \<and>
      DataHash wd = 1 # d @ replicate 16 5 @ replicate 12 9 @ replicate 12 9" for d
    using CreateWriteData_semi [OF sc_entropy_ok _ _ mb, of _ _ d 7] CreateWriteData_OkD(2)
    by (fastforce simp: example_suite_def)
  have "\<exists>ws. sb_create example_suite sb_rand sc_reader 7 js = Ok ws \<and>
      map DataHash ws = map (\<lambda>i. 1 # word_of_nat i # replicate 16 5 @ replicate 12 9 @ replicate 12 9) js" for js
  proof (induction js)
    case (Cons i js)
    obtain wd where "CreateWriteData example_suite sc_entropy [word_of_nat i] 3 7 True = Ok wd"
      "DataHash wd = 1 # [word_of_nat i] @ replicate 16 5 @ replicate 12 9 @ replicate 12 9" using wd by blast
    with Cons show ?case by (auto simp: sb_create_def)
  qed (simp add: sb_create_def)
  then obtain ws where "sb_create example_suite sb_rand sc_reader 7 [0..<n] = Ok ws"
    "map DataHash ws = map (\<lambda>i. 1 # word_of_nat i # replicate 16 5 @ replicate 12 9 @ replicate 12 9) [0..<n]" by blast
  then show "sb_create example_suite sb_rand sc_reader 7 [0..<n] = Ok (sb_example n)"
    "map DataHash (sb_example n) =
       map (\<lambda>i. 1 # word_of_nat i # replicate 16 5 @ replicate 12 9 @ replicate 12 9) [0..<n]"
    by (simp_all add: sb_example_def)
qed

lemma sb_example_round: "round_data example_suite example_darcs sc_env sb_rand 7 n (sb_example n)"
  using sb_example_data(1) by (simp add: round_data_def example_darcs_def) (simp add: example_suite_def)

lemma sb_example_new:
  assumes "n \<le> 256"
  shows "distinct (map DataHash (sb_example n))" and "fresh_on sc_env sc_server (sb_example n)"
proof -
  have "inj_on (word_of_nat :: nat \<Rightarrow> byte) {0..<n}"
    using assms by (auto simp: inj_on_def word_of_nat_eq_iff take_bit_nat_eq_self)
  then have "inj_on (\<lambda>i. 1 # (word_of_nat i :: byte) # replicate 16 5 @ replicate 12 9 @ replicate 12 9) {0..<n}"
    by (auto simp: inj_on_def)
  then show "distinct (map DataHash (sb_example n))"
    unfolding sb_example_data(2) distinct_map by simp
qed (simp add: fresh_on_def)

section \<open>Properties\<close>

text \<open>C35. The microbenchmark of the semi-centralised simulation: on a working system, when the ciphertexts of all
  rounds have different hashes and none is on the server, every round recovers exactly the data it wrote, in order.\<close>

theorem semi_microbenchmark_recovers:
  assumes "semi_works S A L P E"
    and "\<And>r. r < rounds \<Longrightarrow> round_data S A E (rand r) (ss_priv (sv srv)) n (ws r)"
    and "distinct (concat (map (map DataHash \<circ> ws) [0..<rounds]))"
    and "\<And>r. r < rounds \<Longrightarrow> fresh_on E (sv srv) (ws r)"
  shows "fst (sb_runMicrobenchmark S A L P E rand (srv # rest) (Mul S (ss_priv (sv srv)) None) blockInterval n rounds
      (sv, led)) = Ok (map (\<lambda>r. map (sb_data (rand r)) [0..<n]) [0..<rounds])"
proof -
  have "\<exists>s' led''. Some (sb_micro_round S A L P E (rand r) (srv # rest) (Mul S (ss_priv (sv srv)) None) blockInterval n
        (sv', led')) = Some (Ok (map (sb_data (rand r)) [0..<n]), (sv'(srv := s'), led'')) \<and>
      sb_same E (DataHash ` set (ws r)) (sv' srv) s'"
    if "r \<in> set [0..<rounds]" "ss_priv (sv' srv) = ss_priv (sv srv)" "fresh_on E (sv' srv) (ws r)" for r sv' led'
    using sb_micro_round_ok [where sv = sv' and srv = srv and rand = "rand r" and ws = "ws r", OF assms(1) _ _ that(3)]
      assms(2) [of r] that(1,2) distinct_rounds [OF assms(3) that(1)] by simp
  from sb_rounds [where rs = "[0..<rounds]" and sk = "ss_priv (sv srv)" and ws = ws and sv = sv and srv = srv and E = E and led = led and
      g = "\<lambda>r. map (sb_data (rand r)) [0..<n]" and f = "\<lambda>r st. Some (sb_micro_round S A L P E (rand r) (srv # rest)
      (Mul S (ss_priv (sv srv)) None) blockInterval n st)", OF this assms(3) refl] assms(4)
  show ?thesis by (auto simp: sb_runMicrobenchmark_def mapO_mapS)
qed

theorem semi_microbenchmark_recovers_witness:
  "fst (sb_runMicrobenchmark example_suite example_darcs sb_ledger example_calypso sc_env (\<lambda>_. sb_rand) [()] 7 5 2 1
     ((\<lambda>_. sc_server), [])) = Ok [[[0], [1]]]"
proof -
  have "Mul example_suite 7 None = 7" by (simp add: example_suite_def)
  with semi_microbenchmark_recovers [where rounds = 1 and n = 2 and ws = "\<lambda>_. sb_example 2" and rand = "\<lambda>_. sb_rand" and
      sv = "\<lambda>_. sc_server" and srv = "()" and rest = "[]" and blockInterval = 5 and led = "[]", OF sb_example_works]
    sb_example_round [of 2] sb_example_new [of 2]
  show ?thesis by (simp add: numeral_2_eq_2)
qed

text \<open>C36. Clients that read at the same time, the simulation that \<open>Run\<close> starts, under every interleaving: when
  each client moves at least three times in the schedule of its round, \<open>wg.Wait()\<close> returns in every round, no client
  logs an error (each decrypted the data of its own write), and \<open>Run\<close> returns without an error.\<close>

theorem semi_clients_every_schedule:
  assumes "semi_works S A L P E"
    and "\<And>r. r < rounds \<Longrightarrow> round_data S A E (rand r) (ss_priv (sv srv)) n (ws r)"
    and "distinct (concat (map (map DataHash \<circ> ws) [0..<rounds]))"
    and "\<And>r. r < rounds \<Longrightarrow> fresh_on E (sv srv) (ws r)"
    and "0 < blockWait" and "\<And>r i. r < rounds \<Longrightarrow> i < n \<Longrightarrow> 3 \<le> count_list (sched r) i"
    and "pub srv = Mul S (ss_priv (sv srv)) None"
  shows "\<exists>st'. runMultiClientSimulation S A L P E rand sched (srv # rest) (pub srv) blockInterval blockWait n rounds
      (sv, led) = Some (Ok (replicate rounds (replicate n (Ok ()))), st') \<and>
    sb_Run S A L P E rand sched (srv # rest) pub blockInterval blockWait n rounds (sv, led) = Some (Ok (), st')"
proof -
  have "\<exists>s' led''. sb_multi_round S A L P E (rand r) (sched r) (srv # rest) (pub srv) blockInterval blockWait n
        (sv', led') = Some (Ok (replicate n (Ok ())), (sv'(srv := s'), led'')) \<and>
      sb_same E (DataHash ` set (ws r)) (sv' srv) s'"
    if "r \<in> set [0..<rounds]" "ss_priv (sv' srv) = ss_priv (sv srv)" "fresh_on E (sv' srv) (ws r)" for r sv' led'
    using sb_multi_round_ok [where sv = sv' and srv = srv and rand = "rand r" and ws = "ws r" and sched = "sched r" and
        n = n, OF assms(1) _ _ that(3) assms(5)]
      assms(2,6) [of r] that(1,2) distinct_rounds [OF assms(3) that(1)] assms(7) by simp
  from sb_rounds [where rs = "[0..<rounds]" and sk = "ss_priv (sv srv)" and ws = ws and sv = sv and srv = srv and E = E and led = led and
      g = "\<lambda>_. replicate n (Ok ())" and f = "\<lambda>r. sb_multi_round S A L P E (rand r) (sched r) (srv # rest) (pub srv) blockInterval
      blockWait n", OF this assms(3) refl] assms(4)
  show ?thesis by (auto simp: runMultiClientSimulation_def sb_Run_def map_replicate_const)
qed

theorem semi_clients_every_schedule_witness:
  "\<exists>st'. runMultiClientSimulation example_suite example_darcs sb_ledger example_calypso sc_env (\<lambda>_. sb_rand)
     (\<lambda>_. [0, 1, 1, 0, 1, 0]) [()] 7 5 2 2 1 ((\<lambda>_. sc_server), []) = Some (Ok [[Ok (), Ok ()]], st')"
proof -
  have "3 \<le> count_list [0, 1, 1, 0, 1, 0 :: nat] i" if "i < 2" for i :: nat
    using that by (auto simp: less_Suc_eq numeral_2_eq_2)
  moreover have "7 = Mul example_suite 7 None" by (simp add: example_suite_def)
  ultimately show ?thesis
    using semi_clients_every_schedule [where rounds = 1 and n = 2 and ws = "\<lambda>_. sb_example 2" and rand = "\<lambda>_. sb_rand" and
        sv = "\<lambda>_. sc_server" and srv = "()" and rest = "[]" and blockInterval = 5 and led = "[]" and blockWait = 2 and
        pub = "\<lambda>_. 7" and sched = "\<lambda>_. [0, 1, 1, 0, 1, 0]", OF sb_example_works]
      sb_example_round [of 2] sb_example_new [of 2] by (auto simp: numeral_2_eq_2)
qed

text \<open>C40. The type of write data: whatever the servers, the transport and the ledger do, when the creation and the
  writes of a round succeed, there is a proof for every transaction and every entry of \<open>wdList\<close> is well-formed: its
  hash and its stored key are those of its ciphertext, and it opens to the data of its transaction.\<close>

theorem semi_write_data_typed:
  assumes "group_law S" and "aead_law S" and "store_law E" and "\<And>i. entropy_ok (sb_entropy rand i)"
    and "sg_Point reader = Mul S (sg_Secret reader) None"
    and "sb_create S rand reader (Mul S sk None) [0..<n] = Ok ws"
    and "sb_add_writes A L P E rand roster writer wDarc wait ws st = (Ok (wds, ps), st')"
  shows "length wds = n \<and> length ps = n \<and>
    (\<forall>i < n. write_typed S sk (sg_Secret reader) (wds ! i) (sb_data rand i))"
proof -
  from assms(6) have cr: "list_all2 (\<lambda>i wd. CreateWriteData S (sb_entropy rand i) (sb_data rand i)
      (Mul S (sg_Secret reader) None) (Mul S sk None) True = Ok wd) [0..<n] ws"
    by (simp add: sb_create_def mapG_Ok_iff assms(5))
  then have len: "length ws = n" by (auto dest: list_all2_lengthD)
  from assms(7) obtain sv' where stored:
    "mapS (\<lambda>i. sb_store_write E (sb_store rand i) roster (ws ! i)) [0..<n] (fst st) = (Ok wds, sv')"
    by (auto simp: sb_add_writes_def go_simps on_servers_def len split: prod.splits)
  from sb_store_keyed_row [OF assms(3) stored] have wds: "wds = map (\<lambda>i. keyed (ws ! i)) [0..<n]" .
  obtain res led' where m: "mapS (\<lambda>i. AddWriteTransaction A L P (wds ! i) writer wDarc (row_wait n wait i)) [0..<n] (snd st) =
      (res, led')" by (cases "mapS (\<lambda>i. AddWriteTransaction A L P (wds ! i) writer wDarc (row_wait n wait i)) [0..<n] (snd st)")
  with assms(7) obtain ts where ts: "res = Ok ts" "list_all2 (\<lambda>t p. checked_proof L ''Write inclusion proof does not match''
      (tr_InstanceID t) led' = Ok p) ts ps"
    using stored by (auto simp: sb_add_writes_def go_simps on_servers_def on_ledger_def len mapG_Ok_iff)
  from mapS_length [OF m [unfolded ts(1)]] list_all2_lengthD [OF ts(2)] have "length ps = n" by simp
  moreover have "write_typed S sk (sg_Secret reader) (keyed (ws ! i)) (sb_data rand i)" if "i < n" for i
  proof -
    from cr that len have c: "CreateWriteData S (sb_entropy rand i) (sb_data rand i) (Mul S (sg_Secret reader) None)
        (Mul S sk None) True = Ok (ws ! i)" by (simp add: list_all2_conv_all_nth)
    from sb_made_created [OF assms(1,2,4) c] CreateWriteData_OkD(2) [OF c] show ?thesis
      by (auto simp: write_typed_def sb_made_def)
  qed
  ultimately show ?thesis by (simp add: wds)
qed

theorem semi_write_data_typed_witness:
  "\<exists>wds ps st'. sb_add_writes example_darcs sb_ledger example_calypso sc_env sb_rand [()] sc_reader [4] 3 (sb_example 2)
     ((\<lambda>_. sc_server), []) = (Ok (wds, ps), st') \<and> length wds = 2 \<and> write_typed example_suite 7 3 (wds ! 1) [1]"
proof -
  have pk: "Mul example_suite r None = r" for r by (simp add: example_suite_def)
  note laws = semi_worksD [OF sb_example_works]
  note made = round_data_made [OF laws(1,2,10,6) sb_example_round [of 2]]
  obtain ps st' where w: "sb_add_writes example_darcs sb_ledger example_calypso sc_env sb_rand [()] sc_reader [4] 3
      (sb_example 2) ((\<lambda>_. sc_server), []) = (Ok (map keyed (sb_example 2), ps), st')"
    using sb_add_writes_ok [where sv = "\<lambda>_. sc_server" and srv = "()" and rest = "[]" and rand = sb_rand and
        ws = "sb_example 2" and led = "[]" and w = 3 and writer = sc_reader and darc = "[4]" and A = example_darcs,
        OF laws(4,5,7-9)] made(1,2) sb_example_new [of 2] by auto
  have "sb_create example_suite sb_rand sc_reader (Mul example_suite 7 None) [0..<2] = Ok (sb_example 2)"
    unfolding pk by (rule sb_example_data(1))
  from semi_write_data_typed [OF laws(1,2,4) _ _ this w]
  have "length (map keyed (sb_example 2)) = 2"
    "\<forall>i < 2. write_typed example_suite 7 3 (map keyed (sb_example 2) ! i) [word_of_nat i]"
    by (auto simp: pk entropy_ok_def)
  from this(1) spec [OF this(2), of 1] have
    "length (map keyed (sb_example 2)) = 2 \<and> write_typed example_suite 7 3 (map keyed (sb_example 2) ! 1) [1]" by simp
  from conjI [OF w this] show ?thesis by blast
qed

end
