(* ===== verification/Block_Replay.thy ===== *)
theory Block_Replay
  imports Byzcoin_Api Aux_File
begin

text \<open>
  The loops in which the simulations of Calypso and of the semi-centralised system replay a list of
  transactions in blocks (\<open>runByzgenSimulation\<close> of \<open>src/calypso_simulation/service.go\<close> and of
  \<open>src/semi_centralized/simulation/service.go\<close>). The two functions have the same loops and counters
  and differ in the calls: \<open>replay_ops\<close> holds the calls, over the state \<open>'s\<close> they change.
\<close>

section \<open>The loops\<close>

record 's replay_ops =
  op_write :: "nat \<Rightarrow> nat \<Rightarrow> int \<Rightarrow> 's \<Rightarrow> bytes go \<times> 's" \<comment> \<open>\<open>writeIdx\<close>, \<open>fixedIdx\<close>, \<open>wait\<close>\<close>
  op_read :: "nat \<Rightarrow> int \<Rightarrow> 's \<Rightarrow> bytes go \<times> 's" \<comment> \<open>\<open>readIdx\<close>, \<open>wait\<close>\<close>
  op_prove :: "bytes option \<Rightarrow> 's \<Rightarrow> unit go \<times> 's" \<comment> \<open>the reply of a write\<close>
  op_decrypt :: "nat \<Rightarrow> bytes option \<Rightarrow> 's \<Rightarrow> unit go \<times> 's" \<comment> \<open>\<open>readIdx-j\<close> and the reply of that read\<close>

text \<open>The counters, and the lists of the replies, \<open>None\<close> where there is none yet. \<open>fixedIdx\<close> is a
  counter of the Calypso simulation only.\<close>

record byzgen_state =
  txnIdx :: nat
  writeIdx :: nat
  readIdx :: nat
  fixedIdx :: nat
  writeTxnList :: "bytes option list"
  readTxnList :: "bytes option list"

text \<open>An assignment \<open>xs[i], err = call\<close>: the call comes first, then the index is checked, then the error.\<close>

definition assign_reply :: "bytes option list \<Rightarrow> nat \<Rightarrow> bytes go \<Rightarrow> bytes option list go" where
  "assign_reply xs i res =
     (case res of
        Panic p \<Rightarrow> Panic p
      | Err e \<Rightarrow> if i < length xs then Err e else Panic IndexOutOfRange
      | Ok t \<Rightarrow> if i < length xs then Ok (xs[i := Some t]) else Panic IndexOutOfRange)"

text \<open>The field of a reply that may be nil.\<close>

definition deref :: "'a option \<Rightarrow> 'a go" where
  "deref x = (case x of None \<Rightarrow> Panic NilDereference | Some y \<Rightarrow> Ok y)"

definition block_txn ::
    "'s replay_ops \<Rightarrow> int list \<Rightarrow> nat \<Rightarrow> nat \<Rightarrow> byzgen_state \<Rightarrow> 's \<Rightarrow> byzgen_state go \<times> 's" where
  "block_txn ops txnList blkSize i st s =
     bindS (index_go txnList (txnIdx st), s) (\<lambda>k s.
     if k = 1 then
       (case op_write ops (writeIdx st) (fixedIdx st) (row_wait blkSize 3 i) s of
          (res, s') \<Rightarrow>
            (bindG (assign_reply (writeTxnList st) (writeIdx st) res) (\<lambda>ts.
             Ok (st\<lparr>writeTxnList := ts, fixedIdx := fixedIdx st + 1, writeIdx := writeIdx st + 1,
                    txnIdx := txnIdx st + 1\<rparr>)), s'))
     else
       (case op_read ops (readIdx st) (row_wait blkSize 3 i) s of
          (res, s') \<Rightarrow>
            (bindG (assign_reply (readTxnList st) (readIdx st) res) (\<lambda>ts.
             Ok (st\<lparr>readTxnList := ts, readIdx := readIdx st + 1, txnIdx := txnIdx st + 1\<rparr>)), s')))"

fun block_loop ::
    "'s replay_ops \<Rightarrow> int list \<Rightarrow> nat \<Rightarrow> nat list \<Rightarrow> byzgen_state \<Rightarrow> 's \<Rightarrow> byzgen_state go \<times> 's" where
  "block_loop ops txnList blkSize [] st s = (Ok st, s)"
| "block_loop ops txnList blkSize (i # is) st s =
     bindS (block_txn ops txnList blkSize i st s) (\<lambda>st. block_loop ops txnList blkSize is st)"

text \<open>The proofs and keys of a block, from its last transaction back; \<open>st\<close> is the state before the
  block and \<open>st'\<close> the one after it.\<close>

definition block_checks :: "'s replay_ops \<Rightarrow> byzgen_state \<Rightarrow> byzgen_state \<Rightarrow> 's \<Rightarrow> unit go \<times> 's" where
  "block_checks ops st st' s =
     bindS (mapS (\<lambda>j. op_prove ops (writeTxnList st' ! (writeIdx st' - j - 1)))
              [0..<writeIdx st' - writeIdx st] s) (\<lambda>_ s.
     bindS (mapS (\<lambda>j. op_decrypt ops (readIdx st' - j) (readTxnList st' ! (readIdx st' - j)))
              [1..<readIdx st' - readIdx st + 1] s) (\<lambda>_ s.
     (Ok (), s)))"

text \<open>The sizes of the blocks are used up one by one, so the loop ends: it runs out of transactions,
  or out of sizes, and then panics.\<close>

function replay_blocks ::
    "'s replay_ops \<Rightarrow> int list \<Rightarrow> int list \<Rightarrow> nat \<Rightarrow> byzgen_state \<Rightarrow> 's \<Rightarrow> byzgen_state go \<times> 's" where
  "replay_blocks ops txnList blkSizeList blkSizeIdx st s =
     (if txnIdx st < length txnList then
        bindS (index_go blkSizeList blkSizeIdx, s) (\<lambda>blkSize s.
        bindS (block_loop ops txnList (nat blkSize) [0..<nat blkSize] st s) (\<lambda>st' s.
        bindS (block_checks ops st st' s) (\<lambda>_ s.
        replay_blocks ops txnList blkSizeList (blkSizeIdx + 1) st' s)))
      else (Ok st, s))"
  by pat_completeness auto
termination
  by (relation "measure (\<lambda>(ops, txnList, blkSizeList, blkSizeIdx, st, s). length blkSizeList - blkSizeIdx)")
    (auto simp: go_simps)

declare replay_blocks.simps [simp del]

text \<open>The calls are those of the round: what is drawn, and which requests are lost, depends on it.\<close>

fun replay_rounds ::
    "(nat \<Rightarrow> 's replay_ops) \<Rightarrow> int list \<Rightarrow> int list \<Rightarrow> nat list \<Rightarrow> byzgen_state \<Rightarrow> 's \<Rightarrow> unit go \<times> 's" where
  "replay_rounds ops txnList blkSizeList [] st s = (Ok (), s)"
| "replay_rounds ops txnList blkSizeList (round # rounds) st s =
     bindS (replay_blocks (ops round) txnList blkSizeList 0
              (st\<lparr>txnIdx := 0, writeIdx := 0, readIdx := 0, fixedIdx := 0\<rparr>) s) (\<lambda>st s.
     replay_rounds ops txnList blkSizeList rounds st s)"

definition replay_start :: "nat \<Rightarrow> nat \<Rightarrow> byzgen_state" where
  "replay_start numWrite numRead =
     \<lparr>txnIdx = 0, writeIdx = 0, readIdx = 0, fixedIdx = 0, writeTxnList = replicate numWrite None,
      readTxnList = replicate numRead None\<rparr>"

section \<open>A block\<close>

abbreviation writes :: "int list \<Rightarrow> nat" where
  "writes ks \<equiv> length (filter ((=) 1) ks)"

abbreviation reads :: "int list \<Rightarrow> nat" where
  "reads ks \<equiv> length (filter ((\<noteq>) 1) ks)"

text \<open>The calls of a block in a row, and the state after them.\<close>

fun op_row ::
    "'s replay_ops \<Rightarrow> nat \<Rightarrow> nat \<Rightarrow> nat \<Rightarrow> nat \<Rightarrow> nat \<Rightarrow> int list \<Rightarrow> 's \<Rightarrow> bytes list go \<times> 's" where
  "op_row ops n i w f r [] s = (Ok [], s)"
| "op_row ops n i w f r (k # ks) s =
     bindS (if k = 1 then op_write ops w f (row_wait n 3 i) s else op_read ops r (row_wait n 3 i) s) (\<lambda>t s.
     bindS (if k = 1 then op_row ops n (i + 1) (w + 1) (f + 1) r ks s
            else op_row ops n (i + 1) w f (r + 1) ks s) (\<lambda>ts s.
     (Ok (t # ts), s)))"

fun advance :: "int list \<Rightarrow> bytes list \<Rightarrow> byzgen_state \<Rightarrow> byzgen_state" where
  "advance (k # ks) (t # ts) st =
     advance ks ts
       (if k = 1 then st\<lparr>writeTxnList := (writeTxnList st)[writeIdx st := Some t], fixedIdx := fixedIdx st + 1,
                         writeIdx := writeIdx st + 1, txnIdx := txnIdx st + 1\<rparr>
        else st\<lparr>readTxnList := (readTxnList st)[readIdx st := Some t], readIdx := readIdx st + 1,
                txnIdx := txnIdx st + 1\<rparr>)"
| "advance _ _ st = st"

lemma op_row_length: "op_row ops n i w f r ks s = (Ok ts, s') \<Longrightarrow> length ts = length ks"
  by (induction ks arbitrary: i w f r s ts) (fastforce simp: go_simps split: if_splits)+

lemma block_loop_row:
  assumes "op_row ops n i (writeIdx st) (fixedIdx st) (readIdx st) ks s = (Ok ts, s')"
    and "take (length ks) (drop (txnIdx st) txnList) = ks"
    and "writeIdx st + writes ks \<le> length (writeTxnList st)"
    and "readIdx st + reads ks \<le> length (readTxnList st)"
  shows "block_loop ops txnList n [i..<i + length ks] st s = (Ok (advance ks ts st), s')"
  using assms
proof (induction ks arbitrary: i st s ts)
  case (Cons k ks)
  from Cons.prems(2) obtain xs where d: "drop (txnIdx st) txnList = k # xs" "take (length ks) xs = ks"
    by (cases "drop (txnIdx st) txnList") auto
  have lt: "txnIdx st < length txnList" using d(1) by (metis drop_all linorder_not_le list.distinct(1))
  have k: "txnList ! txnIdx st = k" by (rule nth_via_drop [OF d(1)])
  have rest: "take (length ks) (drop (Suc (txnIdx st)) txnList) = ks"
    using d Cons_nth_drop_Suc [OF lt] by simp
  have up: "[i..<i + length (k # ks)] = i # [i + 1..<i + 1 + length ks]" by (subst upt_conv_Cons) simp_all
  show ?case
  proof (cases "k = 1")
    case True
    with Cons.prems(1) obtain t s1 ts' where
      op: "op_write ops (writeIdx st) (fixedIdx st) (row_wait n 3 i) s = (Ok t, s1)"
        "op_row ops n (i + 1) (writeIdx st + 1) (fixedIdx st + 1) (readIdx st) ks s1 = (Ok ts', s')" "ts = t # ts'"
      by (auto simp: go_simps)
    let ?st = "st\<lparr>writeTxnList := (writeTxnList st)[writeIdx st := Some t], fixedIdx := fixedIdx st + 1,
      writeIdx := writeIdx st + 1, txnIdx := txnIdx st + 1\<rparr>"
    have "block_loop ops txnList n [i + 1..<i + 1 + length ks] ?st s1 = (Ok (advance ks ts' ?st), s')"
      using op(2) rest Cons.prems(3,4) True by (intro Cons.IH) simp_all
    with True lt k op Cons.prems(3) show ?thesis unfolding up by (simp add: block_txn_def assign_reply_def)
  next
    case False
    with Cons.prems(1) obtain t s1 ts' where
      op: "op_read ops (readIdx st) (row_wait n 3 i) s = (Ok t, s1)"
        "op_row ops n (i + 1) (writeIdx st) (fixedIdx st) (readIdx st + 1) ks s1 = (Ok ts', s')" "ts = t # ts'"
      by (auto simp: go_simps)
    let ?st = "st\<lparr>readTxnList := (readTxnList st)[readIdx st := Some t], readIdx := readIdx st + 1,
      txnIdx := txnIdx st + 1\<rparr>"
    have "block_loop ops txnList n [i + 1..<i + 1 + length ks] ?st s1 = (Ok (advance ks ts' ?st), s')"
      using op(2) rest Cons.prems(3,4) False by (intro Cons.IH) simp_all
    with False lt k op Cons.prems(4) show ?thesis unfolding up by (simp add: block_txn_def assign_reply_def)
  qed
qed simp

lemma advance_counters:
  "length ts = length ks \<Longrightarrow>
     txnIdx (advance ks ts st) = txnIdx st + length ks \<and> writeIdx (advance ks ts st) = writeIdx st + writes ks \<and>
     readIdx (advance ks ts st) = readIdx st + reads ks \<and> fixedIdx (advance ks ts st) = fixedIdx st + writes ks \<and>
     length (writeTxnList (advance ks ts st)) = length (writeTxnList st) \<and>
     length (readTxnList (advance ks ts st)) = length (readTxnList st)"
  by (induction ks ts st rule: advance.induct) auto

text \<open>The replies of a block are in the lists, each at its number.\<close>

lemma advance_write:
  assumes "length ts = length ks" and "writeIdx st + writes ks \<le> length (writeTxnList st)"
    and "j < writeIdx st + writes ks"
  shows "if j < writeIdx st then writeTxnList (advance ks ts st) ! j = writeTxnList st ! j
    else \<exists>m < length ks. ks ! m = 1 \<and> writeTxnList (advance ks ts st) ! j = Some (ts ! m)"
  using assms
proof (induction ks ts st rule: advance.induct)
  case (1 k ks t ts st)
  let ?st = "if k = 1 then st\<lparr>writeTxnList := (writeTxnList st)[writeIdx st := Some t], fixedIdx := fixedIdx st + 1,
                         writeIdx := writeIdx st + 1, txnIdx := txnIdx st + 1\<rparr>
        else st\<lparr>readTxnList := (readTxnList st)[readIdx st := Some t], readIdx := readIdx st + 1,
                txnIdx := txnIdx st + 1\<rparr>"
  have IH: "if j < writeIdx ?st then writeTxnList (advance ks ts ?st) ! j = writeTxnList ?st ! j
    else \<exists>m < length ks. ks ! m = 1 \<and> writeTxnList (advance ks ts ?st) ! j = Some (ts ! m)"
    using "1.prems" by (intro "1.IH") (auto split: if_splits)
  show ?case
  proof (cases "k = 1 \<and> j = writeIdx st")
    case True
    with IH "1.prems"(2) show ?thesis by (auto intro!: exI [of _ 0])
  next
    case False
    with IH show ?thesis
      by (auto simp: nth_list_update split: if_splits intro: exI [of _ "Suc m" for m])
  qed
qed simp_all

lemma advance_read:
  assumes "length ts = length ks" and "readIdx st + reads ks \<le> length (readTxnList st)"
    and "j < readIdx st + reads ks"
  shows "if j < readIdx st then readTxnList (advance ks ts st) ! j = readTxnList st ! j
    else \<exists>m < length ks. ks ! m \<noteq> 1 \<and> readTxnList (advance ks ts st) ! j = Some (ts ! m) \<and>
           j = readIdx st + reads (take m ks)"
  using assms
proof (induction ks ts st rule: advance.induct)
  case (1 k ks t ts st)
  let ?st = "if k = 1 then st\<lparr>writeTxnList := (writeTxnList st)[writeIdx st := Some t], fixedIdx := fixedIdx st + 1,
                         writeIdx := writeIdx st + 1, txnIdx := txnIdx st + 1\<rparr>
        else st\<lparr>readTxnList := (readTxnList st)[readIdx st := Some t], readIdx := readIdx st + 1,
                txnIdx := txnIdx st + 1\<rparr>"
  have IH: "if j < readIdx ?st then readTxnList (advance ks ts ?st) ! j = readTxnList ?st ! j
    else \<exists>m < length ks. ks ! m \<noteq> 1 \<and> readTxnList (advance ks ts ?st) ! j = Some (ts ! m) \<and>
           j = readIdx ?st + reads (take m ks)"
    using "1.prems" by (intro "1.IH") (auto split: if_splits)
  show ?case
  proof (cases "k \<noteq> 1 \<and> j = readIdx st")
    case True
    with IH "1.prems"(2) show ?thesis by (auto intro!: exI [of _ 0])
  next
    case False
    with IH show ?thesis
      by (auto simp: nth_list_update split: if_splits intro: exI [of _ "Suc m" for m])
  qed
qed simp_all

section \<open>The blocks\<close>

text \<open>
  What the calls of a simulation promise of a block: they succeed, keep an invariant of the state (with
  the numbers of writes and reads so far), and then every write of the block has its proof and every
  read of it can be decrypted, without a change of the state.
\<close>

definition block_served ::
    "'s replay_ops \<Rightarrow> (nat \<Rightarrow> nat \<Rightarrow> 's \<Rightarrow> bool) \<Rightarrow> nat \<Rightarrow> nat \<Rightarrow> bool" where
  "block_served ops Inv W R \<longleftrightarrow>
     (\<forall>ks w f r s. ks \<noteq> [] \<longrightarrow> Inv w r s \<longrightarrow> w + writes ks \<le> W \<longrightarrow> r + reads ks \<le> R \<longrightarrow>
        (\<exists>ts s'. op_row ops (length ks) 0 w f r ks s = (Ok ts, s') \<and> Inv (w + writes ks) (r + reads ks) s' \<and>
           (\<forall>m < length ks. if ks ! m = 1 then op_prove ops (Some (ts ! m)) s' = (Ok (), s')
              else op_decrypt ops (r + reads (take m ks)) (Some (ts ! m)) s' = (Ok (), s'))))"

lemma block_ok:
  assumes srv: "block_served ops Inv W R" and inv: "Inv (writeIdx st) (readIdx st) s"
    and ks: "ks = take n (drop (txnIdx st) txnList)" "txnIdx st + n \<le> length txnList"
    and W: "writeIdx st + writes ks \<le> W" "W \<le> length (writeTxnList st)"
    and R: "readIdx st + reads ks \<le> R" "length (readTxnList st) = R"
  shows "\<exists>st' s'. block_loop ops txnList n [0..<n] st s = (Ok st', s') \<and> block_checks ops st st' s' = (Ok (), s') \<and>
    txnIdx st' = txnIdx st + n \<and> writeIdx st' = writeIdx st + writes ks \<and> readIdx st' = readIdx st + reads ks \<and>
    length (writeTxnList st') = length (writeTxnList st) \<and> length (readTxnList st') = R \<and>
    Inv (writeIdx st') (readIdx st') s'"
proof (cases "n = 0")
  case True
  with inv W R show ?thesis by (simp add: ks(1) block_checks_def)
next
  case False
  have n: "length ks = n" using ks by simp
  with False have "ks \<noteq> []" by auto
  with srv [unfolded block_served_def, rule_format, OF this inv W(1) R(1), of "fixedIdx st"] n
  obtain ts s' where row: "op_row ops n 0 (writeIdx st) (fixedIdx st) (readIdx st) ks s = (Ok ts, s')"
    and inv': "Inv (writeIdx st + writes ks) (readIdx st + reads ks) s'"
    and chk: "\<And>m. m < n \<Longrightarrow> if ks ! m = 1 then op_prove ops (Some (ts ! m)) s' = (Ok (), s')
        else op_decrypt ops (readIdx st + reads (take m ks)) (Some (ts ! m)) s' = (Ok (), s')"
    by blast
  let ?st = "advance ks ts st"
  have len: "length ts = length ks" by (rule op_row_length [OF row])
  note cnt = advance_counters [OF len, of st]
  have loop: "block_loop ops txnList n [0..<n] st s = (Ok ?st, s')"
    using block_loop_row [OF row] ks n W R by simp
  have "mapS (\<lambda>j. op_prove ops (writeTxnList ?st ! (writeIdx ?st - j - 1))) [0..<writeIdx ?st - writeIdx st] s' =
      (Ok (map (\<lambda>_. ()) [0..<writeIdx ?st - writeIdx st]), s')"
  proof (rule mapS_stable)
    fix j assume "j \<in> set [0..<writeIdx ?st - writeIdx st]"
    with cnt have "writeIdx ?st - j - 1 < writeIdx st + writes ks" "\<not> writeIdx ?st - j - 1 < writeIdx st" by auto
    with advance_write [OF len, of st "writeIdx ?st - j - 1"] W obtain m where
      "m < length ks" "ks ! m = 1" "writeTxnList ?st ! (writeIdx ?st - j - 1) = Some (ts ! m)" by auto
    with chk [of m] n show "op_prove ops (writeTxnList ?st ! (writeIdx ?st - j - 1)) s' = (Ok (), s')" by simp
  qed
  moreover have "mapS (\<lambda>j. op_decrypt ops (readIdx ?st - j) (readTxnList ?st ! (readIdx ?st - j)))
      [1..<readIdx ?st - readIdx st + 1] s' = (Ok (map (\<lambda>_. ()) [1..<readIdx ?st - readIdx st + 1]), s')"
  proof (rule mapS_stable)
    fix j assume "j \<in> set [1..<readIdx ?st - readIdx st + 1]"
    with cnt have "readIdx ?st - j < readIdx st + reads ks" "\<not> readIdx ?st - j < readIdx st" by auto
    with advance_read [OF len, of st "readIdx ?st - j"] R obtain m where
      "m < length ks" "ks ! m \<noteq> 1" "readTxnList ?st ! (readIdx ?st - j) = Some (ts ! m)"
      "readIdx ?st - j = readIdx st + reads (take m ks)" by auto
    with chk [of m] n show "op_decrypt ops (readIdx ?st - j) (readTxnList ?st ! (readIdx ?st - j)) s' = (Ok (), s')"
      by simp
  qed
  ultimately have "block_checks ops st ?st s' = (Ok (), s')" by (simp add: block_checks_def)
  with loop cnt inv' n W R show ?thesis by auto
qed

text \<open>A block may also have a size beyond the end of the list. The calls of the transactions that are left,
  in a row in which none is the last, succeed too.\<close>

definition rows_run ::
    "'s replay_ops \<Rightarrow> (nat \<Rightarrow> nat \<Rightarrow> 's \<Rightarrow> bool) \<Rightarrow> nat \<Rightarrow> nat \<Rightarrow> bool" where
  "rows_run ops Inv W R \<longleftrightarrow>
     (\<forall>n ks w f r s. Inv w r s \<longrightarrow> w + writes ks \<le> W \<longrightarrow> r + reads ks \<le> R \<longrightarrow>
        is_ok (fst (op_row ops n 0 w f r ks s)))"

lemma bindS_assoc: "bindS (bindS m f) g = bindS m (\<lambda>x s. bindS (f x s) g)"
  by (cases m rule: prod.exhaust, rename_tac res s, case_tac res) simp_all

lemma block_loop_append:
  "block_loop ops txnList n (is @ js) st s = bindS (block_loop ops txnList n is st s) (block_loop ops txnList n js)"
proof (induction "is" arbitrary: st s)
  case (Cons i "is")
  have "block_loop ops txnList n (is @ js) = (\<lambda>st s. bindS (block_loop ops txnList n is st s) (block_loop ops txnList n js))"
    by (intro ext) (rule Cons.IH)
  then show ?case by (simp add: bindS_assoc)
qed simp

text \<open>Such a block does them all and then indexes the list past its end.\<close>

lemma block_overrun:
  assumes run: "rows_run ops Inv W R" and inv: "Inv (writeIdx st) (readIdx st) s"
    and ks: "ks = drop (txnIdx st) txnList" "txnIdx st \<le> length txnList" "length txnList < txnIdx st + n"
    and W: "writeIdx st + writes ks \<le> W" "W \<le> length (writeTxnList st)"
    and R: "readIdx st + reads ks \<le> R" "R \<le> length (readTxnList st)"
  shows "\<exists>s'. block_loop ops txnList n [0..<n] st s = (Panic IndexOutOfRange, s')"
proof -
  from run inv W(1) R(1) have "is_ok (fst (op_row ops n 0 (writeIdx st) (fixedIdx st) (readIdx st) ks s))"
    unfolding rows_run_def by blast
  then obtain ts s' where row: "op_row ops n 0 (writeIdx st) (fixedIdx st) (readIdx st) ks s = (Ok ts, s')"
    unfolding is_ok_iff by (metis prod.collapse)
  have len: "length ks = length txnList - txnIdx st" "length ks < n" using ks by simp_all
  let ?st = "advance ks ts st"
  have "block_loop ops txnList n [0..<0 + length ks] st s = (Ok ?st, s')"
    by (rule block_loop_row [OF row]) (use ks W R in simp_all)
  moreover have "txnIdx ?st = length txnList"
    using advance_counters [OF op_row_length [OF row], of st] len ks(2) by simp
  then have "block_txn ops txnList n i ?st s' = (Panic IndexOutOfRange, s')" for i
    by (simp add: block_txn_def index_go_def)
  moreover have "[0..<n] = [0..<length ks] @ length ks # [length ks + 1..<n]"
    using len(2) upt_add_eq_append [of 0 "length ks" "n - length ks"] by (simp add: upt_conv_Cons)
  ultimately show ?thesis by (simp add: block_loop_append)
qed

text \<open>All blocks: the loop ends when the sizes of the first blocks add up to the number of transactions; the
  blocks after them are not used. Otherwise it panics with an index out of range, when it runs out of sizes or
  in the middle of a block that is too long.\<close>

lemma leading_sizes_Cons:
  assumes "t < m"
  shows "(\<exists>k. t + sum_list (map nat (take k (b # bs))) = m) \<longleftrightarrow> (\<exists>k. t + nat b + sum_list (map nat (take k bs)) = m)"
proof
  assume "\<exists>k. t + sum_list (map nat (take k (b # bs))) = m"
  then obtain k where "t + sum_list (map nat (take k (b # bs))) = m" by blast
  with assms show "\<exists>k. t + nat b + sum_list (map nat (take k bs)) = m"
    by (cases k) (auto simp: add.assoc)
next
  assume "\<exists>k. t + nat b + sum_list (map nat (take k bs)) = m"
  then obtain k where "t + nat b + sum_list (map nat (take k bs)) = m" by blast
  then show "\<exists>k. t + sum_list (map nat (take k (b # bs))) = m"
    by (intro exI [of _ "Suc k"]) (simp add: add.assoc)
qed

lemma replay_blocks_ends:
  assumes srv: "block_served ops Inv W R" and run: "rows_run ops Inv W R" and "Inv (writeIdx st) (readIdx st) s"
    and "writeIdx st + writes (drop (txnIdx st) txnList) \<le> W" "length (writeTxnList st) = W"
    and "readIdx st + reads (drop (txnIdx st) txnList) \<le> R" "length (readTxnList st) = R"
    and "txnIdx st \<le> length txnList"
  shows "\<exists>st' s'. replay_blocks ops txnList blks idx st s =
      (if \<exists>k. txnIdx st + sum_list (map nat (take k (drop idx blks))) = length txnList then Ok st'
       else Panic IndexOutOfRange, s') \<and>
    length (writeTxnList st') = W \<and> length (readTxnList st') = R \<and>
    ((\<exists>k. txnIdx st + sum_list (map nat (take k (drop idx blks))) = length txnList) \<longrightarrow>
       Inv (writeIdx st') (readIdx st') s' \<and> writeIdx st' = writeIdx st + writes (drop (txnIdx st) txnList))"
  using assms(3-)
proof (induction "length blks - idx" arbitrary: idx st s)
  case 0
  then show ?case by (subst replay_blocks.simps) auto
next
  case (Suc l)
  show ?case
  proof (cases "txnIdx st < length txnList")
    case False
    with Suc.prems(6) have "\<exists>k. txnIdx st + sum_list (map nat (take k (drop idx blks))) = length txnList"
      by (intro exI [of _ 0]) simp
    with False Suc.prems show ?thesis by (subst replay_blocks.simps) simp
  next
    case True
    from Suc.hyps(2) have idx: "idx < length blks" "l = length blks - (idx + 1)" by simp_all
    then have d: "drop idx blks = blks ! idx # drop (idx + 1) blks" by (simp add: Cons_nth_drop_Suc)
    let ?n = "nat (blks ! idx)"
    note ends = leading_sizes_Cons [OF True, of "blks ! idx" "drop (idx + 1) blks", folded d]
    show ?thesis
    proof (cases "txnIdx st + ?n \<le> length txnList")
      case False
      then have "\<not> (\<exists>k. txnIdx st + sum_list (map nat (take k (drop idx blks))) = length txnList)"
        unfolding ends by auto
      moreover obtain s' where "block_loop ops txnList ?n [0..<?n] st s = (Panic IndexOutOfRange, s')"
        using block_overrun [OF run Suc.prems(1) refl, of txnList ?n] False Suc.prems by auto
      ultimately show ?thesis using True idx Suc.prems(3,5) by (subst replay_blocks.simps) auto
    next
      case n: True
      let ?ks = "take ?n (drop (txnIdx st) txnList)"
      have sp: "drop (txnIdx st) txnList = ?ks @ drop (txnIdx st + ?n) txnList"
        by (metis append_take_drop_id drop_drop add.commute)
      have w: "writeIdx st + writes ?ks + writes (drop (txnIdx st + ?n) txnList) \<le> W"
        "readIdx st + reads ?ks + reads (drop (txnIdx st + ?n) txnList) \<le> R"
        using Suc.prems(2,4) arg_cong [OF sp, of writes] arg_cong [OF sp, of reads] by simp_all
      then have "writeIdx st + writes ?ks \<le> W" "readIdx st + reads ?ks \<le> R" by simp_all
      from block_ok [OF srv Suc.prems(1) refl n this(1) _ this(2) Suc.prems(5)] Suc.prems(3) obtain st1 s1 where
        b: "block_loop ops txnList ?n [0..<?n] st s = (Ok st1, s1)" "block_checks ops st st1 s1 = (Ok (), s1)"
        and st1: "txnIdx st1 = txnIdx st + ?n" "writeIdx st1 = writeIdx st + writes ?ks"
          "readIdx st1 = readIdx st + reads ?ks" "length (writeTxnList st1) = W" "length (readTxnList st1) = R"
          "Inv (writeIdx st1) (readIdx st1) s1" by auto
      have wr: "writeIdx st + writes (drop (txnIdx st) txnList) = writeIdx st1 + writes (drop (txnIdx st1) txnList)"
        using arg_cong [OF sp, of writes] st1(1,2) by simp
      have "replay_blocks ops txnList blks idx st s = replay_blocks ops txnList blks (idx + 1) st1 s1"
        using True idx b by (subst replay_blocks.simps) simp
      moreover note Suc.hyps(1) [OF idx(2) st1(6) _ st1(4) _ st1(5)]
      ultimately show ?thesis using w n st1(1-3) unfolding ends wr by simp
    qed
  qed
qed

text \<open>When the first write is refused, with reads before it that succeed, so is the replay.\<close>

definition first_write_fails ::
    "'s replay_ops \<Rightarrow> (nat \<Rightarrow> 's \<Rightarrow> bool) \<Rightarrow> nat \<Rightarrow> error \<Rightarrow> bool" where
  "first_write_fails ops Inv R e \<longleftrightarrow>
     (\<forall>f r v s. Inv r s \<longrightarrow> (\<exists>s'. op_write ops 0 f v s = (Err e, s'))) \<and>
     (\<forall>r v s. Inv r s \<longrightarrow> r < R \<longrightarrow> (\<exists>t s'. op_read ops r v s = (Ok t, s') \<and> Inv (r + 1) s'))"

lemma block_loop_fails:
  assumes "first_write_fails ops Inv R e" and "Inv (readIdx st) s"
    and "take (length ks) (drop (txnIdx st) txnList) = ks" and "1 \<in> set ks"
    and "writeIdx st = 0" and "writeTxnList st \<noteq> []"
    and "readIdx st + reads ks \<le> R" and "length (readTxnList st) = R"
  shows "\<exists>s'. block_loop ops txnList n [i..<i + length ks] st s = (Err e, s')"
  using assms(2-)
proof (induction ks arbitrary: i st s)
  case (Cons k ks)
  from Cons.prems(2) obtain xs where d: "drop (txnIdx st) txnList = k # xs" "take (length ks) xs = ks"
    by (cases "drop (txnIdx st) txnList") auto
  have lt: "txnIdx st < length txnList" using d(1) by (metis drop_all linorder_not_le list.distinct(1))
  have k: "txnList ! txnIdx st = k" by (rule nth_via_drop [OF d(1)])
  have rest: "take (length ks) (drop (Suc (txnIdx st)) txnList) = ks"
    using d Cons_nth_drop_Suc [OF lt] by simp
  have up: "[i..<i + length (k # ks)] = i # [i + 1..<i + 1 + length ks]" by (subst upt_conv_Cons) simp_all
  show ?case
  proof (cases "k = 1")
    case True
    obtain s' where "op_write ops 0 (fixedIdx st) (row_wait n 3 i) s = (Err e, s')"
      using assms(1) Cons.prems(1) unfolding first_write_fails_def by blast
    with True lt k Cons.prems(4,5) show ?thesis unfolding up
      by (auto simp: block_txn_def assign_reply_def)
  next
    case False
    with Cons.prems(6) have "readIdx st < R" by simp
    with assms(1) Cons.prems(1) obtain t s1 where
      op: "op_read ops (readIdx st) (row_wait n 3 i) s = (Ok t, s1)" "Inv (readIdx st + 1) s1"
      unfolding first_write_fails_def by blast
    let ?st = "st\<lparr>readTxnList := (readTxnList st)[readIdx st := Some t], readIdx := readIdx st + 1,
      txnIdx := txnIdx st + 1\<rparr>"
    have "\<exists>s'. block_loop ops txnList n [i + 1..<i + 1 + length ks] ?st s1 = (Err e, s')"
      using op(2) rest Cons.prems(3-7) False by (intro Cons.IH) simp_all
    with False lt k op Cons.prems(6,7) show ?thesis unfolding up by (simp add: block_txn_def assign_reply_def)
  qed
qed simp

lemma replay_blocks_fails:
  assumes fails: "first_write_fails ops Inv R e" and srv: "block_served ops (\<lambda>_. Inv) 0 R"
    and "Inv (readIdx st) s" "1 \<in> set (drop (txnIdx st) txnList)" "writeIdx st = 0" "writeTxnList st \<noteq> []"
    and "readIdx st + reads (drop (txnIdx st) txnList) \<le> R" "length (readTxnList st) = R"
    and "txnIdx st + sum_list (map nat (drop idx blks)) = length txnList"
  shows "\<exists>s'. replay_blocks ops txnList blks idx st s = (Err e, s')"
  using assms(3-)
proof (induction "length blks - idx" arbitrary: idx st s)
  case (Suc l)
  from Suc.prems(2) have lt: "txnIdx st < length txnList" by (metis drop_all linorder_not_le empty_iff list.set(1))
  from Suc.hyps(2) have idx: "idx < length blks" "l = length blks - (idx + 1)" by simp_all
  then have d: "drop idx blks = blks ! idx # drop (idx + 1) blks" by (simp add: Cons_nth_drop_Suc)
  let ?n = "nat (blks ! idx)"
  let ?ks = "take ?n (drop (txnIdx st) txnList)"
  have sp: "drop (txnIdx st) txnList = ?ks @ drop (txnIdx st + ?n) txnList"
    by (metis append_take_drop_id drop_drop add.commute)
  have r: "readIdx st + reads ?ks + reads (drop (txnIdx st + ?n) txnList) \<le> R"
    using Suc.prems(5) arg_cong [OF sp, of reads] by simp
  have n: "txnIdx st + ?n \<le> length txnList" using Suc.prems(7) d by simp
  then have len: "length ?ks = ?n" by simp
  show ?case
  proof (cases "1 \<in> set ?ks")
    case True
    have "\<exists>s'. block_loop ops txnList ?n [0..<0 + length ?ks] st s = (Err e, s')"
      using True r Suc.prems by (intro block_loop_fails [OF fails]) (simp_all add: len del: length_take)
    with lt idx len show ?thesis by (subst replay_blocks.simps) auto
  next
    case False
    then have w: "writes ?ks = 0" by (auto simp: filter_empty_conv)
    have "readIdx st + reads ?ks \<le> R" using r by simp
    from block_ok [where st = st and s = s and txnList = txnList, OF srv Suc.prems(1) refl n _ _ this Suc.prems(6)] w
      Suc.prems(3) obtain st1 s1 where
      b: "block_loop ops txnList ?n [0..<?n] st s = (Ok st1, s1)" "block_checks ops st st1 s1 = (Ok (), s1)"
      and st1: "txnIdx st1 = txnIdx st + ?n" "writeIdx st1 = 0" "readIdx st1 = readIdx st + reads ?ks"
        "length (writeTxnList st1) = length (writeTxnList st)" "length (readTxnList st1) = R" "Inv (readIdx st1) s1"
      by auto
    have "1 \<in> set (drop (txnIdx st + ?n) txnList)" using Suc.prems(2) False arg_cong [OF sp, of set] by auto
    then have "\<exists>s'. replay_blocks ops txnList blks (idx + 1) st1 s1 = (Err e, s')"
      using idx(2) st1 r Suc.prems(4,7) d by (intro Suc.hyps(1) [of "idx + 1" st1 s1]) auto
    with lt idx b show ?thesis by (subst replay_blocks.simps) simp
  qed
qed auto

text \<open>The rounds, for calls that keep no invariant of the numbers of writes and reads.\<close>

lemma replay_rounds_ok:
  assumes "\<And>r. block_served (ops r) (\<lambda>_ _ _. True) W R" and "\<And>r. rows_run (ops r) (\<lambda>_ _ _. True) W R"
    and "writes txnList \<le> W" "length (writeTxnList st) = W"
    and "reads txnList \<le> R" "length (readTxnList st) = R"
  shows "fst (replay_rounds ops txnList blks rounds st s) =
    (if rounds = [] \<or> (\<exists>k. sum_list (map nat (take k blks)) = length txnList) then Ok () else Panic IndexOutOfRange)"
  using assms(4,6)
proof (induction rounds arbitrary: st s)
  case (Cons r rounds)
  let ?st = "st\<lparr>txnIdx := 0, writeIdx := 0, readIdx := 0, fixedIdx := 0\<rparr>"
  obtain st' s' where "replay_blocks (ops r) txnList blks 0 ?st s =
      (if \<exists>k. sum_list (map nat (take k blks)) = length txnList then Ok st' else Panic IndexOutOfRange, s')"
    "length (writeTxnList st') = W" "length (readTxnList st') = R"
    using replay_blocks_ends [OF assms(1) [of r] assms(2) [of r], where st = ?st and s = s and txnList = txnList and
        idx = 0 and blks = blks] assms(3,5) Cons.prems by auto
  with Cons.IH [of st' s'] show ?case by simp
qed simp

end
