(* ===== verification/Semi_Byzgen.thy ===== *)
theory Semi_Byzgen
  imports Semi_Simulation Block_Replay
begin

text \<open>
  \<open>runByzgenSimulation\<close> of \<open>src/semi_centralized/simulation/service.go\<close>: ten writes are stored and proved
  before the rounds; a round replays a list of transactions in blocks (\<open>Block_Replay\<close>), in which a write
  stores and adds the next entry of \<open>wdList\<close> and a read reads one of the ten. The state is \<open>wdList\<close>, whose
  entries get their stored key in place, with the servers and the ledger.
\<close>

section \<open>The simulation\<close>

definition sb_FIXED_COUNT :: nat where "sb_FIXED_COUNT = 10"

record ('pt, 'signer, 'proof, 'darc) sb_env =
  sb_writer :: 'signer
  sb_reader :: 'signer
  sb_darc :: 'darc
  fixedWdList :: "'pt WriteData list"
  fixedProofList :: "'proof list"

definition on_wdList :: "('s \<Rightarrow> 'a go \<times> 's) \<Rightarrow> 'w \<times> 's \<Rightarrow> 'a go \<times> ('w \<times> 's)" where
  "on_wdList f st = (case f (snd st) of (r, s) \<Rightarrow> (r, (fst st, s)))"

text \<open>A write of a block; the draws and the fate of the requests are those of the round.\<close>

definition sb_block_write ::
    "('darc, ('pt, 'sc) key_signer, 'rnd, 'si, 'gmsg, 'led) darc_api
      \<Rightarrow> ('led, 'proof, ('pt, 'sc) key_signer, 'scid) ledger \<Rightarrow> 'pt calypso \<Rightarrow> ('db, StoreRequest) store_env
      \<Rightarrow> 'rnd sb_random \<Rightarrow> 'si list \<Rightarrow> (('pt, ('pt, 'sc) key_signer, 'proof, 'darc) sb_env) \<Rightarrow> nat \<Rightarrow> int
      \<Rightarrow> 'pt WriteData list \<times> ('si, 'sc, 'db, 'led) sb_state
      \<Rightarrow> bytes go \<times> ('pt WriteData list \<times> ('si, 'sc, 'db, 'led) sb_state)" where
  "sb_block_write A L P E rand roster se w wait st =
     bindS (index_go (fst st) w, st) (\<lambda>wd st.
     bindS (on_wdList (on_servers (sb_store_write E (sb_store rand (sb_FIXED_COUNT + w)) roster wd)) st)
       (\<lambda>wd st.
     bindS (Ok (), ((fst st)[w := wd], snd st)) (\<lambda>_ st.
     bindS (on_wdList (on_ledger (AddWriteTransaction A L P wd (sb_writer se) (sb_darc se) wait)) st) (\<lambda>t st.
     (Ok (tr_InstanceID t), st)))))"

definition sb_ops ::
    "('pt, 'sc, 'rnd) suite \<Rightarrow> ('darc, ('pt, 'sc) key_signer, 'rnd, 'si, 'gmsg, 'led) darc_api
      \<Rightarrow> ('led, 'proof, ('pt, 'sc) key_signer, 'scid) ledger \<Rightarrow> 'pt calypso \<Rightarrow> ('db, StoreRequest) store_env
      \<Rightarrow> 'si list \<Rightarrow> (('pt, ('pt, 'sc) key_signer, 'proof, 'darc) sb_env) \<Rightarrow> 'rnd sb_random
      \<Rightarrow> ('pt WriteData list \<times> ('si, 'sc, 'db, 'led) sb_state) replay_ops" where
  "sb_ops S A L P E roster se rand =
     \<lparr>op_write = (\<lambda>writeIdx _. sb_block_write A L P E rand roster se writeIdx),
      op_read = (\<lambda>readIdx wait st.
        bindS (on_wdList (on_ledger (AddReadTransaction A L P (fixedProofList se ! (readIdx mod sb_FIXED_COUNT))
                 (sb_reader se) (sb_darc se) wait)) st) (\<lambda>t st.
        (Ok (tr_InstanceID t), st))),
      op_prove = (\<lambda>t st.
        (bindG (deref t) (\<lambda>iid.
         bindG (checked_proof L ''Write inclusion proof does not match'' iid (snd (snd st))) (\<lambda>_. Ok ())), st)),
      op_decrypt = (\<lambda>q t st.
        bindS (bindG (deref t) (\<lambda>iid.
                 checked_proof L ''Read inclusion proof does not match'' iid (snd (snd st))), st) (\<lambda>rProof st.
        bindS (on_wdList (sb_open S L P E rand q roster (sb_reader se) (fixedProofList se ! (q mod sb_FIXED_COUNT))
                 rProof (fixedWdList se ! (q mod sb_FIXED_COUNT))) st) (\<lambda>_ st.
        (Ok (), st))))\<rparr>"

text \<open>\<open>rand\<close> is for what comes before the rounds, \<open>rnds r\<close> for round \<open>r\<close>.\<close>

definition sb_runByzgenSimulation ::
    "('pt, 'sc, 'rnd) suite \<Rightarrow> ('darc, ('pt, 'sc) key_signer, 'rnd, 'si, 'gmsg, 'led) darc_api
      \<Rightarrow> ('led, 'proof, ('pt, 'sc) key_signer, 'scid) ledger \<Rightarrow> 'pt calypso \<Rightarrow> ('db, StoreRequest) store_env
      \<Rightarrow> nat \<Rightarrow> 'rnd sb_random \<Rightarrow> (nat \<Rightarrow> 'rnd sb_random) \<Rightarrow> string list go \<Rightarrow> string list go \<Rightarrow> 'si list \<Rightarrow> 'pt \<Rightarrow> int
      \<Rightarrow> nat \<Rightarrow> nat \<Rightarrow> nat \<Rightarrow> nat \<Rightarrow> nat \<Rightarrow> ('si, 'sc, 'db, 'led) sb_state
      \<Rightarrow> unit go \<times> ('si, 'sc, 'db, 'led) sb_state" where
  "sb_runByzgenSimulation S A L P E DATA_SIZE rand rnds file1 file2 roster serverPk blockInterval numTransactions
       numBlocks numWrite numRead rounds st =
     (let rand = rand\<lparr>sb_data := byzgen_data DATA_SIZE\<rparr> in
      bindS (readAuxFiles file1 file2 numTransactions numBlocks, st) (\<lambda>(txnList, blkSizeList) st.
      bindS (sb_setup A L P rand roster blockInterval 4 st) (\<lambda>(writer, reader, wDarc) st.
      bindS (sb_create S rand reader serverPk [0..<sb_FIXED_COUNT], st) (\<lambda>fixed st.
      bindS (sb_add_writes A L P E rand roster writer wDarc 3 fixed st) (\<lambda>(fixed, proofs) st.
      bindS (sb_create S rand reader serverPk [sb_FIXED_COUNT..<sb_FIXED_COUNT + numWrite], st) (\<lambda>wdList st.
      map_prod id snd (replay_rounds
        (\<lambda>r. sb_ops S A L P E roster \<lparr>sb_writer = writer, sb_reader = reader, sb_darc = wDarc, fixedWdList = fixed,
                fixedProofList = proofs\<rparr> (rnds r))
        txnList blkSizeList [0..<rounds] (replay_start numWrite numRead) (wdList, st))))))))"

section \<open>The calls\<close>

lemma sb_ops_calls [simp]:
  "op_write (sb_ops S A L P E roster se rand) w f = sb_block_write A L P E rand roster se w"
  "op_read (sb_ops S A L P E roster se rand) q wait st =
     bindS (on_wdList (on_ledger (AddReadTransaction A L P (fixedProofList se ! (q mod sb_FIXED_COUNT))
              (sb_reader se) (sb_darc se) wait)) st) (\<lambda>t st. (Ok (tr_InstanceID t), st))"
  by (simp_all add: sb_ops_def)

text \<open>The write data and the servers while the first \<open>k\<close> of the data \<open>ws\<close> are stored, with the ten writes
  \<open>fs\<close>; \<open>wdList\<close> differs from \<open>ws\<close> in the stored keys only.\<close>

definition sb_inv ::
    "('db, StoreRequest) store_env \<Rightarrow> 'si \<Rightarrow> 'sc \<Rightarrow> 'pt WriteData list \<Rightarrow> 'pt WriteData list \<Rightarrow> nat
      \<Rightarrow> 'pt WriteData list \<Rightarrow> ('si \<Rightarrow> ('sc, 'db) SService) \<Rightarrow> bool" where
  "sb_inv E srv sk fs ws k wds sv \<longleftrightarrow>
     ss_priv (sv srv) = sk \<and> (\<forall>wd \<in> set fs. sb_stored E (sv srv) wd) \<and>
     length wds = length ws \<and> (\<forall>i < length ws. \<exists>key. wds ! i = (ws ! i)\<lparr>StoredKey := key\<rparr>) \<and>
     (\<forall>i < length ws. if i < k then sb_stored E (sv srv) (ws ! i)
        else bGet E (ss_db (sv srv)) (ss_bucket (sv srv)) (DataHash (ws ! i)) = None)"

lemma sb_store_key: "sb_store_write E d roster (wd\<lparr>StoredKey := key\<rparr>) = sb_store_write E d roster wd"
  by (rule ext) (simp add: sb_store_write_def)

lemma adds_keyed: "adds L (AddWriteTransaction A L P (wd\<lparr>StoredKey := key\<rparr>) sg darc) ins \<longleftrightarrow>
    adds L (AddWriteTransaction A L P wd sg darc) ins"
  by (simp add: adds_def AddWriteTransaction_def)

lemma sb_block_write_ok:
  assumes laws: "store_law E" "store_up E"
    and inv: "sb_inv E srv sk fs ws w wds sv" and w: "w < length ws"
    and dh: "DataHash (ws ! w) = hash256 E (Data (ws ! w))"
    and new: "DataHash (ws ! w) \<notin> DataHash ` set fs" "distinct (map DataHash ws)"
    and tr: "\<exists>v. sb_store rand (sb_FIXED_COUNT + w) = Delivered v"
    and adds: "adds L (AddWriteTransaction A L P (ws ! w) (sb_writer se) (sb_darc se)) ins"
    and led: "AddTransactionAndWait L [ins] wait led = (Ok (), led')"
  shows "\<exists>wds' sv'. sb_block_write A L P E rand (srv # rest) se w wait (wds, (sv, led)) =
      (Ok (DeriveID L ins []), (wds', (sv', led'))) \<and> sb_inv E srv sk fs ws (w + 1) wds' sv'"
proof -
  obtain v where v: "sb_store rand (sb_FIXED_COUNT + w) = Delivered v" using tr by blast
  from inv w obtain key where key: "wds ! w = (ws ! w)\<lparr>StoredKey := key\<rparr>" "length wds = length ws"
    and none: "bGet E (ss_db (sv srv)) (ss_bucket (sv srv)) (DataHash (ws ! w)) = None"
    unfolding sb_inv_def by (metis less_irrefl)
  obtain s' where s': "sb_store_write E (Delivered v) (srv # rest) (ws ! w) sv = (Ok (keyed (ws ! w)), sv(srv := s'))"
    "sb_same E {DataHash (ws ! w)} (sv srv) s'" "sb_stored E s' (ws ! w)"
    using sb_store_new [where sv = sv and srv = srv, OF laws dh none, of v rest] by blast
  have "sb_inv E srv sk fs ws (w + 1) (wds[w := keyed (ws ! w)]) (sv(srv := s'))"
    unfolding sb_inv_def
  proof (intro conjI ballI allI impI)
    fix wd assume wd: "wd \<in> set fs"
    with imageI [OF this, of DataHash] new(1) have "DataHash wd \<noteq> DataHash (ws ! w)" by metis
    with inv wd show "sb_stored E ((sv(srv := s')) srv) wd"
      using sb_stored_same [OF s'(2), of wd] by (simp add: sb_inv_def)
  next
    fix i assume i: "i < length ws"
    with inv key show "\<exists>key. wds[w := keyed (ws ! w)] ! i = (ws ! i)\<lparr>StoredKey := key\<rparr>"
      by (cases "i = w") (auto simp: sb_inv_def)
    have ne: "DataHash (ws ! i) \<noteq> DataHash (ws ! w)" if "i \<noteq> w"
      using new(2) i w that by (simp add: distinct_conv_nth)
    with inv i s'(3) sb_sameD(3) [OF s'(2), of "DataHash (ws ! i)"] sb_stored_same [OF s'(2), of "ws ! i"]
    show "if i < w + 1 then sb_stored E ((sv(srv := s')) srv) (ws ! i)
      else bGet E (ss_db ((sv(srv := s')) srv)) (ss_bucket ((sv(srv := s')) srv)) (DataHash (ws ! i)) = None"
      by (cases "i = w") (auto simp: sb_inv_def)
  qed (use inv sb_sameD(1) [OF s'(2)] in \<open>simp_all add: sb_inv_def\<close>)
  moreover have "AddWriteTransaction A L P (keyed (ws ! w)) (sb_writer se) (sb_darc se) wait led =
      (Ok \<lparr>tr_InstanceID = DeriveID L ins []\<rparr>, led')"
    using adds_keyed [where key = "EncodeToString (DataHash (ws ! w))", THEN iffD2, OF adds] led
    unfolding adds_def by simp
  ultimately show ?thesis using key w v s'(1)
    by (intro exI [of _ "wds[w := keyed (ws ! w)]"] exI [of _ "sv(srv := s')"])
      (simp add: sb_block_write_def on_wdList_def on_servers_def on_ledger_def sb_store_key)
qed

lemma sb_block_write_again:
  assumes laws: "store_law E" "store_up E" and inv: "sb_inv E srv sk fs ws k wds sv" and k: "0 < k" "ws \<noteq> []"
    and dh: "DataHash (ws ! 0) = hash256 E (Data (ws ! 0))" and v: "sb_store rand sb_FIXED_COUNT = Delivered v"
  shows "sb_block_write A L P E rand (srv # rest) se 0 wait (wds, (sv, led)) =
    (Err (v (Error ''Key already exists'')), (wds, (sv, led)))"
proof -
  from k inv obtain key where key: "wds ! 0 = (ws ! 0)\<lparr>StoredKey := key\<rparr>" "0 < length wds"
    and "sb_stored E (sv srv) (ws ! 0)"
    unfolding sb_inv_def by (metis length_greater_0_conv)
  from sb_store_again [where sv = sv and srv = srv, OF laws dh this(3), of v rest] key v show ?thesis
    by (simp add: sb_block_write_def on_wdList_def on_servers_def sb_store_key)
qed

section \<open>A block\<close>

text \<open>The instructions of a block: \<open>wi\<close> of the writes, \<open>ri\<close> of the reads.\<close>

fun block_inss ::
    "(nat \<Rightarrow> Instruction) \<Rightarrow> (nat \<Rightarrow> Instruction) \<Rightarrow> int list \<Rightarrow> nat \<Rightarrow> nat \<Rightarrow> Instruction list" where
  "block_inss wi ri [] w r = []"
| "block_inss wi ri (k # ks) w r =
     (if k = 1 then wi w # block_inss wi ri ks (w + 1) r else ri r # block_inss wi ri ks w (r + 1))"

lemma block_inss_length [simp]: "length (block_inss wi ri ks w r) = length ks"
  by (induction ks arbitrary: w r) simp_all

lemma block_inss_nth:
  "m < length ks \<Longrightarrow> block_inss wi ri ks w r ! m =
     (if ks ! m = 1 then wi (w + writes (take m ks)) else ri (r + reads (take m ks)))"
proof (induction ks arbitrary: m w r)
  case (Cons k ks)
  then show ?case by (cases m) simp_all
qed simp

definition data_ok :: "('db, StoreRequest) store_env \<Rightarrow> 'pt WriteData list \<Rightarrow> 'pt WriteData list \<Rightarrow> bool" where
  "data_ok E fs ws \<longleftrightarrow> distinct (map DataHash (fs @ ws)) \<and>
     (\<forall>wd \<in> set (fs @ ws). DataHash wd = hash256 E (Data wd))"

lemma data_okD:
  assumes "data_ok E fs ws"
  shows "distinct (map DataHash ws)"
    and "i < length ws \<Longrightarrow> DataHash (ws ! i) \<notin> DataHash ` set fs"
    and "i < length ws \<Longrightarrow> DataHash (ws ! i) = hash256 E (Data (ws ! i))"
proof -
  show "distinct (map DataHash ws)" using assms by (simp add: data_ok_def)
  assume "i < length ws"
  then have "ws ! i \<in> set ws" by simp
  then show "DataHash (ws ! i) = hash256 E (Data (ws ! i))" using assms by (simp add: data_ok_def)
  have "DataHash ` set fs \<inter> DataHash ` set ws = {}"
    using assms unfolding data_ok_def map_append distinct_append set_map by blast
  with imageI [OF \<open>ws ! i \<in> set ws\<close>, of DataHash] show "DataHash (ws ! i) \<notin> DataHash ` set fs" by blast
qed

lemma sb_row:
  assumes laws: "store_law E" "store_up E" and dat: "data_ok E fs ws"
    and tr: "\<And>i. \<exists>v. sb_store rand i = Delivered v"
    and wi: "\<And>i. i < length ws \<Longrightarrow> adds L (AddWriteTransaction A L P (ws ! i) (sb_writer se) (sb_darc se)) (wi i)"
    and ri: "\<And>q. adds L (AddReadTransaction A L P (fixedProofList se ! (q mod sb_FIXED_COUNT)) (sb_reader se) (sb_darc se)) (ri q)"
    and row: "mapS (\<lambda>(j, ins). AddTransactionAndWait L [ins] (row_wait n 3 j)) (enumerate i (block_inss wi ri ks w r)) led =
      (Ok us, led')"
    and inv: "sb_inv E srv sk fs ws k wds sv" and k: "k = w \<or> writes ks = 0" and w: "w + writes ks \<le> length ws"
  shows "\<exists>wds' sv'. op_row (sb_ops S A L P E (srv # rest) se rand) n i w f r ks (wds, (sv, led)) =
      (Ok (map (\<lambda>ins. DeriveID L ins []) (block_inss wi ri ks w r)), (wds', (sv', led'))) \<and>
    sb_inv E srv sk fs ws (k + writes ks) wds' sv'"
  using row inv k w
proof (induction ks arbitrary: i w f r k led wds sv us)
  case (Cons x ks)
  show ?case
  proof (cases "x = 1")
    case True
    with Cons.prems(1) obtain led1 us' where
      l: "AddTransactionAndWait L [wi w] (row_wait n 3 i) led = (Ok (), led1)"
        "mapS (\<lambda>(j, ins). AddTransactionAndWait L [ins] (row_wait n 3 j))
           (enumerate (Suc i) (block_inss wi ri ks (w + 1) r)) led1 = (Ok us', led')" by (auto simp: go_simps)
    from True Cons.prems(3,4) have kw: "k = w" "w < length ws" by auto
    obtain wds1 sv1 where
      b: "sb_block_write A L P E rand (srv # rest) se w (row_wait n 3 i) (wds, (sv, led)) =
          (Ok (DeriveID L (wi w) []), (wds1, (sv1, led1)))" "sb_inv E srv sk fs ws (w + 1) wds1 sv1"
      using sb_block_write_ok [OF laws Cons.prems(2) [unfolded kw(1)] kw(2) data_okD(3,2) [OF dat kw(2)]
          data_okD(1) [OF dat] tr wi [OF kw(2)] l(1)] by blast
    have wr: "writes (x # ks) = 1 + writes ks" using True by simp
    with Cons.prems(4) have "w + 1 + writes ks \<le> length ws" by linarith
    from Cons.IH [OF l(2) b(2) disjI1 [OF refl] this, of "f + 1"] obtain wds' sv' where
      "op_row (sb_ops S A L P E (srv # rest) se rand) n (Suc i) (w + 1) (f + 1) r ks (wds1, (sv1, led1)) =
        (Ok (map (\<lambda>ins. DeriveID L ins []) (block_inss wi ri ks (w + 1) r)), (wds', (sv', led')))"
      "sb_inv E srv sk fs ws (w + 1 + writes ks) wds' sv'" by blast
    with True b(1) kw(1) show ?thesis unfolding wr
      by (intro exI [of _ wds'] exI [of _ sv']) (simp del: filter.simps)
  next
    case False
    with Cons.prems(1) obtain led1 us' where
      l: "AddTransactionAndWait L [ri r] (row_wait n 3 i) led = (Ok (), led1)"
        "mapS (\<lambda>(j, ins). AddTransactionAndWait L [ins] (row_wait n 3 j))
           (enumerate (Suc i) (block_inss wi ri ks w (r + 1))) led1 = (Ok us', led')" by (auto simp: go_simps)
    have wr: "writes (x # ks) = writes ks" using False by simp
    have "k = w \<or> writes ks = 0" "w + writes ks \<le> length ws" using Cons.prems(3,4) unfolding wr by blast+
    from Cons.IH [OF l(2) Cons.prems(2) this, of f] obtain wds' sv' where
      "op_row (sb_ops S A L P E (srv # rest) se rand) n (Suc i) w f (r + 1) ks (wds, (sv, led1)) =
        (Ok (map (\<lambda>ins. DeriveID L ins []) (block_inss wi ri ks w (r + 1))), (wds', (sv', led')))"
      "sb_inv E srv sk fs ws (k + writes ks) wds' sv'" by blast
    with False l(1) ri [of r] show ?thesis unfolding wr
      by (intro exI [of _ wds'] exI [of _ sv']) (simp add: on_wdList_def on_ledger_def adds_def del: filter.simps)
  qed
qed simp

text \<open>The ten writes before the rounds, with their proofs.\<close>

definition fixed_ready ::
    "('pt, 'sc, 'rnd) suite \<Rightarrow> ('led, 'proof, ('pt, 'sc) key_signer, 'scid) ledger \<Rightarrow> 'pt calypso \<Rightarrow> 'sc \<Rightarrow> 'scid
      \<Rightarrow> ('pt, ('pt, 'sc) key_signer, 'proof, 'darc) sb_env \<Rightarrow> 'pt WriteData list \<Rightarrow> bool" where
  "fixed_ready S L P sk sid se fs \<longleftrightarrow> length fs = sb_FIXED_COUNT \<and> fixedWdList se = map keyed fs \<and>
     (\<forall>i < sb_FIXED_COUNT. \<exists>d. sb_made S sk (sg_Secret (sb_reader se)) (fs ! i) d \<and>
        write_proved L P sid (fixedProofList se ! i) (fs ! i))"

text \<open>The instructions of the writes and of the reads.\<close>

lemma sb_instructions:
  assumes sys: "semi_works S A L P E"
  obtains wi ri where
    "\<And>i. adds L (AddWriteTransaction A L P (ws ! i) (sb_writer se) (sb_darc se)) (wi i)"
    "\<And>i. \<exists>val. in_Spawn (wi i) =
        Some \<lparr>sp_ContractID = ContractSemiWriteID P, sp_Args = [\<lparr>arg_Name = ''write'', arg_Value = val\<rparr>]\<rparr>"
    "\<And>q. adds L (AddReadTransaction A L P (fixedProofList se ! (q mod sb_FIXED_COUNT)) (sb_reader se) (sb_darc se)) (ri q)"
    "\<And>q. \<exists>val rd. in_Spawn (ri q) =
        Some \<lparr>sp_ContractID = ContractReadID P, sp_Args = [\<lparr>arg_Name = ''read'', arg_Value = val\<rparr>]\<rparr> \<and>
        decode_Read P val = Ok rd \<and>
        rd_Write rd = NewInstanceID L (InclusionKey L (fixedProofList se ! (q mod sb_FIXED_COUNT)))"
proof -
  note laws = semi_worksD [OF sys]
  let ?wp = "\<lambda>q. fixedProofList se ! (q mod sb_FIXED_COUNT)"
  have "\<forall>i. \<exists>ins. adds L (AddWriteTransaction A L P (ws ! i) (sb_writer se) (sb_darc se)) ins \<and> (\<exists>val.
      in_Spawn ins = Some \<lparr>sp_ContractID = ContractSemiWriteID P, sp_Args = [\<lparr>arg_Name = ''write'', arg_Value = val\<rparr>]\<rparr>)"
    by (intro allI) (use AddWriteTransaction_adds [OF laws(7-9), of A "ws ! i" "sb_writer se" "sb_darc se" for i] in blast)
  from choice [OF this] obtain wi where
    wi: "\<And>i. adds L (AddWriteTransaction A L P (ws ! i) (sb_writer se) (sb_darc se)) (wi i)"
      "\<And>i. \<exists>val. in_Spawn (wi i) =
        Some \<lparr>sp_ContractID = ContractSemiWriteID P, sp_Args = [\<lparr>arg_Name = ''write'', arg_Value = val\<rparr>]\<rparr>" by blast
  have "\<forall>q. \<exists>ins. adds L (AddReadTransaction A L P (?wp q) (sb_reader se) (sb_darc se)) ins \<and> (\<exists>val rd.
      in_Spawn ins = Some \<lparr>sp_ContractID = ContractReadID P, sp_Args = [\<lparr>arg_Name = ''read'', arg_Value = val\<rparr>]\<rparr> \<and>
      decode_Read P val = Ok rd \<and> rd_Write rd = NewInstanceID L (InclusionKey L (?wp q)))"
    by (intro allI) (use AddReadTransaction_adds [OF laws(7-9), of A "?wp q" "sb_reader se" "sb_darc se" for q] in blast)
  from choice [OF this] obtain ri where
    ri: "\<And>q. adds L (AddReadTransaction A L P (?wp q) (sb_reader se) (sb_darc se)) (ri q)"
      "\<And>q. \<exists>val rd. in_Spawn (ri q) =
        Some \<lparr>sp_ContractID = ContractReadID P, sp_Args = [\<lparr>arg_Name = ''read'', arg_Value = val\<rparr>]\<rparr> \<and>
        decode_Read P val = Ok rd \<and> rd_Write rd = NewInstanceID L (InclusionKey L (?wp q))" by blast
  from that [OF wi ri] show ?thesis .
qed

lemma sb_rows_run:
  fixes L :: "('led, 'proof, ('pt, 'sc) key_signer, 'scid) ledger" and srv :: 'si and E :: "('db, StoreRequest) store_env"
  assumes sys: "semi_works S A L P E" and dat: "data_ok E fs ws" and tr: "\<And>i. \<exists>v. sb_store rand i = Delivered v"
  shows "rows_run (sb_ops S A L P E (srv # rest) se rand) (\<lambda>w _ s. sb_inv E srv sk fs ws w (fst s) (fst (snd s)))
    (length ws) R"
  unfolding rows_run_def
proof (intro allI impI)
  note laws = semi_worksD [OF sys]
  fix n ks w f r and s :: "'pt WriteData list \<times> ('si, 'sc, 'db, 'led) sb_state"
  assume inv: "sb_inv E srv sk fs ws w (fst s) (fst (snd s))" and w: "w + writes ks \<le> length ws"
  obtain wi ri where
    i: "\<And>i. adds L (AddWriteTransaction A L P (ws ! i) (sb_writer se) (sb_darc se)) (wi i)"
      "\<And>q. adds L (AddReadTransaction A L P (fixedProofList se ! (q mod sb_FIXED_COUNT)) (sb_reader se) (sb_darc se)) (ri q)"
    using sb_instructions [OF sys, of ws se] by metis
  obtain us led' where "mapS (\<lambda>(j, ins). AddTransactionAndWait L [ins] (row_wait n 3 j))
      (enumerate 0 (block_inss wi ri ks w r)) (snd (snd s)) = (Ok us, led')"
    using mapS_up [of "enumerate 0 (block_inss wi ri ks w r)" "\<lambda>(j, ins). AddTransactionAndWait L [ins] (row_wait n 3 j)"
        "snd (snd s)"] laws(8) by (auto simp: ledger_up_def split: prod.splits)
  from sb_row [where S = S and rest = rest and f = f, OF laws(4,5) dat tr i this inv disjI1 [OF refl] w]
  show "is_ok (fst (op_row (sb_ops S A L P E (srv # rest) se rand) n 0 w f r ks s))"
    by (auto simp: is_ok_iff)
qed

lemma sb_block:
  assumes sys: "semi_works S A L P E" and rdy: "fixed_ready S L P sk sid se fs" and dat: "data_ok E fs ws"
    and tr: "\<And>i. (\<exists>v. sb_store rand i = Delivered v) \<and> (\<exists>v. sb_decrypt rand i = Delivered v)"
    and inv: "sb_inv E srv sk fs ws k wds sv" "LedgerID L led = sid"
    and k: "k = w \<or> writes ks = 0" and w: "w + writes ks \<le> length ws"
  shows "\<exists>ts wds' sv' led'. op_row (sb_ops S A L P E (srv # rest) se rand) (length ks) 0 w f r ks (wds, (sv, led)) =
      (Ok ts, (wds', (sv', led'))) \<and> sb_inv E srv sk fs ws (k + writes ks) wds' sv' \<and> LedgerID L led' = sid \<and>
    (\<forall>m < length ks. if ks ! m = 1
       then op_prove (sb_ops S A L P E (srv # rest) se rand) (Some (ts ! m)) (wds', (sv', led')) =
              (Ok (), (wds', (sv', led')))
       else op_decrypt (sb_ops S A L P E (srv # rest) se rand) (r + reads (take m ks)) (Some (ts ! m))
              (wds', (sv', led')) = (Ok (), (wds', (sv', led'))))"
proof -
  note laws = semi_worksD [OF sys]
  let ?ops = "sb_ops S A L P E (srv # rest) se rand"
  let ?wp = "\<lambda>q. fixedProofList se ! (q mod sb_FIXED_COUNT)"
  obtain wi ri where
    wi: "\<And>i. adds L (AddWriteTransaction A L P (ws ! i) (sb_writer se) (sb_darc se)) (wi i)"
      "\<And>i. \<exists>val. in_Spawn (wi i) =
        Some \<lparr>sp_ContractID = ContractSemiWriteID P, sp_Args = [\<lparr>arg_Name = ''write'', arg_Value = val\<rparr>]\<rparr>" and
    ri: "\<And>q. adds L (AddReadTransaction A L P (?wp q) (sb_reader se) (sb_darc se)) (ri q)"
      "\<And>q. \<exists>val rd. in_Spawn (ri q) =
        Some \<lparr>sp_ContractID = ContractReadID P, sp_Args = [\<lparr>arg_Name = ''read'', arg_Value = val\<rparr>]\<rparr> \<and>
        decode_Read P val = Ok rd \<and> rd_Write rd = NewInstanceID L (InclusionKey L (?wp q))"
    using sb_instructions [OF sys, of ws se] by blast
  let ?inss = "block_inss wi ri ks w r"
  let ?ts = "map (\<lambda>ins. DeriveID L ins []) ?inss"
  obtain us led' where row: "spawn_row L ?inss 3 led = (Ok us, led')" using spawn_row_up [OF laws(8)] by blast
  from row have "mapS (\<lambda>(j, ins). AddTransactionAndWait L [ins] (row_wait (length ks) 3 j)) (enumerate 0 ?inss) led =
      (Ok us, led')" by (simp add: spawn_row_enumerate)
  from sb_row [where rest = rest and f = f, OF laws(4,5) dat conjunct1 [OF tr] wi(1) ri(1) this inv(1) k w] obtain wds' sv' where
    op: "op_row ?ops (length ks) 0 w f r ks (wds, (sv, led)) =
      (Ok (map (\<lambda>ins. DeriveID L ins []) ?inss), (wds', (sv', led')))"
    and inv': "sb_inv E srv sk fs ws (k + writes ks) wds' sv'" by blast
  have id': "LedgerID L led' = sid" using row_law_ID [OF laws(7) spawn_row_later [OF row]] inv(2) by simp
  have proof_at: "\<exists>p. proves L led' (DeriveID L (?inss ! m) []) cid val p"
    if "m < length ks" "in_Spawn (?inss ! m) =
      Some \<lparr>sp_ContractID = cid, sp_Args = [\<lparr>arg_Name = name, arg_Value = val\<rparr>]\<rparr>" for m cid name val
    using row_law_proof [OF laws(7) _ row tx_refl _ that(2)] that(1) by simp
  have "if ks ! m = 1
      then op_prove ?ops (Some (?ts ! m)) (wds', (sv', led')) = (Ok (), (wds', (sv', led')))
      else op_decrypt ?ops (r + reads (take m ks)) (Some (?ts ! m)) (wds', (sv', led')) =
        (Ok (), (wds', (sv', led')))" if m: "m < length ks" for m
  proof (cases "ks ! m = 1")
    case True
    with proof_at [OF m] wi(2) [of "w + writes (take m ks)"] show ?thesis
      by (fastforce simp: m block_inss_nth [OF m] sb_ops_def deref_def checked_proof_def api_GetProof_def proves_def)
  next
    case False
    let ?q = "r + reads (take m ks)"
    let ?j = "?q mod sb_FIXED_COUNT"
    have j: "?j < sb_FIXED_COUNT" by (simp add: sb_FIXED_COUNT_def)
    obtain val rd where val: "in_Spawn (?inss ! m) =
        Some \<lparr>sp_ContractID = ContractReadID P, sp_Args = [\<lparr>arg_Name = ''read'', arg_Value = val\<rparr>]\<rparr>"
      "decode_Read P val = Ok rd" "rd_Write rd = NewInstanceID L (InclusionKey L (?wp ?q))"
      using ri(2) [of ?q] False by (auto simp: block_inss_nth [OF m])
    obtain p where p: "checked_proof L ''Read inclusion proof does not match'' (DeriveID L (?inss ! m) []) led' = Ok p"
      "read_proved L P sid p (?wp ?q)"
      using proof_at [OF m val(1)] val(2,3) id'
      by (auto simp: proves_def checked_proof_def api_GetProof_def read_proved_def)
    obtain d where d: "sb_made S sk (sg_Secret (sb_reader se)) (fs ! ?j) d" "write_proved L P sid (?wp ?q) (fs ! ?j)"
      "fixedWdList se ! ?j = keyed (fs ! ?j)"
      using rdy j by (auto simp: fixed_ready_def)
    have "fs ! ?j \<in> set fs" using rdy j by (simp add: fixed_ready_def)
    with inv' have st: "ss_priv (sv' srv) = sk" "sb_stored E (sv' srv) (fs ! ?j)" by (simp_all add: sb_inv_def)
    have "sb_open S L P E rand ?q (srv # rest) (sb_reader se) (?wp ?q) p (keyed (fs ! ?j)) (sv', led') =
        (Ok d, (sv', led'))"
      by (rule sb_open_ok [where sv = sv' and srv = srv, OF laws(1,3-5) st(2) _ _ _ conjunct2 [OF tr]])
        (simp_all only: st(1) id' d(1,2) p(2))
    with False p(1) d(3) show ?thesis by (simp add: m sb_ops_def deref_def on_wdList_def)
  qed
  with op inv' id' show ?thesis
    by blast
qed

text \<open>What the blocks rely on, in the first round and once the first \<open>k\<close> data are stored.\<close>

abbreviation sb_state_inv ::
    "('db, StoreRequest) store_env \<Rightarrow> ('led, 'proof, 'signer, 'scid) ledger \<Rightarrow> 'scid \<Rightarrow> 'si \<Rightarrow> 'sc \<Rightarrow> 'pt WriteData list
      \<Rightarrow> 'pt WriteData list \<Rightarrow> nat \<Rightarrow> 'pt WriteData list \<times> ('si, 'sc, 'db, 'led) sb_state \<Rightarrow> bool" where
  "sb_state_inv E L sid srv sk fs ws k s \<equiv>
     sb_inv E srv sk fs ws k (fst s) (fst (snd s)) \<and> LedgerID L (snd (snd s)) = sid"

lemma sb_block_served:
  assumes sys: "semi_works S A L P E" and rdy: "fixed_ready S L P sk sid se fs" and dat: "data_ok E fs ws"
    and tr: "\<And>i. (\<exists>v. sb_store rand i = Delivered v) \<and> (\<exists>v. sb_decrypt rand i = Delivered v)"
  shows "block_served (sb_ops S A L P E (srv # rest) se rand) (\<lambda>w _. sb_state_inv E L sid srv sk fs ws w) (length ws) R"
    and "block_served (sb_ops S A L P E (srv # rest) se rand) (\<lambda>_ _. sb_state_inv E L sid srv sk fs ws k) 0 R"
proof -
  show "block_served (sb_ops S A L P E (srv # rest) se rand) (\<lambda>w _. sb_state_inv E L sid srv sk fs ws w) (length ws) R"
    unfolding block_served_def
  proof (intro allI impI)
    fix ks w f r s
    assume "sb_state_inv E L sid srv sk fs ws w s" "w + writes ks \<le> length ws"
    with sb_block [where sv = "fst (snd s)" and srv = srv and led = "snd (snd s)" and wds = "fst s" and k = w and w = w and
        ks = ks and r = r and f = f and rest = rest, OF sys rdy dat tr]
    show "\<exists>ts s'. op_row (sb_ops S A L P E (srv # rest) se rand) (length ks) 0 w f r ks s = (Ok ts, s') \<and>
        sb_state_inv E L sid srv sk fs ws (w + writes ks) s' \<and>
        (\<forall>m < length ks. if ks ! m = 1
           then op_prove (sb_ops S A L P E (srv # rest) se rand) (Some (ts ! m)) s' = (Ok (), s')
           else op_decrypt (sb_ops S A L P E (srv # rest) se rand) (r + reads (take m ks)) (Some (ts ! m)) s' = (Ok (), s'))"
      unfolding prod.collapse by (metis fst_conv snd_conv)
  qed
  show "block_served (sb_ops S A L P E (srv # rest) se rand) (\<lambda>_ _. sb_state_inv E L sid srv sk fs ws k) 0 R"
    unfolding block_served_def
  proof (intro allI impI)
    fix ks w f r s
    assume "sb_state_inv E L sid srv sk fs ws k s" and w: "w + writes ks \<le> 0"
    with sb_block [where sv = "fst (snd s)" and srv = srv and led = "snd (snd s)" and wds = "fst s" and k = k and w = w and
        ks = ks and r = r and f = f and rest = rest, OF sys rdy dat tr]
    have "\<exists>ts wds' sv' led'. op_row (sb_ops S A L P E (srv # rest) se rand) (length ks) 0 w f r ks s =
          (Ok ts, wds', sv', led') \<and> sb_inv E srv sk fs ws (k + writes ks) wds' sv' \<and> LedgerID L led' = sid \<and>
        (\<forall>m < length ks. if ks ! m = 1
           then op_prove (sb_ops S A L P E (srv # rest) se rand) (Some (ts ! m)) (wds', sv', led') = (Ok (), wds', sv', led')
           else op_decrypt (sb_ops S A L P E (srv # rest) se rand) (r + reads (take m ks)) (Some (ts ! m))
             (wds', sv', led') = (Ok (), wds', sv', led'))"
      unfolding prod.collapse by simp
    moreover have "writes ks = 0" using w by simp
    ultimately show "\<exists>ts s'. op_row (sb_ops S A L P E (srv # rest) se rand) (length ks) 0 w f r ks s = (Ok ts, s') \<and>
        sb_state_inv E L sid srv sk fs ws k s' \<and>
        (\<forall>m < length ks. if ks ! m = 1
           then op_prove (sb_ops S A L P E (srv # rest) se rand) (Some (ts ! m)) s' = (Ok (), s')
           else op_decrypt (sb_ops S A L P E (srv # rest) se rand) (r + reads (take m ks)) (Some (ts ! m)) s' = (Ok (), s'))"
      by (metis add_0_right fst_conv snd_conv)
  qed
qed

lemma sb_served_runs:
  assumes sys: "semi_works S A L P E" and rdy: "fixed_ready S L P sk sid se fs" and dat: "data_ok E fs ws"
    and tr: "\<And>i. (\<exists>v. sb_store rand i = Delivered v) \<and> (\<exists>v. sb_decrypt rand i = Delivered v)"
  shows "block_served (sb_ops S A L P E (srv # rest) se rand) (\<lambda>w _. sb_state_inv E L sid srv sk fs ws w) (length ws) R"
    and "rows_run (sb_ops S A L P E (srv # rest) se rand) (\<lambda>w _. sb_state_inv E L sid srv sk fs ws w) (length ws) R"
  using sb_block_served(1) [OF assms] sb_rows_run [OF sys dat conjunct1 [OF tr], of srv rest se sk R]
  by (auto simp: rows_run_def)

lemma sb_first_write_fails:
  assumes sys: "semi_works S A L P E" and dat: "data_ok E fs ws" and k: "0 < k" "ws \<noteq> []"
    and v: "sb_store rand sb_FIXED_COUNT = Delivered v"
  shows "first_write_fails (sb_ops S A L P E (srv # rest) se rand) (\<lambda>_. sb_state_inv E L sid srv sk fs ws k) R
    (v (Error ''Key already exists''))"
  unfolding first_write_fails_def
proof (intro conjI allI impI)
  note laws = semi_worksD [OF sys]
  fix f r w s
  assume s: "sb_state_inv E L sid srv sk fs ws k s"
  have dh: "DataHash (ws ! 0) = hash256 E (Data (ws ! 0))" using data_okD(3) [OF dat, of 0] k(2) by simp
  from sb_block_write_again [where sv = "fst (snd s)" and srv = srv and wds = "fst s" and led = "snd (snd s)",
      OF laws(4,5) conjunct1 [OF s] k dh v]
  have "sb_block_write A L P E rand (srv # rest) se 0 w s = (Err (v (Error ''Key already exists'')), s)" by simp
  then show "\<exists>s'. op_write (sb_ops S A L P E (srv # rest) se rand) 0 f w s = (Err (v (Error ''Key already exists'')), s')"
    unfolding sb_ops_calls by blast
  obtain ins where ins: "adds L (AddReadTransaction A L P (fixedProofList se ! (r mod sb_FIXED_COUNT)) (sb_reader se)
      (sb_darc se)) ins"
    using AddReadTransaction_adds [OF laws(7-9), of A "fixedProofList se ! (r mod sb_FIXED_COUNT)" "sb_reader se"
        "sb_darc se"] by blast
  obtain u led' where a: "AddTransactionAndWait L [ins] w (snd (snd s)) = (Ok u, led')"
    using laws(8) unfolding ledger_up_def is_ok_iff by (metis prod.collapse)
  have "LedgerID L led' = LedgerID L (snd (snd s))"
    using row_law_ID [OF laws(7) tx_add [OF tx_refl, of L "snd (snd s)" "[ins]" w]] a by simp
  with s ins a show "\<exists>t s'. op_read (sb_ops S A L P E (srv # rest) se rand) r w s = (Ok t, s') \<and>
      sb_state_inv E L sid srv sk fs ws k s'"
    by (auto simp: on_wdList_def on_ledger_def adds_def)
qed

section \<open>Before the rounds\<close>

lemma sb_create_split:
  assumes "sb_create S rand reader pk [0..<m + n] = Ok all"
  shows "sb_create S rand reader pk [0..<m] = Ok (take m all)"
    and "sb_create S rand reader pk [m..<m + n] = Ok (drop m all)"
proof -
  from assms have "list_all2 (\<lambda>i wd. CreateWriteData S (sb_entropy rand i) (sb_data rand i) (sg_Point reader) pk True = Ok wd)
      [0..<m + n] all" by (simp add: sb_create_def mapG_Ok_iff)
  from list_all2_takeI [OF this, of m] list_all2_dropI [OF this, of m]
  show "sb_create S rand reader pk [0..<m] = Ok (take m all)" "sb_create S rand reader pk [m..<m + n] = Ok (drop m all)"
    by (simp_all add: sb_create_def mapG_Ok_iff)
qed

lemma sb_byzgen_start:
  assumes sys: "semi_works S A L P E"
    and rd: "round_data S A E (rand\<lparr>sb_data := byzgen_data DATA_SIZE\<rparr>) (ss_priv (sv srv)) (sb_FIXED_COUNT + numWrite) all"
    and new: "distinct (map DataHash all)" "fresh_on E (sv srv) all"
    and aux: "readAuxFiles file1 file2 numTransactions numBlocks = Ok (txnList, blkSizeList)"
  shows "\<exists>se sv' led'. fst (sb_runByzgenSimulation S A L P E DATA_SIZE rand rnds file1 file2 (srv # rest)
        (Mul S (ss_priv (sv srv)) None) blockInterval numTransactions numBlocks numWrite numRead rounds (sv, led)) =
      fst (replay_rounds (\<lambda>r. sb_ops S A L P E (srv # rest) se (rnds r)) txnList blkSizeList [0..<rounds]
        (replay_start numWrite numRead) (drop sb_FIXED_COUNT all, (sv', led'))) \<and>
    fixed_ready S L P (ss_priv (sv srv)) (LedgerID L led') se (take sb_FIXED_COUNT all) \<and>
    data_ok E (take sb_FIXED_COUNT all) (drop sb_FIXED_COUNT all) \<and>
    sb_inv E srv (ss_priv (sv srv)) (take sb_FIXED_COUNT all) (drop sb_FIXED_COUNT all) 0 (drop sb_FIXED_COUNT all) sv'"
proof -
  note laws = semi_worksD [OF sys]
  let ?rand = "rand\<lparr>sb_data := byzgen_data DATA_SIZE\<rparr>"
  let ?reader = "NewSignerEd25519 A (sb_readerDraw ?rand)" and ?pk = "Mul S (ss_priv (sv srv)) None"
  let ?fs = "take sb_FIXED_COUNT all" and ?ws = "drop sb_FIXED_COUNT all"
  note made = round_data_made [OF laws(1,2,10,6) rd]
  from rd have tr: "\<And>i. \<exists>w. sb_store ?rand i = Delivered w"
    and cr: "sb_create S ?rand ?reader ?pk [0..<sb_FIXED_COUNT + numWrite] = Ok all" by (auto simp: round_data_def)
  note cr' = sb_create_split [OF cr]
  have len: "length ?fs = sb_FIXED_COUNT" using made(1) by simp
  obtain writer darc led1 where s: "sb_setup A L P ?rand (srv # rest) blockInterval 4 (sv, led) =
      (Ok (writer, ?reader, darc), (sv, led1))"
    using sb_setup_up [OF laws(11,12,8)] by blast
  have "\<forall>wd \<in> set all. DataHash wd = hash256 E (Data wd)"
    using made(1,2) by (auto simp: in_set_conv_nth)
  with new(1) have dat: "data_ok E ?fs ?ws" by (simp only: data_ok_def append_take_drop_id simp_thms)
  have fs: "distinct (map DataHash ?fs)" "fresh_on E (sv srv) ?fs" "fresh_on E (sv srv) ?ws"
    "\<And>i. i < length ?fs \<Longrightarrow> DataHash (?fs ! i) = hash256 E (Data (?fs ! i))"
    using new made(1,2) set_take_subset [of sb_FIXED_COUNT all] set_drop_subset [of sb_FIXED_COUNT all]
    by (auto simp: fresh_on_def take_map [symmetric])
  obtain ps s' led2 where
    wr: "sb_add_writes A L P E ?rand (srv # rest) writer darc 3 ?fs (sv, led1) = (Ok (map keyed ?fs, ps), (sv(srv := s'), led2))"
    and s': "sb_same E (DataHash ` set ?fs) (sv srv) s'"
    and wp: "\<And>i. i < length ?fs \<Longrightarrow> sb_stored E s' (?fs ! i) \<and> write_proved L P (LedgerID L led2) (ps ! i) (?fs ! i)"
    using sb_add_writes_ok [where sv = sv and srv = srv and rest = rest and rand = ?rand and writer = writer and
        darc = darc and led = led1 and A = A, OF laws(4,5,7-9) _ tr fs(4) fs(1,2), of 3] by auto
  let ?se = "\<lparr>sb_writer = writer, sb_reader = ?reader, sb_darc = darc, fixedWdList = map keyed ?fs, fixedProofList = ps\<rparr>"
  have "fixed_ready S L P (ss_priv (sv srv)) (LedgerID L led2) ?se ?fs"
    using made(1,3) wp len by (force simp: fixed_ready_def)
  moreover have "sb_inv E srv (ss_priv (sv srv)) ?fs ?ws 0 ?ws (sv(srv := s'))"
    unfolding sb_inv_def
  proof (intro conjI ballI allI impI)
    fix wd assume "wd \<in> set ?fs"
    with wp show "sb_stored E ((sv(srv := s')) srv) wd" by (auto simp: in_set_conv_nth simp del: nth_take)
  next
    fix i assume i: "i < length ?ws"
    show "\<exists>key. ?ws ! i = (?ws ! i)\<lparr>StoredKey := key\<rparr>" by (rule exI [of _ "StoredKey (?ws ! i)"]) simp
    from sb_sameD(3) [OF s' data_okD(2) [OF dat i]] fs(3) i show "if i < 0 then sb_stored E ((sv(srv := s')) srv) (?ws ! i)
      else bGet E (ss_db ((sv(srv := s')) srv)) (ss_bucket ((sv(srv := s')) srv)) (DataHash (?ws ! i)) = None"
      by (simp add: fresh_on_def del: nth_drop)
  qed (use sb_sameD(1) [OF s'] in simp_all)
  moreover have "fst (sb_runByzgenSimulation S A L P E DATA_SIZE rand rnds file1 file2 (srv # rest) ?pk blockInterval
        numTransactions numBlocks numWrite numRead rounds (sv, led)) =
      fst (replay_rounds (\<lambda>r. sb_ops S A L P E (srv # rest) ?se (rnds r)) txnList blkSizeList [0..<rounds]
        (replay_start numWrite numRead) (?ws, (sv(srv := s'), led2)))"
    unfolding sb_runByzgenSimulation_def Let_def aux bindS_simps prod.case s cr' wr fst_map_prod id_apply ..
  ultimately show ?thesis using dat by blast
qed

abbreviation byz_files :: "string list go \<times> string list go" where
  "byz_files \<equiv> (Ok [''1'', ''0'', ''1''], Ok [''2'', ''1''])"

lemma byz_files_read: "readAuxFiles (fst byz_files) (snd byz_files) 3 2 = Ok ([1, 0, 1], [2, 1])"
  by (simp add: readAuxFiles_def readAuxFile_def numeral_3_eq_3 numeral_2_eq_2 scan_line_def Atoi_def max_int_def max_uint_def
      min_int_def)

lemma byz_data: "sb_rand\<lparr>sb_data := byzgen_data 1\<rparr> = sb_rand"
proof -
  have "byzgen_data 1 = (\<lambda>i. [word_of_nat i])" by (rule ext) (simp add: byzgen_data_def)
  then show ?thesis by simp
qed

section \<open>Properties\<close>

text \<open>C37. One round of the replay on the semi-centralised system: on a working system with a server that has none
  of the ciphertexts, when there are enough write data and reads, the simulation ends without an error exactly when
  the sizes of the first blocks, for some number of them, add up to the number of transactions (the sizes after
  them are not looked at; a size below zero counts as zero), and otherwise panics with an index out of range: the
  sizes add up to less, or the last transactions are fewer than their block.\<close>

theorem semi_byzgen_one_round:
  assumes "semi_works S A L P E"
    and "readAuxFiles file1 file2 numTransactions numBlocks = Ok (txnList, blkSizeList)"
    and "round_data S A E (rand\<lparr>sb_data := byzgen_data DATA_SIZE\<rparr>) (ss_priv (sv srv)) (sb_FIXED_COUNT + numWrite) wds"
    and "distinct (map DataHash wds)" and "fresh_on E (sv srv) wds"
    and "\<And>i. (\<exists>w. sb_store (rnds 0) i = Delivered w) \<and> (\<exists>w. sb_decrypt (rnds 0) i = Delivered w)"
    and "writes txnList \<le> numWrite" and "reads txnList \<le> numRead"
  shows "fst (sb_runByzgenSimulation S A L P E DATA_SIZE rand rnds file1 file2 (srv # rest)
      (Mul S (ss_priv (sv srv)) None) blockInterval numTransactions numBlocks numWrite numRead 1 (sv, led)) =
    (if \<exists>k. sum_list (map nat (take k blkSizeList)) = length txnList then Ok () else Panic IndexOutOfRange)"
proof -
  have len: "length (drop sb_FIXED_COUNT wds) = numWrite"
    using round_data_made(1) [OF semi_worksD(1,2,10,6) [OF assms(1)] assms(3)] by simp
  obtain se sv' led' where run: "fst (sb_runByzgenSimulation S A L P E DATA_SIZE rand rnds file1 file2 (srv # rest)
        (Mul S (ss_priv (sv srv)) None) blockInterval numTransactions numBlocks numWrite numRead 1 (sv, led)) =
      fst (replay_rounds (\<lambda>r. sb_ops S A L P E (srv # rest) se (rnds r)) txnList blkSizeList [0..<1]
        (replay_start numWrite numRead) (drop sb_FIXED_COUNT wds, (sv', led')))"
    and st: "fixed_ready S L P (ss_priv (sv srv)) (LedgerID L led') se (take sb_FIXED_COUNT wds)"
      "data_ok E (take sb_FIXED_COUNT wds) (drop sb_FIXED_COUNT wds)"
      "sb_inv E srv (ss_priv (sv srv)) (take sb_FIXED_COUNT wds) (drop sb_FIXED_COUNT wds) 0 (drop sb_FIXED_COUNT wds) sv'"
    using sb_byzgen_start [where sv = sv and srv = srv, OF assms(1,3-5,2)] by blast
  from replay_blocks_ends [OF sb_served_runs [OF assms(1) st(1,2) assms(6), of srv rest],
      where st = "replay_start numWrite numRead" and s = "(drop sb_FIXED_COUNT wds, (sv', led'))" and idx = 0 and
        txnList = txnList and blks = blkSizeList and R = numRead] st(3) len assms(7,8)
  obtain st' s' where "replay_blocks (sb_ops S A L P E (srv # rest) se (rnds 0)) txnList blkSizeList 0
      (replay_start numWrite numRead) (drop sb_FIXED_COUNT wds, (sv', led')) =
      (if \<exists>k. sum_list (map nat (take k blkSizeList)) = length txnList then Ok st' else Panic IndexOutOfRange, s')"
    by (auto simp: replay_start_def)
  with run show ?thesis by (simp add: replay_start_def)
qed

theorem semi_byzgen_one_round_witness:
  "fst (sb_runByzgenSimulation example_suite example_darcs sb_ledger example_calypso sc_env 1 sb_rand (\<lambda>_. sb_rand)
     (fst byz_files) (snd byz_files) [()] 7 5 3 2 2 1 1 ((\<lambda>_. sc_server), [])) = Ok () \<and>
   fst (sb_runByzgenSimulation example_suite example_darcs sb_ledger example_calypso sc_env 1 sb_rand (\<lambda>_. sb_rand)
     (fst byz_files) (Ok [''2'', ''5'']) [()] 7 5 3 2 2 1 1 ((\<lambda>_. sc_server), [])) = Panic IndexOutOfRange"
proof -
  have pk: "Mul example_suite 7 None = 7" by (simp add: example_suite_def)
  have rd: "round_data example_suite example_darcs sc_env (sb_rand\<lparr>sb_data := byzgen_data 1\<rparr>) 7 (sb_FIXED_COUNT + 2)
      (sb_example 12)" using sb_example_round [of 12] unfolding byz_data by (simp add: sb_FIXED_COUNT_def)
  have long: "readAuxFiles (fst byz_files) (Ok [''2'', ''5'']) 3 2 = Ok ([1, 0, 1], [2, 5])"
    by (simp add: readAuxFiles_def readAuxFile_def numeral_3_eq_3 numeral_2_eq_2 scan_line_def Atoi_def max_int_def
        max_uint_def min_int_def)
  have ends: "\<exists>k. sum_list (map nat (take k [2, 1])) = length [1, 0, 1 :: int]"
    "\<not> (\<exists>k. sum_list (map nat (take k [2, 5])) = length [1, 0, 1 :: int])"
    by (auto simp: take_Cons' intro: exI [of _ 2])
  note run = semi_byzgen_one_round [where rnds = "\<lambda>_. sb_rand" and sv = "\<lambda>_. sc_server" and srv = "()" and
      rest = "[]" and blockInterval = 5 and numRead = 1 and led = "[]" and DATA_SIZE = 1 and rand = sb_rand and
      numWrite = 2 and wds = "sb_example 12", OF sb_example_works _ _ sb_example_new]
  from run [OF byz_files_read] run [OF long] rd ends show ?thesis by (simp add: pk)
qed



end
