(* ===== verification/Contract_Api.thy ===== *)
theory Contract_Api
  imports Byzcoin_Api
begin

text \<open>
  The side of ByzCoin that a contract sees: the state changes a contract returns, the view of the
  global state it reads, and the interface that the contracts of \<open>src/byzcoin/keyvalue.go\<close> and
  \<open>src/tournament_lottery/contracts.go\<close> share. ByzCoin itself is not under \<open>src/\<close>: the view and the
  methods of an instruction are fields of \<open>contract_env\<close>, with the documented behaviour in
  \<open>contract_law\<close>.
\<close>

section \<open>State changes and the view of the global state\<close>

datatype StateAction = Create | Update | Remove

record StateChange =
  ch_Action :: StateAction
  ch_InstanceID :: bytes
  ch_ContractID :: string
  ch_Value :: bytes
  ch_DarcID :: bytes

definition NewStateChange :: "StateAction \<Rightarrow> bytes \<Rightarrow> string \<Rightarrow> bytes \<Rightarrow> bytes \<Rightarrow> StateChange" where
  "NewStateChange a iid cid val darcID =
     \<lparr>ch_Action = a, ch_InstanceID = iid, ch_ContractID = cid, ch_Value = val, ch_DarcID = darcID\<rparr>"

datatype InstrType = SpawnType | InvokeType | DeleteType | InvalidInstrType

text \<open>What a contract returns: the state changes, the coins and the error, nil as \<open>None\<close>. The
  result is in \<open>go\<close> because a contract can also panic.\<close>

type_synonym 'coin contract_reply = "(StateChange list \<times> 'coin list \<times> error option) go"

record 'view contract_env =
  VerifyDarcSignature :: "Instruction \<Rightarrow> 'view \<Rightarrow> unit go"
  GetValues :: "'view \<Rightarrow> bytes \<Rightarrow> (bytes \<times> string \<times> bytes) go" \<comment> \<open>value, contract ID, darc ID\<close>
  GetType :: "Instruction \<Rightarrow> InstrType"
  inst_DeriveID :: "Instruction \<Rightarrow> string \<Rightarrow> bytes"
  Args_Search :: "Argument list \<Rightarrow> string \<Rightarrow> bytes"
  apply_change :: "StateChange \<Rightarrow> 'view \<Rightarrow> 'view" \<comment> \<open>what the ledger does with a state change\<close>

text \<open>
  What the contracts rely on: the type of an instruction says which part of it is set, a search
  finds the first argument of that name, and a state change that fits the state (create an
  absent instance, update or remove a present one) changes that instance and no other.
\<close>

definition fits :: "'view contract_env \<Rightarrow> StateChange \<Rightarrow> 'view \<Rightarrow> bool" where
  "fits E c v \<longleftrightarrow> (ch_Action c = Create) \<noteq> is_ok (GetValues E v (ch_InstanceID c))"

definition contract_law :: "'view contract_env \<Rightarrow> bool" where
  "contract_law E \<longleftrightarrow>
     (\<forall>i. GetType E i = SpawnType \<longleftrightarrow> in_Spawn i \<noteq> None) \<and>
     (\<forall>i. GetType E i = InvokeType \<longleftrightarrow> in_Spawn i = None \<and> in_Invoke i \<noteq> None) \<and>
     (\<forall>i. GetType E i = DeleteType \<longleftrightarrow> in_Spawn i = None \<and> in_Invoke i = None \<and> in_Delete i) \<and>
     (\<forall>as n. Args_Search E as n =
        (case find (\<lambda>a. arg_Name a = n) as of None \<Rightarrow> [] | Some a \<Rightarrow> arg_Value a)) \<and>
     (\<forall>c v. fits E c v \<longrightarrow>
        (if ch_Action c = Remove then \<not> is_ok (GetValues E (apply_change E c v) (ch_InstanceID c))
         else GetValues E (apply_change E c v) (ch_InstanceID c) =
                Ok (ch_Value c, ch_ContractID c, ch_DarcID c)) \<and>
        (\<forall>k. k \<noteq> ch_InstanceID c \<longrightarrow> GetValues E (apply_change E c v) k = GetValues E v k))"

lemma contract_law_types:
  assumes "contract_law E"
  shows "GetType E i = SpawnType \<longleftrightarrow> in_Spawn i \<noteq> None"
    "GetType E i = InvokeType \<longleftrightarrow> in_Spawn i = None \<and> in_Invoke i \<noteq> None"
    "GetType E i = DeleteType \<longleftrightarrow> in_Spawn i = None \<and> in_Invoke i = None \<and> in_Delete i"
  using assms unfolding contract_law_def by blast+

lemma contract_law_Search:
  "contract_law E \<Longrightarrow> Args_Search E as n =
     (case find (\<lambda>a. arg_Name a = n) as of None \<Rightarrow> [] | Some a \<Rightarrow> arg_Value a)"
  unfolding contract_law_def by blast

lemma apply_change_self:
  assumes "contract_law E" and "fits E c v" and "ch_Action c \<noteq> Remove"
  shows "GetValues E (apply_change E c v) (ch_InstanceID c) =
    Ok (ch_Value c, ch_ContractID c, ch_DarcID c)"
  using assms unfolding contract_law_def by (metis (no_types, lifting))

lemma apply_change_removed:
  assumes "contract_law E" and "fits E c v" and "ch_Action c = Remove"
  shows "\<not> is_ok (GetValues E (apply_change E c v) (ch_InstanceID c))"
  using assms unfolding contract_law_def by (metis (no_types, lifting))

lemma apply_change_other:
  assumes "contract_law E" and "fits E c v" and "k \<noteq> ch_InstanceID c"
  shows "GetValues E (apply_change E c v) k = GetValues E v k"
  using assms unfolding contract_law_def by (metis (no_types, lifting))

section \<open>Running contracts\<close>

text \<open>
  The ledger runs a contract on an instruction; when it returns no error, its state changes are
  applied in order, each only if it fits.
\<close>

definition apply_fitting :: "'view contract_env \<Rightarrow> StateChange list \<Rightarrow> 'view \<Rightarrow> 'view" where
  "apply_fitting E scs v = fold (\<lambda>c v. if fits E c v then apply_change E c v else v) scs v"

definition exec_contract ::
    "('view contract_env \<Rightarrow> 'view \<Rightarrow> Instruction \<Rightarrow> 'coin list \<Rightarrow> 'coin contract_reply)
      \<Rightarrow> 'view contract_env \<Rightarrow> Instruction \<times> 'coin list \<Rightarrow> 'view \<Rightarrow> 'view" where
  "exec_contract contract E ic v =
     (case contract E v (fst ic) (snd ic) of
        Ok (scs, cOut, None) \<Rightarrow> apply_fitting E scs v
      | _ \<Rightarrow> v)"

definition run_contract ::
    "('view contract_env \<Rightarrow> 'view \<Rightarrow> Instruction \<Rightarrow> 'coin list \<Rightarrow> 'coin contract_reply)
      \<Rightarrow> 'view contract_env \<Rightarrow> (Instruction \<times> 'coin list) list \<Rightarrow> 'view \<Rightarrow> 'view" where
  "run_contract contract E ics v = fold (exec_contract contract E) ics v"

lemma exec_contract_one:
  assumes "contract E v i c = Ok ([ch], cOut, None)"
  shows "exec_contract contract E (i, c) v = (if fits E ch v then apply_change E ch v else v)"
  using assms by (simp add: exec_contract_def apply_fitting_def)

lemma exec_contract_none:
  assumes "\<And>scs cOut. contract E v i c \<noteq> Ok (scs, cOut, None)"
  shows "exec_contract contract E (i, c) v = v"
  using assms by (auto simp: exec_contract_def split: go.split option.split)

text \<open>
  The contract a ByzCoin contract has to keep: an error comes with no state changes; success
  means that the darc of the instance admitted the instruction, and the state changes are for
  the instance itself or for the derived one, under this contract and the darc of the instance.
\<close>

locale byzcoin_contract =
  fixes contract :: "'view contract_env \<Rightarrow> 'view \<Rightarrow> Instruction \<Rightarrow> 'coin list \<Rightarrow> 'coin contract_reply"
    and contractID :: string
  assumes no_panic: "contract_law E \<Longrightarrow> (\<And>j. VerifyDarcSignature E j v \<noteq> Panic p) \<Longrightarrow>
      (\<And>k. GetValues E v k \<noteq> Panic p) \<Longrightarrow> contract E v i c \<noteq> Panic p"
    and failure: "contract E v i c = Ok (scs, cOut, Some e) \<Longrightarrow> scs = []"
    and success: "contract E v i c = Ok (scs, cOut, None) \<Longrightarrow>
      VerifyDarcSignature E i v = Ok () \<and> cOut = c \<and>
      (\<exists>val cid darcID ch. GetValues E v (in_InstanceID i) = Ok (val, cid, darcID) \<and> scs = [ch] \<and>
         ch_ContractID ch = contractID \<and> ch_DarcID ch = darcID \<and>
         ch_InstanceID ch = (if GetType E i = SpawnType then inst_DeriveID E i [] else in_InstanceID i) \<and>
         (ch_Action ch = Create \<longleftrightarrow> GetType E i = SpawnType))"
begin

text \<open>The instance that an instruction may touch.\<close>

lemma exec_frame:
  assumes "contract_law E"
    and "k \<noteq> (if GetType E i = SpawnType then inst_DeriveID E i [] else in_InstanceID i)"
  shows "GetValues E (exec_contract contract E (i, c) v) k = GetValues E v k"
proof (cases "\<exists>scs cOut. contract E v i c = Ok (scs, cOut, None)")
  case True
  then obtain scs cOut where run: "contract E v i c = Ok (scs, cOut, None)" by blast
  from success [OF run] obtain ch where "scs = [ch]"
    "ch_InstanceID ch = (if GetType E i = SpawnType then inst_DeriveID E i [] else in_InstanceID i)"
    by blast
  with run assms show ?thesis
    by (simp add: exec_contract_def apply_fitting_def apply_change_other split: if_splits)
qed (simp add: exec_contract_none)

text \<open>Without the darc's consent nothing changes.\<close>

lemma exec_unauthorised:
  assumes "VerifyDarcSignature E i v \<noteq> Ok ()"
  shows "exec_contract contract E (i, c) v = v"
proof -
  have "contract E v i c \<noteq> Ok (scs, cOut, None)" for scs cOut
    using success [of E v i c scs cOut] assms by blast
  then show ?thesis by (rule exec_contract_none)
qed

text \<open>A spawn never overwrites an instance, and the others keep the darc.\<close>

lemma exec_keeps_darc:
  assumes "contract_law E" and "GetValues E v k = Ok (val, cid, darcID)"
    and "GetValues E (exec_contract contract E (i, c) v) k = Ok (val', cid', darcID')"
  shows "darcID' = darcID"
proof (cases "\<exists>scs cOut. contract E v i c = Ok (scs, cOut, None)")
  case True
  then obtain scs cOut where run: "contract E v i c = Ok (scs, cOut, None)" by blast
  from success [OF run] obtain val0 cid0 d0 ch where
    ch: "GetValues E v (in_InstanceID i) = Ok (val0, cid0, d0)" "scs = [ch]" "ch_DarcID ch = d0"
      "ch_InstanceID ch = (if GetType E i = SpawnType then inst_DeriveID E i [] else in_InstanceID i)"
      "ch_Action ch = Create \<longleftrightarrow> GetType E i = SpawnType"
    by blast
  show ?thesis
  proof (cases "fits E ch v \<and> k = ch_InstanceID ch")
    case fit: True
    with ch(4,5) assms(2) have "k = in_InstanceID i" "ch_Action ch \<noteq> Create"
      by (auto simp: fits_def go_simps)
    with ch(1) assms(2) have d: "d0 = darcID" by simp
    from fit run ch(2) have "exec_contract contract E (i, c) v = apply_change E ch v"
      by (simp add: exec_contract_def apply_fitting_def)
    with assms fit ch(3) d apply_change_self [OF assms(1), of ch v]
      apply_change_removed [OF assms(1), of ch v]
    show ?thesis by (cases "ch_Action ch = Remove") (auto simp: go_simps)
  next
    case False
    with run ch(2) assms apply_change_other [OF assms(1), of ch v k]
    show ?thesis by (auto simp: exec_contract_def apply_fitting_def split: if_splits)
  qed
next
  case False
  then have "exec_contract contract E (i, c) v = v"
    by (simp add: exec_contract_none)
  with assms show ?thesis by simp
qed

end

section \<open>A concrete view for the witnesses\<close>

text \<open>The state is a map from instance IDs; everybody may do everything.\<close>

type_synonym map_view = "bytes \<rightharpoonup> bytes \<times> string \<times> bytes"

definition map_contracts :: "map_view contract_env" where
  "map_contracts =
     \<lparr>VerifyDarcSignature = (\<lambda>_ _. Ok ()),
      GetValues = (\<lambda>v k. case v k of None \<Rightarrow> Err (Error ''key does not exist'') | Some x \<Rightarrow> Ok x),
      GetType = (\<lambda>i. if in_Spawn i \<noteq> None then SpawnType else if in_Invoke i \<noteq> None then InvokeType
                     else if in_Delete i then DeleteType else InvalidInstrType),
      inst_DeriveID = (\<lambda>i what. in_InstanceID i @ in_Nonce i),
      Args_Search = (\<lambda>as n. case find (\<lambda>a. arg_Name a = n) as of None \<Rightarrow> [] | Some a \<Rightarrow> arg_Value a),
      apply_change = (\<lambda>c v. v(ch_InstanceID c :=
        (if ch_Action c = Remove then None else Some (ch_Value c, ch_ContractID c, ch_DarcID c))))\<rparr>"

lemma map_contracts_law [simp]: "contract_law map_contracts"
  by (simp add: contract_law_def map_contracts_def)

end
