(* ===== verification/Key_Value.thy ===== *)
theory Key_Value
  imports Contract_Api Example_Env
begin

text \<open>
  \<open>src/byzcoin/keyvalue.go\<close>, \<open>proto.go\<close>: the key/value contract. An instance holds an ordered list
  of key/value pairs; \<open>Update\<close> scans that list once per argument, with the indices of the range
  loop kept. The protobuf encoding of the pairs is a parameter (\<open>kv_codec\<close>).
\<close>

section \<open>The data and its operations\<close>

record KeyValue =
  Key :: string
  Value :: bytes

record KeyValueData =
  Storage :: "KeyValue list"

definition NewContractStruct :: "Argument list \<Rightarrow> KeyValueData" where
  "NewContractStruct args =
     \<lparr>Storage = foldl (\<lambda>st kv. st @ [\<lparr>Key = arg_Name kv, Value = arg_Value kv\<rparr>]) [] args\<rparr>"

text \<open>
  The inner loop of \<open>Update\<close>, from index \<open>i\<close>, with the length \<open>n\<close> the range expression had when the
  loop began. A deletion breaks out of the loop; a change of a value goes on.
\<close>

function update_scan :: "Argument \<Rightarrow> nat \<Rightarrow> nat \<Rightarrow> KeyValue list \<Rightarrow> bool \<Rightarrow> KeyValue list \<times> bool" where
  "update_scan kv n i st updated =
     (if i < n then
        if Key (st ! i) = arg_Name kv then
          if arg_Value kv = [] then (take i st @ drop (i + 1) st, True)
          else update_scan kv n (i + 1) (st[i := (st ! i)\<lparr>Value := arg_Value kv\<rparr>]) True
        else update_scan kv n (i + 1) st updated
      else (st, updated))"
  by auto
termination by (relation "measure (\<lambda>(kv, n, i, st, updated). n - i)") auto

declare update_scan.simps [simp del]

definition update_one :: "Argument \<Rightarrow> KeyValue list \<Rightarrow> KeyValue list" where
  "update_one kv st =
     (let (st', updated) = update_scan kv (length st) 0 st False
      in if updated then st' else st' @ [\<lparr>Key = arg_Name kv, Value = arg_Value kv\<rparr>])"

definition KeyValueData_Update :: "Argument list \<Rightarrow> KeyValueData \<Rightarrow> KeyValueData" where
  "KeyValueData_Update args cs = cs\<lparr>Storage := fold update_one args (Storage cs)\<rparr>"

record kv_codec =
  encode_KeyValueData :: "KeyValueData \<Rightarrow> error + bytes"
  decode_KeyValueData :: "bytes \<Rightarrow> error + KeyValueData"

text \<open>Encoding succeeds and decoding inverts it.\<close>

definition kv_codec_law :: "kv_codec \<Rightarrow> bool" where
  "kv_codec_law P \<longleftrightarrow>
     (\<forall>cs. \<exists>b. encode_KeyValueData P cs = Inr b \<and> decode_KeyValueData P b = Inr cs)"

definition ContractKeyValueID :: string where
  "ContractKeyValueID = ''keyValue''"

text \<open>The contract. \<open>return\<close> with named results gives the coins back on most errors; the error of
  the second \<open>GetValues\<close> is overwritten by that of \<open>Decode\<close> (the view has not changed, so this call
  returns what the first one did).\<close>

definition ContractKeyValue ::
    "kv_codec \<Rightarrow> 'view contract_env \<Rightarrow> 'view \<Rightarrow> Instruction \<Rightarrow> 'coin list \<Rightarrow> 'coin contract_reply" where
  "ContractKeyValue P E cdb inst cIn =
     (case VerifyDarcSignature E inst cdb of
        Panic p \<Rightarrow> Panic p
      | Err e \<Rightarrow> Ok ([], cIn, Some e)
      | Ok _ \<Rightarrow>
     (case GetValues E cdb (in_InstanceID inst) of
        Panic p \<Rightarrow> Panic p
      | Err e \<Rightarrow> Ok ([], cIn, Some e)
      | Ok (_, _, darcID) \<Rightarrow>
     (case GetType E inst of
        SpawnType \<Rightarrow>
          (case in_Spawn inst of
             None \<Rightarrow> Panic NilDereference
           | Some sp \<Rightarrow>
          (case encode_KeyValueData P (NewContractStruct (sp_Args sp)) of
             Inl e \<Rightarrow> Ok ([], cIn, Some e)
           | Inr csBuf \<Rightarrow>
               Ok ([NewStateChange Create (inst_DeriveID E inst []) ContractKeyValueID csBuf darcID],
                   cIn, None)))
      | InvokeType \<Rightarrow>
          (case in_Invoke inst of
             None \<Rightarrow> Panic NilDereference
           | Some iv \<Rightarrow>
          if iv_Command iv \<noteq> ''update'' then
            Ok ([], [], Some (Error ''Value contract can only update''))
          else
            let csBuf = (case GetValues E cdb (in_InstanceID inst) of Ok (csBuf, _, _) \<Rightarrow> csBuf | _ \<Rightarrow> [])
            in (case decode_KeyValueData P csBuf of
                  Inl e \<Rightarrow> Ok ([], cIn, Some e)
                | Inr cs \<Rightarrow>
               (case encode_KeyValueData P (KeyValueData_Update (iv_Args iv) cs) of
                  Inl e \<Rightarrow> Ok ([], cIn, Some e)
                | Inr csBuf \<Rightarrow>
                    Ok ([NewStateChange Update (in_InstanceID inst) ContractKeyValueID csBuf darcID],
                        cIn, None))))
      | DeleteType \<Rightarrow>
          Ok ([NewStateChange Remove (in_InstanceID inst) ContractKeyValueID [] darcID], cIn, None)
      | InvalidInstrType \<Rightarrow> Ok ([], cIn, Some (Error ''didn't find any instruction'')))))"

section \<open>What the loops compute\<close>

lemma NewContractStruct_Storage:
  "Storage (NewContractStruct args) = map (\<lambda>a. \<lparr>Key = arg_Name a, Value = arg_Value a\<rparr>) args"
proof -
  have "foldl (\<lambda>st kv. st @ [\<lparr>Key = arg_Name kv, Value = arg_Value kv\<rparr>]) st args =
      st @ map (\<lambda>a. \<lparr>Key = arg_Name a, Value = arg_Value a\<rparr>) args" for st
    by (induction args arbitrary: st) auto
  then show ?thesis by (simp add: NewContractStruct_def)
qed

text \<open>The pairs up to the index stay as they are; of the rest, a deletion drops the first one with
  the key, and a change sets the value of all of them.\<close>

fun remove_first :: "string \<Rightarrow> KeyValue list \<Rightarrow> KeyValue list" where
  "remove_first k [] = []"
| "remove_first k (x # xs) = (if Key x = k then xs else x # remove_first k xs)"

definition set_all :: "string \<Rightarrow> bytes \<Rightarrow> KeyValue list \<Rightarrow> KeyValue list" where
  "set_all k val = map (\<lambda>x. if Key x = k then x\<lparr>Value := val\<rparr> else x)"

lemma update_scan_spec:
  "update_scan kv (length (pre @ suf)) (length pre) (pre @ suf) u =
     (if arg_Value kv = [] then (pre @ remove_first (arg_Name kv) suf, u \<or> arg_Name kv \<in> Key ` set suf)
      else (pre @ set_all (arg_Name kv) (arg_Value kv) suf, u \<or> arg_Name kv \<in> Key ` set suf))"
proof (induction suf arbitrary: pre u)
  case Nil
  show ?case by (simp add: update_scan.simps set_all_def)
next
  case (Cons x suf)
  show ?case
  proof (cases "Key x = arg_Name kv")
    case True
    then show ?thesis
      using Cons [of "pre @ [x\<lparr>Value := arg_Value kv\<rparr>]" True]
      by (subst update_scan.simps) (auto simp: set_all_def)
  next
    case False
    then show ?thesis
      using Cons [of "pre @ [x]" u]
      by (subst update_scan.simps) (auto simp: set_all_def)
  qed
qed

lemma update_one_spec:
  "update_one kv st =
     (if arg_Name kv \<notin> Key ` set st then st @ [\<lparr>Key = arg_Name kv, Value = arg_Value kv\<rparr>]
      else if arg_Value kv = [] then remove_first (arg_Name kv) st
      else set_all (arg_Name kv) (arg_Value kv) st)"
proof -
  have "remove_first k st = st" if "k \<notin> Key ` set st" for k
    using that by (induction st) auto
  moreover have "set_all k val st = st" if "k \<notin> Key ` set st" for k val
    using that by (induction st) (auto simp: set_all_def)
  ultimately show ?thesis
    using update_scan_spec [of kv "[]" st False] by (auto simp: update_one_def)
qed

section \<open>The abstract map\<close>

definition kv_map :: "KeyValueData \<Rightarrow> string \<rightharpoonup> bytes" where
  "kv_map cs = map_of (map (\<lambda>x. (Key x, Value x)) (Storage cs))"

definition kv_distinct :: "KeyValueData \<Rightarrow> bool" where
  "kv_distinct cs \<longleftrightarrow> distinct (map Key (Storage cs))"

text \<open>The meaning of one argument on the map: an empty value deletes a present key.\<close>

definition kv_step :: "Argument \<Rightarrow> (string \<rightharpoonup> bytes) \<Rightarrow> string \<rightharpoonup> bytes" where
  "kv_step a m =
     (if arg_Value a = [] \<and> arg_Name a \<in> dom m then m(arg_Name a := None)
      else m(arg_Name a \<mapsto> arg_Value a))"

definition pairs_map :: "KeyValue list \<Rightarrow> string \<rightharpoonup> bytes" where
  "pairs_map st = map_of (map (\<lambda>x. (Key x, Value x)) st)"

lemma pairs_map_simps [simp]:
  "pairs_map [] = Map.empty"
  "pairs_map (x # xs) = (pairs_map xs)(Key x \<mapsto> Value x)"
  by (simp_all add: pairs_map_def)

lemma kv_map_pairs: "kv_map cs = pairs_map (Storage cs)"
  by (simp add: kv_map_def pairs_map_def)

lemma dom_pairs_map [simp]: "dom (pairs_map st) = Key ` set st"
  by (simp add: pairs_map_def dom_map_of_conv_image_fst image_image)

lemma pairs_map_None: "k \<notin> Key ` set st \<Longrightarrow> pairs_map st k = None"
  using dom_pairs_map [of st] by blast

lemma pairs_map_append: "pairs_map (xs @ ys) = pairs_map ys ++ pairs_map xs"
  by (simp add: pairs_map_def)

lemma keys_remove_first: "set (map Key (remove_first k st)) \<subseteq> set (map Key st)"
  by (induction st) auto

lemma distinct_remove_first:
  "distinct (map Key st) \<Longrightarrow> distinct (map Key (remove_first k st))"
proof (induction st)
  case (Cons x st)
  then show ?case using keys_remove_first [of k st] by auto
qed simp

lemma pairs_map_remove_first:
  "distinct (map Key st) \<Longrightarrow> pairs_map (remove_first k st) = (pairs_map st)(k := None)"
  by (induction st) (auto simp: fun_eq_iff pairs_map_None)

lemma keys_set_all [simp]: "map Key (set_all k val st) = map Key st"
  by (induction st) (auto simp: set_all_def)

lemma pairs_map_set_all:
  "k \<in> Key ` set st \<Longrightarrow> pairs_map (set_all k val st) = (pairs_map st)(k \<mapsto> val)"
proof (induction st)
  case (Cons x st)
  have "set_all k val st = st" if "k \<notin> Key ` set st"
    using that by (induction st) (auto simp: set_all_def)
  with Cons show ?case
    by (cases "k \<in> Key ` set st") (auto simp: set_all_def fun_eq_iff)
qed simp

lemma update_one_distinct:
  "distinct (map Key st) \<Longrightarrow> distinct (map Key (update_one kv st))"
  by (auto simp: update_one_spec distinct_remove_first)

lemma update_one_map:
  "distinct (map Key st) \<Longrightarrow> pairs_map (update_one kv st) = kv_step kv (pairs_map st)"
  by (auto simp: update_one_spec kv_step_def pairs_map_remove_first pairs_map_set_all
      pairs_map_append pairs_map_None fun_eq_iff map_add_def split: option.split)

lemma update_refines:
  assumes "kv_distinct cs"
  shows "kv_distinct (KeyValueData_Update args cs) \<and>
    kv_map (KeyValueData_Update args cs) = fold kv_step args (kv_map cs)"
proof -
  have "distinct (map Key (fold update_one args st)) \<and>
      pairs_map (fold update_one args st) = fold kv_step args (pairs_map st)"
    if "distinct (map Key st)" for st
    using that by (induction args arbitrary: st) (simp_all add: update_one_distinct update_one_map)
  with assms show ?thesis by (simp add: kv_distinct_def kv_map_pairs KeyValueData_Update_def)
qed

section \<open>The contract keeps the ByzCoin interface\<close>

lemma ContractKeyValue_Ok_iff:
  "ContractKeyValue P E v i c = Ok (scs, cOut, None) \<longleftrightarrow>
     VerifyDarcSignature E i v = Ok () \<and> cOut = c \<and>
     (\<exists>val cid darcID. GetValues E v (in_InstanceID i) = Ok (val, cid, darcID) \<and>
       ((GetType E i = SpawnType \<and> (\<exists>sp b. in_Spawn i = Some sp \<and>
           encode_KeyValueData P (NewContractStruct (sp_Args sp)) = Inr b \<and>
           scs = [NewStateChange Create (inst_DeriveID E i []) ContractKeyValueID b darcID])) \<or>
        (GetType E i = InvokeType \<and> (\<exists>iv cs b. in_Invoke i = Some iv \<and> iv_Command iv = ''update'' \<and>
           decode_KeyValueData P val = Inr cs \<and>
           encode_KeyValueData P (KeyValueData_Update (iv_Args iv) cs) = Inr b \<and>
           scs = [NewStateChange Update (in_InstanceID i) ContractKeyValueID b darcID])) \<or>
        (GetType E i = DeleteType \<and>
           scs = [NewStateChange Remove (in_InstanceID i) ContractKeyValueID [] darcID])))"
  by (cases "VerifyDarcSignature E i v"; cases "GetValues E v (in_InstanceID i)"; cases "GetType E i")
    (auto simp: ContractKeyValue_def Let_def split: option.splits sum.splits if_splits)

lemma ContractKeyValue_error:
  "ContractKeyValue P E v i c = Ok (scs, cOut, Some e) \<Longrightarrow> scs = []"
  by (cases "VerifyDarcSignature E i v"; cases "GetValues E v (in_InstanceID i)"; cases "GetType E i")
    (auto simp: ContractKeyValue_def Let_def split: option.splits sum.splits if_splits)

lemma ContractKeyValue_no_panic:
  assumes "contract_law E" and "\<And>j. VerifyDarcSignature E j v \<noteq> Panic p"
    and "\<And>k. GetValues E v k \<noteq> Panic p"
  shows "ContractKeyValue P E v i c \<noteq> Panic p"
  using assms(2) [of i] assms(3) [of "in_InstanceID i"] contract_law_types [OF assms(1), of i]
  by (cases "VerifyDarcSignature E i v"; cases "GetValues E v (in_InstanceID i)"; cases "GetType E i")
    (auto simp: ContractKeyValue_def Let_def split: option.splits sum.splits if_splits)

interpretation kv: byzcoin_contract "ContractKeyValue P" ContractKeyValueID
proof (unfold_locales, goal_cases)
  case (1 E v p i c)
  then show ?case by (rule ContractKeyValue_no_panic)
next
  case (2 E v i c scs cOut e)
  then show ?case by (rule ContractKeyValue_error)
next
  case (3 E v i c scs cOut)
  then show ?case by (auto simp: ContractKeyValue_Ok_iff NewStateChange_def)
qed

section \<open>An instance over time\<close>

text \<open>The map an instance holds, and the invariant of an instance: it decodes, with distinct keys.\<close>

definition kv_abs :: "kv_codec \<Rightarrow> 'view contract_env \<Rightarrow> bytes \<Rightarrow> 'view \<Rightarrow> (string \<rightharpoonup> bytes) option" where
  "kv_abs P E iid v =
     (case GetValues E v iid of
        Ok (b, _, _) \<Rightarrow> (case decode_KeyValueData P b of Inr cs \<Rightarrow> Some (kv_map cs) | Inl _ \<Rightarrow> None)
      | _ \<Rightarrow> None)"

definition kv_inv :: "kv_codec \<Rightarrow> 'view contract_env \<Rightarrow> bytes \<Rightarrow> 'view \<Rightarrow> bool" where
  "kv_inv P E iid v =
     (case GetValues E v iid of
        Ok (b, _, _) \<Rightarrow> (case decode_KeyValueData P b of Inr cs \<Rightarrow> kv_distinct cs | Inl _ \<Rightarrow> False)
      | _ \<Rightarrow> True)"

text \<open>What an instruction means for the instance \<open>iid\<close>: nothing unless it is addressed to it and
  its darc admits it; an update applies the arguments in order; a delete removes the map.\<close>

definition kv_effect ::
    "'view contract_env \<Rightarrow> bytes \<Rightarrow> 'view \<Rightarrow> Instruction \<Rightarrow> (string \<rightharpoonup> bytes) option \<Rightarrow> (string \<rightharpoonup> bytes) option" where
  "kv_effect E iid v i m =
     (if in_InstanceID i \<noteq> iid \<or> VerifyDarcSignature E i v \<noteq> Ok () \<or> in_Spawn i \<noteq> None then m
      else case in_Invoke i of
        Some iv \<Rightarrow> if iv_Command iv = ''update'' then map_option (fold kv_step (iv_Args iv)) m else m
      | None \<Rightarrow> if in_Delete i then None else m)"

fun kv_effects ::
    "kv_codec \<Rightarrow> 'view contract_env \<Rightarrow> bytes \<Rightarrow> 'view \<Rightarrow> (Instruction \<times> 'coin list) list
      \<Rightarrow> (string \<rightharpoonup> bytes) option \<Rightarrow> (string \<rightharpoonup> bytes) option" where
  "kv_effects P E iid v [] m = m"
| "kv_effects P E iid v (ic # ics) m =
     kv_effects P E iid (exec_contract (ContractKeyValue P) E ic v) ics (kv_effect E iid v (fst ic) m)"

lemma kv_codec_decode:
  assumes "kv_codec_law P" and "encode_KeyValueData P cs = Inr b"
  shows "decode_KeyValueData P b = Inr cs"
  using assms unfolding kv_codec_law_def by (metis sum.inject(2))

lemma kv_codec_encode: "kv_codec_law P \<Longrightarrow> \<exists>b. encode_KeyValueData P cs = Inr b"
  unfolding kv_codec_law_def by blast

lemma kv_exec_update:
  assumes E: "contract_law E" and P: "kv_codec_law P"
    and i: "VerifyDarcSignature E i v = Ok ()" "in_Spawn i = None" "in_Invoke i = Some iv"
      "iv_Command iv = ''update''"
    and v: "GetValues E v (in_InstanceID i) = Ok (b, cid, d)" "decode_KeyValueData P b = Inr cs"
  shows "\<exists>b'. GetValues E (exec_contract (ContractKeyValue P) E (i, c) v) (in_InstanceID i) =
      Ok (b', ContractKeyValueID, d) \<and>
    decode_KeyValueData P b' = Inr (KeyValueData_Update (iv_Args iv) cs)"
proof -
  from kv_codec_encode [OF P] obtain b' where
    b': "encode_KeyValueData P (KeyValueData_Update (iv_Args iv) cs) = Inr b'" by blast
  let ?ch = "NewStateChange Update (in_InstanceID i) ContractKeyValueID b' d"
  have "GetType E i = InvokeType" using contract_law_types(2) [OF E] i by simp
  with i v b' have "ContractKeyValue P E v i c = Ok ([?ch], c, None)"
    by (simp add: ContractKeyValue_Ok_iff)
  moreover have fits: "fits E ?ch v" by (simp add: fits_def NewStateChange_def v)
  ultimately show ?thesis
    using apply_change_self [OF E fits] kv_codec_decode [OF P b']
    by (simp add: exec_contract_one NewStateChange_def)
qed

lemma kv_exec_delete:
  assumes E: "contract_law E"
    and i: "VerifyDarcSignature E i v = Ok ()" "in_Spawn i = None" "in_Invoke i = None" "in_Delete i"
    and v: "GetValues E v (in_InstanceID i) = Ok (b, cid, d)"
  shows "\<not> is_ok (GetValues E (exec_contract (ContractKeyValue P) E (i, c) v) (in_InstanceID i))"
proof -
  let ?ch = "NewStateChange Remove (in_InstanceID i) ContractKeyValueID [] d"
  have "GetType E i = DeleteType" using contract_law_types(3) [OF E] i by simp
  with i v have "ContractKeyValue P E v i c = Ok ([?ch], c, None)"
    by (simp add: ContractKeyValue_Ok_iff)
  moreover have fits: "fits E ?ch v" by (simp add: fits_def NewStateChange_def v)
  ultimately show ?thesis
    using apply_change_removed [OF E fits] by (simp add: exec_contract_one NewStateChange_def)
qed

text \<open>An instance that is not there, or an instruction that is neither an update nor a delete.\<close>

lemma kv_exec_idle:
  assumes E: "contract_law E" and "in_Spawn i = None"
    and "\<not> is_ok (GetValues E v (in_InstanceID i)) \<or>
         (\<exists>iv. in_Invoke i = Some iv \<and> iv_Command iv \<noteq> ''update'') \<or> (in_Invoke i = None \<and> \<not> in_Delete i)"
  shows "exec_contract (ContractKeyValue P) E (i, c) v = v"
proof -
  have "ContractKeyValue P E v i c \<noteq> Ok (scs, cOut, None)" for scs cOut
    using assms(2,3) contract_law_types [OF E, of i] by (auto simp: ContractKeyValue_Ok_iff go_simps)
  then show ?thesis by (rule exec_contract_none)
qed

text \<open>One instruction: the invariant is kept, and the map changes as \<open>kv_effect\<close> says.\<close>

lemma kv_exec_simulates:
  assumes E: "contract_law E" and P: "kv_codec_law P" and inv: "kv_inv P E iid v"
    and fresh: "in_Spawn i \<noteq> None \<Longrightarrow> inst_DeriveID E i [] \<noteq> iid"
  shows "kv_inv P E iid (exec_contract (ContractKeyValue P) E (i, c) v) \<and>
    kv_abs P E iid (exec_contract (ContractKeyValue P) E (i, c) v) = kv_effect E iid v i (kv_abs P E iid v)"
proof -
  let ?v = "exec_contract (ContractKeyValue P) E (i, c) v"
  consider
      (frame) "in_Spawn i \<noteq> None \<or> in_InstanceID i \<noteq> iid"
    | (unauth) "in_Spawn i = None" "VerifyDarcSignature E i v \<noteq> Ok ()"
    | (absent) "in_Spawn i = None" "VerifyDarcSignature E i v = Ok ()" "in_InstanceID i = iid"
        "\<not> is_ok (GetValues E v iid)"
    | (present) b cid d where "in_Spawn i = None" "VerifyDarcSignature E i v = Ok ()"
        "in_InstanceID i = iid" "GetValues E v iid = Ok (b, cid, d)"
    by (metis is_ok_iff prod_cases3)
  then show ?thesis
  proof cases
    case frame
    with kv.exec_frame [OF E, of iid i P c v] fresh contract_law_types(1) [OF E, of i]
    have "GetValues E ?v iid = GetValues E v iid" by auto
    with frame inv show ?thesis by (auto simp: kv_inv_def kv_abs_def kv_effect_def)
  next
    case unauth
    with kv.exec_unauthorised [of E i v P c] inv show ?thesis by (simp add: kv_effect_def)
  next
    case absent
    then have "?v = v" "kv_abs P E iid v = None"
      using kv_exec_idle [OF E, of i v P c]
      by (auto simp: kv_abs_def go_simps split: go.split)
    with inv show ?thesis by (simp add: kv_effect_def split: option.split)
  next
    case present
    with inv obtain cs where cs: "decode_KeyValueData P b = Inr cs" "kv_distinct cs"
      by (auto simp: kv_inv_def split: sum.splits)
    show ?thesis
    proof (cases "in_Invoke i")
      case None
      with present cs inv kv_exec_delete [OF E present(2,1), of b cid d P c]
        kv_exec_idle [OF E present(1), of v P c]
      show ?thesis
        by (cases "in_Delete i") (auto simp: kv_inv_def kv_abs_def kv_effect_def split: go.split)
    next
      case (Some iv)
      with present cs inv kv_exec_update [OF E P present(2,1) Some, of b cid d cs c]
        kv_exec_idle [OF E present(1), of v P c] update_refines [OF cs(2), of "iv_Args iv"]
      show ?thesis
        by (cases "iv_Command iv = ''update''") (auto simp: kv_inv_def kv_abs_def kv_effect_def)
    qed
  qed
qed

lemma kv_run_simulates:
  assumes "contract_law E" and "kv_codec_law P" and "kv_inv P E iid v"
    and "\<And>ic. ic \<in> set ics \<Longrightarrow> in_Spawn (fst ic) \<noteq> None \<Longrightarrow> inst_DeriveID E (fst ic) [] \<noteq> iid"
  shows "kv_inv P E iid (run_contract (ContractKeyValue P) E ics v) \<and>
    kv_abs P E iid (run_contract (ContractKeyValue P) E ics v) =
      kv_effects P E iid v ics (kv_abs P E iid v)"
  using assms(3,4)
proof (induction ics arbitrary: v)
  case (Cons ic ics)
  have "kv_inv P E iid (exec_contract (ContractKeyValue P) E ic v) \<and>
      kv_abs P E iid (exec_contract (ContractKeyValue P) E ic v) =
        kv_effect E iid v (fst ic) (kv_abs P E iid v)"
    using kv_exec_simulates [OF assms(1,2) Cons.prems(1), of "fst ic" "snd ic"] Cons.prems(2) by simp
  with Cons show ?case by (simp add: run_contract_def)
qed (simp add: run_contract_def)

text \<open>A spawn creates an instance with the pairs of its arguments, in their order.\<close>

lemma kv_exec_spawn:
  assumes E: "contract_law E" and P: "kv_codec_law P"
    and i: "VerifyDarcSignature E i v = Ok ()" "in_Spawn i = Some sp"
    and v: "GetValues E v (in_InstanceID i) = Ok (b, cid, d)"
      "\<not> is_ok (GetValues E v (inst_DeriveID E i []))"
  shows "\<exists>b'. GetValues E (exec_contract (ContractKeyValue P) E (i, c) v) (inst_DeriveID E i []) =
      Ok (b', ContractKeyValueID, d) \<and>
    decode_KeyValueData P b' = Inr (NewContractStruct (sp_Args sp))"
proof -
  from kv_codec_encode [OF P] obtain b' where
    b': "encode_KeyValueData P (NewContractStruct (sp_Args sp)) = Inr b'" by blast
  let ?ch = "NewStateChange Create (inst_DeriveID E i []) ContractKeyValueID b' d"
  have "GetType E i = SpawnType" using contract_law_types(1) [OF E] i by simp
  with i v b' have "ContractKeyValue P E v i c = Ok ([?ch], c, None)"
    by (simp add: ContractKeyValue_Ok_iff)
  moreover have fits: "fits E ?ch v" by (simp add: fits_def NewStateChange_def v)
  ultimately show ?thesis
    using apply_change_self [OF E fits] kv_codec_decode [OF P b']
    by (simp add: exec_contract_one NewStateChange_def)
qed

lemma kv_spawned_map:
  assumes "distinct (map arg_Name args)"
  shows "kv_distinct (NewContractStruct args) \<and>
    kv_map (NewContractStruct args) = map_of (map (\<lambda>a. (arg_Name a, arg_Value a)) args)"
  using assms by (simp add: kv_distinct_def kv_map_def NewContractStruct_Storage comp_def)

section \<open>A concrete encoding for the witnesses\<close>

definition put_chars :: "string \<Rightarrow> bytes" where
  "put_chars cs = put_bytes (map (\<lambda>c. word_of_nat (of_char c)) cs)"

definition get_chars :: "bytes \<Rightarrow> (string \<times> bytes) option" where
  "get_chars s = map_option (\<lambda>(bs, r). (map (\<lambda>b. char_of (unat b)) bs, r)) (get_bytes s)"

fun put_pairs :: "KeyValue list \<Rightarrow> bytes" where
  "put_pairs [] = []"
| "put_pairs (x # xs) = put_chars (Key x) @ put_bytes (Value x) @ put_pairs xs"

text \<open>One unit of fuel for each pair; the length of the input is enough.\<close>

fun get_pairs :: "nat \<Rightarrow> bytes \<Rightarrow> KeyValue list option" where
  "get_pairs n [] = Some []"
| "get_pairs 0 (b # s) = None"
| "get_pairs (Suc n) (b # s) =
     Option.bind (get_chars (b # s)) (\<lambda>(k, s). Option.bind (get_bytes s) (\<lambda>(val, s).
       map_option (\<lambda>xs. \<lparr>Key = k, Value = val\<rparr> # xs) (get_pairs n s)))"

definition kv_codec1 :: kv_codec where
  "kv_codec1 =
     \<lparr>encode_KeyValueData = (\<lambda>cs. Inr (put_pairs (Storage cs))),
      decode_KeyValueData = (\<lambda>b. case get_pairs (length b) b of
        None \<Rightarrow> Inl (Error ''decode'') | Some st \<Rightarrow> Inr \<lparr>Storage = st\<rparr>)\<rparr>"

lemma get_put_chars [simp]: "get_chars (put_chars cs @ r) = Some (cs, r)"
proof -
  have "char_of (unat (word_of_nat (of_char c) :: byte)) = c" for c
  proof -
    have "of_char c < (256 :: nat)" by (rule nat_of_char_less_256)
    then have "unat (word_of_nat (of_char c) :: byte) = of_char c" by (simp add: unat_of_nat)
    then show ?thesis by simp
  qed
  then show ?thesis by (simp add: get_chars_def put_chars_def comp_def)
qed

lemma get_put_pairs: "length xs \<le> n \<Longrightarrow> get_pairs n (put_pairs xs) = Some xs"
proof (induction xs arbitrary: n)
  case (Cons x xs)
  then obtain m where n: "n = Suc m" "length xs \<le> m" by (cases n) auto
  obtain b s where bs: "put_pairs (x # xs) = b # s"
    by (cases "put_pairs (x # xs)") (auto simp: put_chars_def elim: put_bytes.elims)
  have "get_pairs n (put_pairs (x # xs)) =
     Option.bind (get_chars (put_pairs (x # xs))) (\<lambda>(k, s). Option.bind (get_bytes s) (\<lambda>(val, s).
       map_option (\<lambda>xs. \<lparr>Key = k, Value = val\<rparr> # xs) (get_pairs m s)))"
    unfolding n bs by (rule get_pairs.simps)
  with Cons.IH [OF n(2)] show ?case by simp
qed simp

lemma length_put_pairs: "length xs \<le> length (put_pairs xs)"
proof (induction xs)
  case (Cons x xs)
  have "0 < length (put_bytes (Value x))" by (cases "Value x") auto
  with Cons show ?case unfolding put_pairs.simps length_append list.size by linarith
qed simp

lemma kv_codec1_law [simp]: "kv_codec_law kv_codec1"
  by (simp add: kv_codec_law_def kv_codec1_def get_put_pairs length_put_pairs)

section \<open>Properties\<close>

text \<open>Refinement of the key/value storage: on storage with distinct keys, \<open>Update\<close> keeps the
  keys distinct and acts on the map the pairs denote exactly as the list of arguments says, one
  after the other: a non-empty value sets the key, an empty value deletes a present key, and an
  absent key is added (also with an empty value).\<close>

lemma kv_update_refines_map:
  assumes "kv_distinct cs"
  shows "kv_distinct (KeyValueData_Update args cs) \<and>
    kv_map (KeyValueData_Update args cs) =
      fold (\<lambda>a m. if arg_Value a = [] \<and> arg_Name a \<in> dom m then m(arg_Name a := None)
                   else m(arg_Name a \<mapsto> arg_Value a)) args (kv_map cs)"
  using update_refines [OF assms, of args] by (simp add: kv_step_def [abs_def])

text \<open>C13. Refinement of a key/value instance over its life: after a spawn that its darc admits,
  with distinct argument names and an unused derived ID, and any further instructions (updates,
  deletes, other commands, with or without the darc's consent, for this or for other instances),
  the instance holds the map that the admitted updates give, starting from the spawn's arguments,
  or none once it is deleted.\<close>

theorem kv_instance_refines_map:
  assumes "contract_law E" and "kv_codec_law P"
    and "VerifyDarcSignature E i v = Ok ()" and "in_Spawn i = Some sp"
    and "distinct (map arg_Name (sp_Args sp))"
    and "GetValues E v (in_InstanceID i) = Ok (b, cid, d)"
    and "iid = inst_DeriveID E i []" and "\<not> is_ok (GetValues E v iid)"
    and "v1 = exec_contract (ContractKeyValue P) E (i, c) v"
    and "\<And>ic. ic \<in> set ics \<Longrightarrow> in_Spawn (fst ic) \<noteq> None \<Longrightarrow> inst_DeriveID E (fst ic) [] \<noteq> iid"
  shows "kv_abs P E iid (run_contract (ContractKeyValue P) E ics v1) =
    kv_effects P E iid v1 ics (Some (map_of (map (\<lambda>a. (arg_Name a, arg_Value a)) (sp_Args sp))))"
proof -
  from kv_exec_spawn [OF assms(1-4,6), of c] assms(7-9) obtain b' where
    "GetValues E v1 iid = Ok (b', ContractKeyValueID, d)"
    "decode_KeyValueData P b' = Inr (NewContractStruct (sp_Args sp))" by auto
  with kv_spawned_map [OF assms(5)]
  have "kv_inv P E iid v1"
    "kv_abs P E iid v1 = Some (map_of (map (\<lambda>a. (arg_Name a, arg_Value a)) (sp_Args sp)))"
    by (simp_all add: kv_inv_def kv_abs_def)
  with kv_run_simulates [OF assms(1,2) _ assms(10), where v = v1] show ?thesis by simp
qed

abbreviation kv_spawn :: Instruction where
  "kv_spawn \<equiv> \<lparr>in_InstanceID = [1], in_Nonce = [2], in_Index = 0, in_Length = 1,
     in_Spawn = Some \<lparr>sp_ContractID = ''keyValue'', sp_Args = [\<lparr>arg_Name = ''one'', arg_Value = [1]\<rparr>]\<rparr>,
     in_Invoke = None, in_Delete = False, in_Signatures = []\<rparr>"

abbreviation kv_update :: Instruction where
  "kv_update \<equiv> \<lparr>in_InstanceID = [1, 2], in_Nonce = [3], in_Index = 0, in_Length = 1,
     in_Spawn = None, in_Invoke = Some \<lparr>iv_Command = ''update'',
       iv_Args = [\<lparr>arg_Name = ''one'', arg_Value = []\<rparr>, \<lparr>arg_Name = ''two'', arg_Value = [2]\<rparr>]\<rparr>,
     in_Delete = False, in_Signatures = []\<rparr>"

theorem kv_instance_refines_map_witness:
  "kv_abs kv_codec1 map_contracts [1, 2]
     (run_contract (ContractKeyValue kv_codec1) map_contracts [(kv_update, [] :: unit list)]
       (exec_contract (ContractKeyValue kv_codec1) map_contracts (kv_spawn, [])
         [[1] \<mapsto> ([], ''darc'', [9])])) =
   Some [''two'' \<mapsto> [2]]"
  by (subst kv_instance_refines_map [where i = kv_spawn and b = "[]" and cid = "''darc''" and
        d = "[9]" and c = "[]" and v = "[[1] \<mapsto> ([], ''darc'', [9])]"])
    (auto simp: map_contracts_def kv_effect_def kv_step_def fun_eq_iff,
     simp_all add: contract_law_def fits_def)

end
