(* ===== verification/Xor_Bytes.thy ===== *)
theory Xor_Bytes
  imports Go_Prelude "HOL-Library.Multiset"
begin

text \<open>
  \<open>SafeXORBytes\<close> of \<open>src/calypso_lottery/api.go\<close> and \<open>src/tournament_lottery/api.go\<close> (the same code in
  both). It writes through a slice that the callers also pass as an argument
  (\<open>SafeXORBytes(result, result, s)\<close>), so it is modelled on a heap of byte arrays, and related to a
  function on byte lists.
\<close>

section \<open>Slices over a heap of arrays\<close>

type_synonym heap = "nat \<Rightarrow> bytes"

record slice =
  sl_arr :: nat \<comment> \<open>the array\<close>
  sl_off :: nat
  sl_len :: nat

definition slice_bytes :: "heap \<Rightarrow> slice \<Rightarrow> bytes" where
  "slice_bytes h s = take (sl_len s) (drop (sl_off s) (h (sl_arr s)))"

text \<open>A slice lies inside its array.\<close>

definition slice_ok :: "heap \<Rightarrow> slice \<Rightarrow> bool" where
  "slice_ok h s \<longleftrightarrow> sl_off s + sl_len s \<le> length (h (sl_arr s))"

text \<open>\<open>s[i]\<close> and \<open>s[i] = b\<close>, with the bounds check against the length of the slice.\<close>

definition slice_get :: "heap \<Rightarrow> slice \<Rightarrow> nat \<Rightarrow> byte go" where
  "slice_get h s i =
     (if i < sl_len s then Ok (h (sl_arr s) ! (sl_off s + i)) else Panic IndexOutOfRange)"

definition slice_set :: "heap \<Rightarrow> slice \<Rightarrow> nat \<Rightarrow> byte \<Rightarrow> heap go" where
  "slice_set h s i b =
     (if i < sl_len s then Ok (h(sl_arr s := (h (sl_arr s))[sl_off s + i := b]))
      else Panic IndexOutOfRange)"

text \<open>\<open>make([]byte, n)\<close> in an array that is not in use.\<close>

definition make_slice :: "heap \<Rightarrow> nat \<Rightarrow> nat \<Rightarrow> heap \<times> slice" where
  "make_slice h a n = (h(a := replicate n 0), \<lparr>sl_arr = a, sl_off = 0, sl_len = n\<rparr>)"

section \<open>\<open>SafeXORBytes\<close>\<close>

function xor_loop :: "heap \<Rightarrow> slice \<Rightarrow> slice \<Rightarrow> slice \<Rightarrow> nat \<Rightarrow> nat \<Rightarrow> heap go" where
  "xor_loop h dst a b n i =
     (if i < n then
        bindG (slice_get h a i) (\<lambda>x. bindG (slice_get h b i) (\<lambda>y.
        bindG (slice_set h dst i (x XOR y)) (\<lambda>h'. xor_loop h' dst a b n (i + 1))))
      else Ok h)"
  by auto
termination by (relation "measure (\<lambda>(h, dst, a, b, n, i). n - i)") auto

declare xor_loop.simps [simp del]

definition SafeXORBytes :: "heap \<Rightarrow> slice \<Rightarrow> slice \<Rightarrow> slice \<Rightarrow> (nat \<times> heap) go" where
  "SafeXORBytes h dst a b =
     (let n = (if sl_len b < sl_len a then sl_len b else sl_len a)
      in bindG (xor_loop h dst a b n 0) (\<lambda>h'. Ok (n, h')))"

text \<open>The copy in the package of the Calypso lottery.\<close>

definition cl_SafeXORBytes :: "heap \<Rightarrow> slice \<Rightarrow> slice \<Rightarrow> slice \<Rightarrow> (nat \<times> heap) go" where
  "cl_SafeXORBytes h dst a b =
     (let n = (if sl_len b < sl_len a then sl_len b else sl_len a)
      in bindG (xor_loop h dst a b n 0) (\<lambda>h'. Ok (n, h')))"

lemma cl_SafeXORBytes_eq [simp]: "cl_SafeXORBytes h dst a b = SafeXORBytes h dst a b"
  by (simp add: cl_SafeXORBytes_def SafeXORBytes_def)

section \<open>On byte lists\<close>

text \<open>The destination after the call: the first bytes are the XOR, the rest is kept.\<close>

definition xor_into :: "bytes \<Rightarrow> bytes \<Rightarrow> bytes \<Rightarrow> bytes" where
  "xor_into d xs ys = map2 (XOR) xs ys @ drop (min (length xs) (length ys)) d"

lemma slice_bytes_length [simp]: "slice_ok h s \<Longrightarrow> length (slice_bytes h s) = sl_len s"
  by (simp add: slice_bytes_def slice_ok_def)

lemma slice_bytes_nth:
  "slice_ok h s \<Longrightarrow> i < sl_len s \<Longrightarrow> slice_bytes h s ! i = h (sl_arr s) ! (sl_off s + i)"
  by (simp add: slice_bytes_def slice_ok_def)

lemma slice_get_bytes:
  "slice_ok h s \<Longrightarrow> i < sl_len s \<Longrightarrow> slice_get h s i = Ok (slice_bytes h s ! i)"
  by (simp add: slice_get_def slice_bytes_nth)

text \<open>The slices of a call: the destination is one of the arguments or in an array of its own.\<close>

definition xor_apart :: "slice \<Rightarrow> slice \<Rightarrow> bool" where
  "xor_apart dst s \<longleftrightarrow> s = dst \<or> sl_arr s \<noteq> sl_arr dst"

lemma slice_set_ok:
  assumes "slice_ok h dst" and "i < sl_len dst"
  shows "\<exists>h'. slice_set h dst i v = Ok h' \<and> slice_bytes h' dst = (slice_bytes h dst)[i := v] \<and>
    (\<forall>k. length (h' k) = length (h k)) \<and> (\<forall>k. k \<noteq> sl_arr dst \<longrightarrow> h' k = h k)"
  using assms by (auto simp: slice_set_def slice_bytes_def slice_ok_def drop_update_swap
      take_update_swap)

lemma xor_loop_spec:
  assumes "slice_ok h dst" "slice_ok h a" "slice_ok h b" "xor_apart dst a" "xor_apart dst b"
    and "n \<le> sl_len dst" "n \<le> sl_len a" "n \<le> sl_len b" "i \<le> n"
  shows "\<exists>h'. xor_loop h dst a b n i = Ok h' \<and> (\<forall>k. k \<noteq> sl_arr dst \<longrightarrow> h' k = h k) \<and>
    (\<forall>k. length (h' k) = length (h k)) \<and>
    slice_bytes h' dst = take i (slice_bytes h dst) @
      map (\<lambda>j. slice_bytes h a ! j XOR slice_bytes h b ! j) [i..<n] @ drop n (slice_bytes h dst)"
  using assms(9,1-8)
proof (induction i arbitrary: h rule: inc_induct)
  case base
  then show ?case by (intro exI [of _ h]) (simp add: xor_loop.simps)
next
  case (step i)
  let ?D = "slice_bytes h dst" and ?A = "slice_bytes h a" and ?B = "slice_bytes h b"
  let ?v = "?A ! i XOR ?B ! i"
  from slice_set_ok [of h dst i ?v] step obtain h1 where
    h1: "slice_set h dst i ?v = Ok h1" "slice_bytes h1 dst = ?D[i := ?v]"
      "\<And>k. length (h1 k) = length (h k)" "\<And>k. k \<noteq> sl_arr dst \<Longrightarrow> h1 k = h k" by auto
  have ok: "slice_ok h1 dst" "slice_ok h1 a" "slice_ok h1 b"
    using step.prems h1(3) by (simp_all add: slice_ok_def)
  have later: "slice_bytes h1 s ! j = slice_bytes h s ! j" if "xor_apart dst s" "j \<in> {Suc i..<n}" for s j
    using that h1(2,4) by (auto simp: xor_apart_def slice_bytes_def)
  from step.IH [OF ok step.prems(4-8)] obtain h' where
    h': "xor_loop h1 dst a b n (Suc i) = Ok h'" "\<forall>k. k \<noteq> sl_arr dst \<longrightarrow> h' k = h1 k"
      "\<forall>k. length (h' k) = length (h1 k)"
      "slice_bytes h' dst = take (Suc i) (?D[i := ?v]) @
        map (\<lambda>j. slice_bytes h1 a ! j XOR slice_bytes h1 b ! j) [Suc i..<n] @ drop n (?D[i := ?v])"
    by (auto simp: h1(2))
  have "map (\<lambda>j. slice_bytes h1 a ! j XOR slice_bytes h1 b ! j) [Suc i..<n] =
      map (\<lambda>j. ?A ! j XOR ?B ! j) [Suc i..<n]"
    using later step.prems(4,5) by simp
  moreover have "take (Suc i) (?D[i := ?v]) = take i ?D @ [?v]"
    using step by (simp add: take_Suc_conv_app_nth)
  ultimately have "slice_bytes h' dst = take i ?D @ map (\<lambda>j. ?A ! j XOR ?B ! j) [i..<n] @ drop n ?D"
    using h'(4) step.hyps by (simp add: upt_conv_Cons)
  moreover have "xor_loop h dst a b n i = Ok h'"
    using step h1(1) h'(1) by (subst xor_loop.simps) (simp add: slice_get_bytes)
  ultimately show ?case using h'(2,3) h1(3,4) by auto
qed

lemma map2_nth_upt:
  "map2 f xs ys = map (\<lambda>j. f (xs ! j) (ys ! j)) [0..<min (length xs) (length ys)]"
  by (rule nth_equalityI) auto

lemma SafeXORBytes_spec:
  assumes "slice_ok h dst" "slice_ok h a" "slice_ok h b" "xor_apart dst a" "xor_apart dst b"
    and "min (sl_len a) (sl_len b) \<le> sl_len dst"
  shows "\<exists>h'. SafeXORBytes h dst a b = Ok (min (sl_len a) (sl_len b), h') \<and>
    slice_bytes h' dst = xor_into (slice_bytes h dst) (slice_bytes h a) (slice_bytes h b) \<and>
    (\<forall>k. length (h' k) = length (h k)) \<and> (\<forall>k. k \<noteq> sl_arr dst \<longrightarrow> h' k = h k)"
proof -
  let ?n = "min (sl_len a) (sl_len b)"
  have n: "(if sl_len b < sl_len a then sl_len b else sl_len a) = ?n" by auto
  from xor_loop_spec [OF assms(1-6), of 0] obtain h' where
    "xor_loop h dst a b ?n 0 = Ok h'" "\<forall>k. k \<noteq> sl_arr dst \<longrightarrow> h' k = h k"
    "\<forall>k. length (h' k) = length (h k)"
    "slice_bytes h' dst = map (\<lambda>j. slice_bytes h a ! j XOR slice_bytes h b ! j) [0..<?n] @
       drop ?n (slice_bytes h dst)"
    by auto
  with assms show ?thesis by (simp add: SafeXORBytes_def n xor_into_def map2_nth_upt)
qed

lemma SafeXORBytes_short_dst:
  assumes "slice_ok h dst" "slice_ok h a" "slice_ok h b" "xor_apart dst a" "xor_apart dst b"
    and "sl_len dst < min (sl_len a) (sl_len b)"
  shows "SafeXORBytes h dst a b = Panic IndexOutOfRange"
proof -
  let ?n = "min (sl_len a) (sl_len b)"
  have n: "(if sl_len b < sl_len a then sl_len b else sl_len a) = ?n" by auto
  have "xor_loop h dst a b ?n i = Panic IndexOutOfRange" if "i \<le> sl_len dst" for i
    using that
  proof (induction i arbitrary: h rule: inc_induct)
    case base
    with assms(6) show ?case
      by (subst xor_loop.simps) (simp add: slice_get_def slice_set_def)
  next
    case (step i)
    with assms(6) show ?case
      by (subst xor_loop.simps) (simp add: slice_get_def slice_set_def)
  qed
  then show ?thesis by (simp add: SafeXORBytes_def n)
qed

end
