(* ===== verification/Xor_Lottery.thy ===== *)
theory Xor_Lottery
  imports Xor_Bytes
begin

text \<open>
  The draw that the Calypso lottery makes from the revealed secrets
  (\<open>src/calypso_lottery/client/main.go\<close>, and the same lines in \<open>src/calypso_lottery/simulation\<close>):
  all secrets are XORed into a 32-byte result, and the last byte modulo the number of participants
  names the winner.
\<close>

section \<open>The loops over the secrets\<close>

fun xor_all :: "heap \<Rightarrow> slice \<Rightarrow> slice list \<Rightarrow> heap go" where
  "xor_all h result [] = Ok h"
| "xor_all h result (s # ss) =
     bindG (cl_SafeXORBytes h result result s) (\<lambda>(_, h'). xor_all h' result ss)"

text \<open>\<open>result := make([]byte, 32)\<close> in the unused array \<open>a\<close>, the loop, and \<open>int(result[31])\<close>.\<close>

definition last_digit :: "heap \<Rightarrow> nat \<Rightarrow> slice list \<Rightarrow> nat go" where
  "last_digit h a decodedSecretList =
     (let (h1, result) = make_slice h a 32
      in bindG (xor_all h1 result decodedSecretList) (\<lambda>h2.
         bindG (slice_get h2 result 31) (\<lambda>b. Ok (unat b))))"

text \<open>\<open>lastDigit % numParticipant\<close>, which panics for zero.\<close>

definition pick_winner :: "heap \<Rightarrow> nat \<Rightarrow> slice list \<Rightarrow> nat \<Rightarrow> nat go" where
  "pick_winner h a decodedSecretList numParticipant =
     bindG (last_digit h a decodedSecretList) (\<lambda>lastDigit.
       if numParticipant = 0 then Panic DivideByZero else Ok (lastDigit mod numParticipant))"

section \<open>What is drawn\<close>

text \<open>The byte of a secret that reaches the draw: none when the secret is shorter.\<close>

definition draw_byte :: "bytes \<Rightarrow> byte" where
  "draw_byte s = (if 31 < length s then s ! 31 else 0)"

lemma xor_into_self_nth:
  "i < length r \<Longrightarrow> xor_into r r s ! i = (if i < length s then r ! i XOR s ! i else r ! i)"
  by (auto simp: xor_into_def nth_append min_def)

lemma xor_into_self_length [simp]: "length (xor_into r r s) = length r"
  by (simp add: xor_into_def)

lemma xor_all_spec:
  assumes "slice_ok h result" "\<And>s. s \<in> set ss \<Longrightarrow> slice_ok h s \<and> sl_arr s \<noteq> sl_arr result"
  shows "\<exists>h'. xor_all h result ss = Ok h' \<and> slice_ok h' result \<and>
    slice_bytes h' result = foldl (\<lambda>r s. xor_into r r (slice_bytes h s)) (slice_bytes h result) ss"
  using assms
proof (induction ss arbitrary: h)
  case (Cons s ss)
  from SafeXORBytes_spec [of h result result s] Cons.prems obtain h1 where
    h1: "SafeXORBytes h result result s = Ok (min (sl_len result) (sl_len s), h1)"
      "slice_bytes h1 result = xor_into (slice_bytes h result) (slice_bytes h result) (slice_bytes h s)"
      "\<And>k. length (h1 k) = length (h k)" "\<And>k. k \<noteq> sl_arr result \<Longrightarrow> h1 k = h k"
    by (auto simp: xor_apart_def)
  have same: "slice_bytes h1 t = slice_bytes h t" if "t \<in> set ss" for t
    using Cons.prems(2) [of t] that h1(4) by (simp add: slice_bytes_def)
  have "slice_ok h1 result" using Cons.prems(1) h1(3) by (simp add: slice_ok_def)
  moreover have "slice_ok h1 t \<and> sl_arr t \<noteq> sl_arr result" if "t \<in> set ss" for t
    using Cons.prems(2) [of t] that h1(3) by (simp add: slice_ok_def)
  ultimately obtain h' where
    "xor_all h1 result ss = Ok h'" "slice_ok h' result"
    "slice_bytes h' result = foldl (\<lambda>r s. xor_into r r (slice_bytes h1 s)) (slice_bytes h1 result) ss"
    using Cons.IH [of h1] by blast
  moreover have "foldl (\<lambda>r s. xor_into r r (slice_bytes h1 s)) r ss =
      foldl (\<lambda>r s. xor_into r r (slice_bytes h s)) r ss" for r
    using same by (intro foldl_cong) auto
  ultimately show ?case by (simp add: h1)
qed simp

lemma xor_fold_nth:
  assumes "length r = 32"
  shows "foldl (\<lambda>r s. xor_into r r (f s)) r ss ! 31 = fold (XOR) (map (\<lambda>s. draw_byte (f s)) ss) (r ! 31)"
  using assms
  by (induction ss arbitrary: r) (simp_all add: xor_into_self_nth draw_byte_def xor.commute)

text \<open>The secrets of a draw: slices of arrays other than that of the result.\<close>

definition secrets_ok :: "heap \<Rightarrow> nat \<Rightarrow> slice list \<Rightarrow> bool" where
  "secrets_ok h a ss = (\<forall>s \<in> set ss. slice_ok h s \<and> sl_arr s \<noteq> a)"

lemma last_digit_spec:
  assumes "secrets_ok h a ss"
  shows "last_digit h a ss = Ok (unat (fold (XOR) (map (\<lambda>s. draw_byte (slice_bytes h s)) ss) 0))"
proof -
  obtain h1 result where make: "make_slice h a 32 = (h1, result)" by (cases "make_slice h a 32")
  then have res: "slice_ok h1 result" "slice_bytes h1 result = replicate 32 0" "sl_arr result = a"
    "sl_len result = 32"
    by (auto simp: make_slice_def slice_ok_def slice_bytes_def)
  have sec: "slice_ok h1 s \<and> sl_arr s \<noteq> sl_arr result" "slice_bytes h1 s = slice_bytes h s"
    if "s \<in> set ss" for s
    using that assms make by (auto simp: secrets_ok_def make_slice_def slice_ok_def slice_bytes_def)
  from xor_all_spec [OF res(1) sec(1), of ss] obtain h2 where
    h2: "xor_all h1 result ss = Ok h2" "slice_ok h2 result"
      "slice_bytes h2 result = foldl (\<lambda>r s. xor_into r r (slice_bytes h1 s)) (replicate 32 0) ss"
    using res(2) by auto
  have "slice_bytes h2 result ! 31 = fold (XOR) (map (\<lambda>s. draw_byte (slice_bytes h s)) ss) 0"
    using sec(2) unfolding h2(3) by (subst xor_fold_nth) (simp_all cong: map_cong)
  with h2(1,2) res(4) show ?thesis
    by (simp add: last_digit_def make slice_get_bytes)
qed

lemma pick_winner_spec:
  assumes "secrets_ok h a ss" and "0 < n"
  shows "pick_winner h a ss n =
    Ok (unat (fold (XOR) (map (\<lambda>s. draw_byte (slice_bytes h s)) ss) 0) mod n)"
  using assms by (simp add: pick_winner_def last_digit_spec)

lemma fold_xor_mset:
  assumes "mset xs = mset ys"
  shows "fold (XOR) xs (z :: byte) = fold (XOR) ys z"
proof -
  have "fold (XOR) xs = (fold (XOR) ys :: byte \<Rightarrow> byte)"
    by (rule fold_multiset_equiv [OF _ assms]) (simp add: fun_eq_iff xor.left_commute)
  then show ?thesis by simp
qed

section \<open>Fairness\<close>

lemma fold_xor_start: "fold (XOR) bs (z :: byte) = fold (XOR) bs 0 XOR z"
proof (induction bs arbitrary: z)
  case (Cons b bs)
  show ?case
    using Cons [of "b XOR z"] Cons [of b] by (simp add: xor.assoc)
qed simp

lemma fold_xor_update:
  assumes "i < length bs"
  shows "fold (XOR) (bs[i := b]) (0 :: byte) = b XOR fold (XOR) (take i bs @ drop (Suc i) bs) 0"
proof -
  let ?p = "fold (XOR) (take i bs) (0 :: byte)" and ?q = "fold (XOR) (drop (Suc i) bs) (0 :: byte)"
  have "fold (XOR) (bs[i := b]) 0 = ?q XOR (b XOR ?p)"
    using assms by (simp add: upd_conv_take_nth_drop fold_xor_start [of "drop (Suc i) bs" "b XOR ?p"])
  moreover have "fold (XOR) (take i bs @ drop (Suc i) bs) 0 = ?q XOR ?p"
    by (simp add: fold_xor_start [of "drop (Suc i) bs" ?p])
  ultimately show ?thesis by (simp add: xor.left_commute)
qed

lemma card_mod_below:
  assumes "0 < n" and "w < n"
  shows "card {k. k < N \<and> k mod n = w} = (if w < N then (N - 1 - w) div n + 1 else 0)"
proof (cases "w < N")
  case True
  let ?f = "\<lambda>q. w + q * n"
  have "{k. k < N \<and> k mod n = w} = ?f ` {..(N - 1 - w) div n}"
  proof (intro set_eqI iffI)
    fix k assume "k \<in> {k. k < N \<and> k mod n = w}"
    then have "k = ?f (k div n)" and "k < N" by (auto simp: mod_div_mult_eq)
    moreover from this have "k div n \<le> (N - 1 - w) div n"
      using assms by (subst less_eq_div_iff_mult_less_eq) auto
    ultimately show "k \<in> ?f ` {..(N - 1 - w) div n}" by blast
  next
    fix k assume "k \<in> ?f ` {..(N - 1 - w) div n}"
    then obtain q where "q \<le> (N - 1 - w) div n" "k = ?f q" by auto
    with assms True show "k \<in> {k. k < N \<and> k mod n = w}"
      by (auto simp: less_eq_div_iff_mult_less_eq)
  qed
  moreover have "inj_on ?f {..(N - 1 - w) div n}" using assms by (auto simp: inj_on_def)
  ultimately show ?thesis using True by (simp add: card_image)
next
  case False
  with assms have "{k. k < N \<and> k mod n = w} = {}"
    by (auto dest: le_less_trans [OF mod_less_eq_dividend])
  with False show ?thesis by simp
qed

lemma card_xor_mod:
  assumes "0 < n" and "w < n"
  shows "card {b :: byte. unat (b XOR c) mod n = w} = (if w < 256 then (255 - w) div n + 1 else 0)"
proof -
  have "bij_betw (\<lambda>b :: byte. unat (b XOR c)) {b. unat (b XOR c) mod n = w} {k. k < 256 \<and> k mod n = w}"
  proof (rule bij_betw_byWitness [where f' = "\<lambda>k. word_of_nat k XOR c"])
    show "\<forall>b \<in> {b. unat (b XOR c) mod n = w}. word_of_nat (unat (b XOR c)) XOR c = b"
      by (simp add: xor.assoc)
    show "\<forall>k \<in> {k. k < 256 \<and> k mod n = w}. unat ((word_of_nat k XOR c :: byte) XOR c) = k"
      by (simp add: xor.assoc unat_of_nat)
  qed (auto simp: xor.assoc unat_of_nat)
  then have "card {b :: byte. unat (b XOR c) mod n = w} = card {k. k < 256 \<and> k mod n = w}"
    by (rule bij_betw_same_card)
  also have "\<dots> = (if w < 256 then (255 - w) div n + 1 else 0)"
    using card_mod_below [OF assms, of 256] by simp
  finally show ?thesis .
qed

text \<open>The heap in which the last byte of one participant's secret is another one.\<close>

definition redraw :: "heap \<Rightarrow> slice \<Rightarrow> byte \<Rightarrow> heap" where
  "redraw h s b = h(sl_arr s := (h (sl_arr s))[sl_off s + 31 := b])"

lemma redraw_bytes:
  assumes "secrets_ok h a ss" and "i < length ss" and "sl_len (ss ! i) = 32"
    and "\<And>j. j < length ss \<Longrightarrow> j \<noteq> i \<Longrightarrow> sl_arr (ss ! j) \<noteq> sl_arr (ss ! i)"
  shows "secrets_ok (redraw h (ss ! i) b) a ss"
    "map (\<lambda>s. draw_byte (slice_bytes (redraw h (ss ! i) b) s)) ss =
       (map (\<lambda>s. draw_byte (slice_bytes h s)) ss)[i := b]"
proof -
  show "secrets_ok (redraw h (ss ! i) b) a ss"
    using assms(1) by (auto simp: secrets_ok_def redraw_def slice_ok_def dest!: bspec)
  have ok: "slice_ok h (ss ! i)" using assms(1,2) by (simp add: secrets_ok_def)
  show "map (\<lambda>s. draw_byte (slice_bytes (redraw h (ss ! i) b) s)) ss =
      (map (\<lambda>s. draw_byte (slice_bytes h s)) ss)[i := b]"
  proof (rule nth_equalityI)
    fix j assume "j < length (map (\<lambda>s. draw_byte (slice_bytes (redraw h (ss ! i) b) s)) ss)"
    then show "map (\<lambda>s. draw_byte (slice_bytes (redraw h (ss ! i) b) s)) ss ! j =
        (map (\<lambda>s. draw_byte (slice_bytes h s)) ss)[i := b] ! j"
      using ok assms(3) assms(4) [of j]
      by (cases "j = i") (auto simp: redraw_def slice_bytes_def draw_byte_def slice_ok_def)
  qed simp
qed

section \<open>Properties\<close>

text \<open>C21. The draw: \<open>pick_winner\<close> (with the result slice passed both as destination and as first
  argument of \<open>SafeXORBytes\<close>) returns a winner below the number of participants, the same for
  every order of the secrets, namely the XOR of the last bytes modulo that number; with no
  participants it panics with a division by zero.\<close>

theorem lottery_draw_correct:
  assumes "secrets_ok h a ss"
  shows "\<forall>ss' n. mset ss' = mset ss \<longrightarrow>
    pick_winner h a ss' n =
      (if n = 0 then Panic DivideByZero
       else Ok (unat (fold (XOR) (map (\<lambda>s. draw_byte (slice_bytes h s)) ss) 0) mod n))"
proof (intro allI impI)
  fix ss' n assume perm: "mset ss' = mset ss"
  then have "set ss' = set ss" by (rule mset_eq_setD)
  with assms have ok: "secrets_ok h a ss'" by (simp add: secrets_ok_def)
  have "mset (map (\<lambda>s. draw_byte (slice_bytes h s)) ss') =
      mset (map (\<lambda>s. draw_byte (slice_bytes h s)) ss)"
    using perm by simp
  from fold_xor_mset [OF this, of 0] ok
  show "pick_winner h a ss' n =
      (if n = 0 then Panic DivideByZero
       else Ok (unat (fold (XOR) (map (\<lambda>s. draw_byte (slice_bytes h s)) ss) 0) mod n))"
    by (simp add: pick_winner_def last_digit_spec)
qed

abbreviation two_secrets :: heap where
  "two_secrets \<equiv> (\<lambda>_. [])(1 := replicate 31 9 @ [5], 2 := replicate 31 8 @ [6])"

abbreviation two_slices :: "slice list" where
  "two_slices \<equiv> [\<lparr>sl_arr = 1, sl_off = 0, sl_len = 32\<rparr>, \<lparr>sl_arr = 2, sl_off = 0, sl_len = 32\<rparr>]"

lemma two_secrets_ok: "secrets_ok two_secrets 0 two_slices"
  by (simp add: secrets_ok_def slice_ok_def)

theorem lottery_draw_correct_witness:
  "pick_winner two_secrets 0 (rev two_slices) 2 = Ok 1"
proof -
  have d: "map (\<lambda>s. draw_byte (slice_bytes two_secrets s)) two_slices = [5, 6]"
    by (simp add: draw_byte_def slice_bytes_def nth_append)
  have "pick_winner two_secrets 0 (rev two_slices) 2 =
      (if (2 :: nat) = 0 then Panic DivideByZero
       else Ok (unat (fold (XOR) (map (\<lambda>s. draw_byte (slice_bytes two_secrets s)) two_slices) 0) mod 2))"
    by (rule lottery_draw_correct [OF two_secrets_ok, rule_format]) simp
  then show ?thesis unfolding d by simp
qed

text \<open>C12. Fairness from one honest participant, whatever the others choose: let one participant's
  last byte vary over all bytes while the other secrets are fixed. Each participant \<open>w\<close> wins for
  exactly \<open>(255 - w) div n + 1\<close> of the 256 values when \<open>w\<close> is below 256, and for none otherwise.
  So the draw is uniform when the number of participants divides 256, off by at most one value in
  256 for fewer than 256 of them, and with more than 256 the participants from 256 on cannot
  win.\<close>

theorem lottery_one_honest_fair:
  assumes "secrets_ok h a ss" and "i < length ss" and "sl_len (ss ! i) = 32"
    and "\<And>j. j < length ss \<Longrightarrow> j \<noteq> i \<Longrightarrow> sl_arr (ss ! j) \<noteq> sl_arr (ss ! i)"
    and "w < n"
  shows "card {b. pick_winner (h(sl_arr (ss ! i) := (h (sl_arr (ss ! i)))[sl_off (ss ! i) + 31 := b])) a ss n
            = Ok w} = (if w < 256 then (255 - w) div n + 1 else 0)"
proof -
  let ?bs = "map (\<lambda>s. draw_byte (slice_bytes h s)) ss"
  let ?c = "fold (XOR) (take i ?bs @ drop (Suc i) ?bs) 0"
  have n: "0 < n" using assms(5) by simp
  have "pick_winner (redraw h (ss ! i) b) a ss n = Ok (unat (b XOR ?c) mod n)" for b
    using redraw_bytes [OF assms(1-4)] assms(2) pick_winner_spec [OF _ n]
    by (simp add: fold_xor_update)
  then have "{b. pick_winner (redraw h (ss ! i) b) a ss n = Ok w} = {b. unat (b XOR ?c) mod n = w}"
    by simp
  with card_xor_mod [OF n assms(5), of ?c] show ?thesis by (simp add: redraw_def)
qed

theorem lottery_one_honest_fair_witness:
  "card {b. pick_winner (two_secrets(2 := (two_secrets 2)[31 := b])) 0 two_slices 2 = Ok 1} = 128"
  using lottery_one_honest_fair [OF two_secrets_ok, of 1 1 2] by (simp add: less_Suc_eq)

end
