(* ===== verification/Calypso_Client.thy ===== *)
theory Calypso_Client
  imports Byzcoin_Api
begin

text \<open>
  The client of the Calypso service as the lottery and the simulations call it. Calypso is not under
  \<open>src/\<close>: its calls are fields of \<open>calypso_client\<close>, over the ledger state and the proofs of
  \<open>Byzcoin_Api\<close>. The theory also has the loops that all callers share: a row of transactions of
  which only the last one is waited for, the collection of the proofs, and the polling for a proof.
\<close>

section \<open>The calls\<close>

record ('led, 'proof, 'signer, 'darc, 'rnd, 'lts, 'pt, 'write, 'dk, 'sc) calypso_client =
  CreateLTS :: "'led \<Rightarrow> ('lts \<times> 'pt) go \<times> 'led" \<comment> \<open>LTSID, X\<close>
  NewWrite :: "'lts \<Rightarrow> bytes \<Rightarrow> 'pt \<Rightarrow> bytes \<Rightarrow> 'rnd \<Rightarrow> 'write" \<comment> \<open>LTSID, darc ID, X, key\<close>
  AddWrite :: "'write \<Rightarrow> 'signer \<Rightarrow> 'darc \<Rightarrow> int \<Rightarrow> 'led \<Rightarrow> bytes go \<times> 'led"
  AddRead :: "'proof \<Rightarrow> 'signer \<Rightarrow> 'darc \<Rightarrow> int \<Rightarrow> 'led \<Rightarrow> bytes go \<times> 'led"
  AddReadBatch :: "('proof \<times> 'signer \<times> 'darc) list \<Rightarrow> int \<Rightarrow> 'led \<Rightarrow> bytes list go \<times> 'led"
  DecryptKey :: "'proof \<Rightarrow> 'proof \<Rightarrow> 'dk go" \<comment> \<open>Read, Write\<close>
  DecryptKeyBatch :: "('proof \<times> 'proof) list \<Rightarrow> 'dk list go"
  dk_X :: "'dk \<Rightarrow> 'pt"
  DecodeKey :: "'pt \<Rightarrow> 'dk \<Rightarrow> 'sc \<Rightarrow> bytes go"
  Ed25519_Secret :: "'signer \<Rightarrow> 'sc"
  SpawnDarc :: "'signer \<Rightarrow> 'darc \<Rightarrow> 'darc \<Rightarrow> int \<Rightarrow> 'led \<Rightarrow> unit go \<times> 'led" \<comment> \<open>signer, controlling darc, new darc\<close>

definition AddWrite_row ::
    "('led, 'proof, 'signer, 'darc, 'rnd, 'lts, 'pt, 'write, 'dk, 'sc) calypso_client
      \<Rightarrow> (nat \<Rightarrow> 'write) \<Rightarrow> (nat \<Rightarrow> 'signer) \<Rightarrow> (nat \<Rightarrow> 'darc) \<Rightarrow> nat \<Rightarrow> int \<Rightarrow> 'led \<Rightarrow> bytes list go \<times> 'led" where
  "AddWrite_row C wr writer darc n w =
     mapS (\<lambda>i. AddWrite C (wr i) (writer i) (darc i) (row_wait n w i)) [0..<n]"

definition AddRead_row ::
    "('led, 'proof, 'signer, 'darc, 'rnd, 'lts, 'pt, 'write, 'dk, 'sc) calypso_client
      \<Rightarrow> 'proof list \<Rightarrow> 'signer \<Rightarrow> (nat \<Rightarrow> 'darc) \<Rightarrow> nat \<Rightarrow> int \<Rightarrow> 'led \<Rightarrow> bytes list go \<times> 'led" where
  "AddRead_row C wps reader darc n w =
     mapS (\<lambda>i led. bindS (index_go wps i, led) (\<lambda>wp. AddRead C wp reader (darc i) (row_wait n w i))) [0..<n]"

text \<open>The key of a read; \<open>check\<close> says whether \<open>dk.X\<close> is compared with that of the LTS.\<close>

definition decode_key ::
    "('led, 'proof, 'signer, 'darc, 'rnd, 'lts, 'pt, 'write, 'dk, 'sc) calypso_client \<Rightarrow> bool \<Rightarrow> 'pt \<Rightarrow> 'signer
      \<Rightarrow> 'proof \<Rightarrow> 'proof \<Rightarrow> bytes go" where
  "decode_key C check X reader rp wp =
     bindG (DecryptKey C rp wp) (\<lambda>dk.
     if check \<and> dk_X C dk \<noteq> X then Err (Error ''Points not same'')
     else DecodeKey C X dk (Ed25519_Secret C reader))"

definition proof_row ::
    "('led, 'proof, 'signer, 'scid) ledger \<Rightarrow> string \<Rightarrow> bytes list \<Rightarrow> 'led \<Rightarrow> 'proof list go" where
  "proof_row L msg ids led = mapG (\<lambda>t. matching_proof L msg t led) ids"

text \<open>The loop that asks for a proof until it matches. \<open>tick\<close> is what happens to the ledger between
  two questions; the loop may run forever, which is the value \<open>None\<close>.\<close>

partial_function (option) poll_proof ::
    "('led, 'proof, 'signer, 'scid) ledger \<Rightarrow> ('led \<Rightarrow> 'led) \<Rightarrow> bytes \<Rightarrow> 'led \<Rightarrow> ('proof go \<times> 'led) option" where
  "poll_proof L tick iid led =
     (case GetProof L iid led of
        Err e \<Rightarrow> Some (Err e, led)
      | Panic p \<Rightarrow> Some (Panic p, led)
      | Ok p \<Rightarrow> if Match L p then Some (Ok p, led) else poll_proof L tick iid (tick led))"

declare poll_proof.simps [code]

section \<open>What the callers rely on\<close>

text \<open>The transactions of a client, and a row of them in any mixture.\<close>

datatype ('write, 'proof, 'signer, 'darc) cal_txn =
    TWrite 'write 'signer 'darc
  | TRead 'proof 'signer 'darc

primrec cal_add ::
    "('led, 'proof, 'signer, 'darc, 'rnd, 'lts, 'pt, 'write, 'dk, 'sc) calypso_client
      \<Rightarrow> ('write, 'proof, 'signer, 'darc) cal_txn \<Rightarrow> int \<Rightarrow> 'led \<Rightarrow> bytes go \<times> 'led" where
  "cal_add C (TWrite wr sg d) = AddWrite C wr sg d"
| "cal_add C (TRead wp sg d) = AddRead C wp sg d"

definition add_row ::
    "('led, 'proof, 'signer, 'darc, 'rnd, 'lts, 'pt, 'write, 'dk, 'sc) calypso_client
      \<Rightarrow> ('write, 'proof, 'signer, 'darc) cal_txn list \<Rightarrow> int \<Rightarrow> 'led \<Rightarrow> bytes list go \<times> 'led" where
  "add_row C ts w = mapS (\<lambda>i. cal_add C (ts ! i) (row_wait (length ts) w i)) [0..<length ts]"

text \<open>What a proof of a transaction holds, in terms of two relations.\<close>

primrec holds_txn ::
    "('proof \<Rightarrow> 'write \<Rightarrow> bool) \<Rightarrow> ('proof \<Rightarrow> 'proof \<Rightarrow> 'signer \<Rightarrow> bool)
      \<Rightarrow> ('write, 'proof, 'signer, 'darc) cal_txn \<Rightarrow> 'proof \<Rightarrow> bool" where
  "holds_txn HW HR (TWrite wr sg d) p \<longleftrightarrow> HW p wr"
| "holds_txn HW HR (TRead wp sg d) p \<longleftrightarrow> HR p wp sg"

text \<open>The ledger after further transactions.\<close>

inductive cal_later ::
    "('led, 'proof, 'signer, 'darc, 'rnd, 'lts, 'pt, 'write, 'dk, 'sc) calypso_client \<Rightarrow> 'led \<Rightarrow> 'led \<Rightarrow> bool"
  for C where
  later_refl [intro]: "cal_later C led led"
| later_add: "cal_later C led led' \<Longrightarrow> cal_later C led (snd (cal_add C t w led'))"

lemma cal_later_trans: "cal_later C led' led'' \<Longrightarrow> cal_later C led led' \<Longrightarrow> cal_later C led led''"
  by (induction rule: cal_later.induct) (auto intro: later_add)

text \<open>
  Some relation says which write a proof holds and which write, for which reader, a read proof is
  for. When the wait for a row of transactions returns, all of them are proved in the ledger, and
  stay so after further transactions. For a read by the reader of a write, the cothority re-encrypts
  the key of the write to that reader, and decoding with the reader's secret gives the key.
\<close>

definition calypso_client_law ::
    "('led, 'proof, 'signer, 'darc, 'rnd, 'lts, 'pt, 'write, 'dk, 'sc) calypso_client
      \<Rightarrow> ('led, 'proof, 'signer, 'scid) ledger
      \<Rightarrow> ('proof \<Rightarrow> 'write \<Rightarrow> bool) \<Rightarrow> ('proof \<Rightarrow> 'proof \<Rightarrow> 'signer \<Rightarrow> bool) \<Rightarrow> bool" where
  "calypso_client_law C L holds_write holds_read \<longleftrightarrow>
     (\<forall>ts w led ids led' led'' msg i.
        0 < w \<longrightarrow> add_row C ts w led = (Ok ids, led') \<longrightarrow> cal_later C led' led'' \<longrightarrow> i < length ts \<longrightarrow>
        (\<exists>p. matching_proof L msg (ids ! i) led'' = Ok p \<and> holds_txn holds_write holds_read (ts ! i) p)) \<and>
     (\<forall>bs w led ids led' msg i.
        0 < w \<longrightarrow> AddReadBatch C bs w led = (Ok ids, led') \<longrightarrow> i < length bs \<longrightarrow> length ids = length bs \<and>
        (\<exists>p. matching_proof L msg (ids ! i) led' = Ok p \<and>
             holds_read p (fst (bs ! i)) (fst (snd (bs ! i))))) \<and>
     (\<forall>lts did X key rnd wp rp reader.
        holds_write wp (NewWrite C lts did X key rnd) \<longrightarrow> holds_read rp wp reader \<longrightarrow>
        (\<exists>dk. DecryptKey C rp wp = Ok dk \<and> dk_X C dk = X \<and>
              DecodeKey C X dk (Ed25519_Secret C reader) = Ok key)) \<and>
     (\<forall>ps dks. mapG (\<lambda>(rp, wp). DecryptKey C rp wp) ps = Ok dks \<longrightarrow> DecryptKeyBatch C ps = Ok dks)"

lemma calypso_client_law_row:
  assumes "calypso_client_law C L HW HR" and "0 < w" and "add_row C ts w led = (Ok ids, led')"
    and "cal_later C led' led''" and "i < length ts"
  shows "\<exists>p. matching_proof L msg (ids ! i) led'' = Ok p \<and> holds_txn HW HR (ts ! i) p"
  by (rule assms(1) [unfolded calypso_client_law_def, THEN conjunct1, rule_format, OF assms(2-5)])

lemma AddWrite_row_add_row:
  "AddWrite_row C wr writer darc n w led = add_row C (map (\<lambda>i. TWrite (wr i) (writer i) (darc i)) [0..<n]) w led"
  by (auto simp: AddWrite_row_def add_row_def intro!: mapS_cong)

lemma AddRead_row_add_row:
  assumes "n \<le> length wps"
  shows "AddRead_row C wps reader darc n w led = add_row C (map (\<lambda>i. TRead (wps ! i) reader (darc i)) [0..<n]) w led"
  using assms by (auto simp: AddRead_row_def add_row_def intro!: mapS_cong)

lemma AddRead_row_length:
  assumes "AddRead_row C wps reader darc n w led = (Ok ids, led')"
  shows "n \<le> length wps"
proof -
  let ?f = "\<lambda>i led. bindS (index_go wps i, led) (\<lambda>wp. AddRead C wp reader (darc i) (row_wait n w i))"
  have all: "x < length wps" if "mapS ?f xs led = (Ok ids, led')" "x \<in> set xs" for x xs led ids
    using that by (induction xs arbitrary: led ids) (auto simp: go_simps split: if_splits)
  show ?thesis
  proof (cases n)
    case (Suc m)
    with all [of "[0..<n]" led ids m] assms show ?thesis by (simp add: AddRead_row_def)
  qed simp
qed

lemma calypso_client_law_write:
  assumes "calypso_client_law C L HW HR" and "0 < w"
    and "AddWrite_row C wr writer darc n w led = (Ok ids, led')" and "i < n"
  shows "\<exists>p. matching_proof L msg (ids ! i) led' = Ok p \<and> HW p (wr i)"
  using calypso_client_law_row [OF assms(1,2) assms(3) [unfolded AddWrite_row_add_row] later_refl, of i msg] assms(4)
  by simp

lemma calypso_client_law_read:
  assumes "calypso_client_law C L HW HR" and "0 < w"
    and "AddRead_row C wps reader darc n w led = (Ok ids, led')" and "i < n"
  shows "\<exists>p. matching_proof L msg (ids ! i) led' = Ok p \<and> HR p (wps ! i) reader"
  using calypso_client_law_row [OF assms(1,2)
      assms(3) [unfolded AddRead_row_add_row [OF AddRead_row_length [OF assms(3)]]] later_refl, of i msg] assms(4)
  by simp

lemma calypso_client_law_batch:
  assumes "calypso_client_law C L HW HR" and "0 < w" and "AddReadBatch C bs w led = (Ok ids, led')"
    and "i < length bs"
  shows "length ids = length bs \<and> (\<exists>p. matching_proof L msg (ids ! i) led' = Ok p \<and>
    HR p (fst (bs ! i)) (fst (snd (bs ! i))))"
  by (rule assms(1) [unfolded calypso_client_law_def, THEN conjunct2, THEN conjunct1,
        rule_format, OF assms(2-4)])

lemma calypso_client_law_decrypt:
  assumes "calypso_client_law C L HW HR" and "HW wp (NewWrite C lts did X key rnd)" and "HR rp wp reader"
  shows "\<exists>dk. DecryptKey C rp wp = Ok dk \<and> dk_X C dk = X \<and>
    DecodeKey C X dk (Ed25519_Secret C reader) = Ok key"
  by (rule assms(1) [unfolded calypso_client_law_def, THEN conjunct2, THEN conjunct2,
        THEN conjunct1, rule_format, OF assms(2,3)])

lemma decode_key_ok:
  assumes "calypso_client_law C L HW HR" and "HW wp (NewWrite C lts did X key rnd)" and "HR rp wp reader"
  shows "decode_key C check X reader rp wp = Ok key"
  using calypso_client_law_decrypt [OF assms] by (auto simp: decode_key_def)

lemma calypso_client_law_decrypt_batch:
  assumes "calypso_client_law C L HW HR" and "mapG (\<lambda>(rp, wp). DecryptKey C rp wp) ps = Ok dks"
  shows "DecryptKeyBatch C ps = Ok dks"
  by (rule assms(1) [unfolded calypso_client_law_def, THEN conjunct2, THEN conjunct2,
        THEN conjunct2, rule_format, OF assms(2)])

text \<open>No transaction is refused.\<close>

definition calypso_client_up ::
    "('led, 'proof, 'signer, 'darc, 'rnd, 'lts, 'pt, 'write, 'dk, 'sc) calypso_client \<Rightarrow> bool" where
  "calypso_client_up C \<longleftrightarrow>
     (\<forall>wr sg d w led. is_ok (fst (AddWrite C wr sg d w led))) \<and>
     (\<forall>p sg d w led. is_ok (fst (AddRead C p sg d w led))) \<and>
     (\<forall>bs w led. is_ok (fst (AddReadBatch C bs w led))) \<and>
     (\<forall>led. is_ok (fst (CreateLTS C led))) \<and>
     (\<forall>sg ctl d w led. is_ok (fst (SpawnDarc C sg ctl d w led)))"

section \<open>The loops\<close>

lemma AddWrite_row_up:
  "calypso_client_up C \<Longrightarrow> \<exists>ids led'. AddWrite_row C wr writer darc n w led = (Ok ids, led') \<and> length ids = n"
  using mapS_up [of "[0..<n]" "\<lambda>i. AddWrite C (wr i) (writer i) (darc i) (row_wait n w i)" led]
  by (simp add: AddWrite_row_def calypso_client_up_def)

lemma AddRead_row_up:
  assumes "calypso_client_up C" and "length wps = n"
  shows "\<exists>ids led'. AddRead_row C wps reader darc n w led = (Ok ids, led') \<and> length ids = n"
proof -
  have "is_ok (fst (bindS (index_go wps i, s) (\<lambda>wp. AddRead C wp reader (darc i) (row_wait n w i))))"
    if "i \<in> set [0..<n]" for i s
    using assms that by (simp add: calypso_client_up_def)
  from mapS_up [of "[0..<n]" "\<lambda>i led. bindS (index_go wps i, led)
      (\<lambda>wp. AddRead C wp reader (darc i) (row_wait n w i))" led, OF this]
  show ?thesis by (simp add: AddRead_row_def)
qed

text \<open>The proofs of a row, each with what the law says of it.\<close>

lemma proof_row_collect:
  assumes "length ids = n" and "\<And>i. i < n \<Longrightarrow> \<exists>p. matching_proof L msg (ids ! i) led = Ok p \<and> Q i p"
  shows "\<exists>ps. proof_row L msg ids led = Ok ps \<and> length ps = n \<and> (\<forall>i < n. Q i (ps ! i))"
proof -
  from assms(2) obtain pr where pr: "\<forall>i < n. matching_proof L msg (ids ! i) led = Ok (pr i) \<and> Q i (pr i)"
    by (metis (no_types, lifting))
  have "proof_row L msg ids led = Ok (map pr [0..<n])"
    using pr assms(1) by (simp add: proof_row_def mapG_Ok_iff list_all2_conv_all_nth)
  with pr show ?thesis by (intro exI [of _ "map pr [0..<n]"]) simp
qed

text \<open>The writes of a row are proved, and then the reads; the proofs fit the writes and the reader.\<close>

lemma writes_proved:
  assumes "calypso_client_law C L HW HR" and "calypso_client_up C" and "0 < w"
  shows "\<exists>ids led' ps. AddWrite_row C wr writer darc n w led = (Ok ids, led') \<and>
    proof_row L msg ids led' = Ok ps \<and> length ps = n \<and> (\<forall>i < n. HW (ps ! i) (wr i))"
proof -
  from AddWrite_row_up [OF assms(2)] obtain ids led' where
    row: "AddWrite_row C wr writer darc n w led = (Ok ids, led')" "length ids = n" by blast
  have "\<exists>p. matching_proof L msg (ids ! i) led' = Ok p \<and> HW p (wr i)" if "i < n" for i
    by (rule calypso_client_law_write [OF assms(1,3) row(1) that])
  from proof_row_collect [OF row(2) this] row(1) show ?thesis by blast
qed

lemma reads_proved:
  assumes "calypso_client_law C L HW HR" and "calypso_client_up C" and "0 < w" and "length wps = n"
  shows "\<exists>ids led' ps. AddRead_row C wps reader darc n w led = (Ok ids, led') \<and>
    proof_row L msg ids led' = Ok ps \<and> length ps = n \<and> (\<forall>i < n. HR (ps ! i) (wps ! i) reader)"
proof -
  from AddRead_row_up [OF assms(2,4)] obtain ids led' where
    row: "AddRead_row C wps reader darc n w led = (Ok ids, led')" "length ids = n" by blast
  have "\<exists>p. matching_proof L msg (ids ! i) led' = Ok p \<and> HR p (wps ! i) reader" if "i < n" for i
    by (rule calypso_client_law_read [OF assms(1,3) row(1) that])
  from proof_row_collect [OF row(2) this] row(1) show ?thesis by blast
qed

text \<open>The polling loop returns at the first question that is answered with a match or an error.\<close>

lemma poll_proof_first:
  assumes "\<And>j. j < k \<Longrightarrow> \<exists>p. GetProof L iid ((tick ^^ j) led) = Ok p \<and> \<not> Match L p"
    and "matching_proof L msg iid ((tick ^^ k) led) = Ok p"
  shows "poll_proof L tick iid led = Some (Ok p, (tick ^^ k) led)"
  using assms
proof (induction k arbitrary: led)
  case 0
  then show ?case
    by (subst poll_proof.simps) (auto simp: matching_proof_def go_simps split: if_splits go.splits)
next
  case (Suc k)
  from Suc.prems(1) [of 0] obtain q where "GetProof L iid led = Ok q" "\<not> Match L q" by auto
  moreover have "poll_proof L tick iid (tick led) = Some (Ok p, (tick ^^ k) (tick led))"
    using Suc.prems(1) [of "Suc j" for j] Suc.prems(2)
    by (intro Suc.IH) (auto simp: funpow_swap1)
  ultimately show ?case by (subst poll_proof.simps) (simp add: funpow_swap1)
qed

section \<open>A concrete client for the witnesses\<close>

text \<open>The ledger is the list of what was added, the oldest first; an ID is a position in it, and a
  proof is the entry at that position.\<close>

datatype cal_entry = CWrite int bytes | CRead cal_entry nat

definition cal_client ::
    "(cal_entry list, cal_entry, nat, bytes, nat, unit, int, int \<times> bytes, int \<times> bytes, nat) calypso_client" where
  "cal_client =
     \<lparr>CreateLTS = (\<lambda>led. (Ok ((), 7), led)),
      NewWrite = (\<lambda>lts did X key rnd. (X, key)),
      AddWrite = (\<lambda>wr sg d w led. (Ok (replicate (length led) 0), led @ [CWrite (fst wr) (snd wr)])),
      AddRead = (\<lambda>p sg d w led. (Ok (replicate (length led) 0), led @ [CRead p sg])),
      AddReadBatch = (\<lambda>bs w led. (Ok (map (\<lambda>i. replicate (length led + i) 0) [0..<length bs]),
                                 led @ map (\<lambda>(p, sg, d). CRead p sg) bs)),
      DecryptKey = (\<lambda>rp wp. case (rp, wp) of
          (CRead p sg, CWrite X key) \<Rightarrow> if p = wp then Ok (X, key) else Err (Error ''other write'')
        | _ \<Rightarrow> Err (Error ''no read'')),
      DecryptKeyBatch = mapG (\<lambda>(rp, wp). case (rp, wp) of
          (CRead p sg, CWrite X key) \<Rightarrow> if p = wp then Ok (X, key) else Err (Error ''other write'')
        | _ \<Rightarrow> Err (Error ''no read'')),
      dk_X = fst, DecodeKey = (\<lambda>X dk sk. Ok (snd dk)), Ed25519_Secret = (\<lambda>sg. sg),
      SpawnDarc = (\<lambda>sg ctl d w led. (Ok (), led))\<rparr>"

definition cal_ledger :: "(cal_entry list, cal_entry, nat, unit) ledger" where
  "cal_ledger =
     \<lparr>SignBy = (\<lambda>d sg ins. Ok ins), SignInstruction = (\<lambda>d sg ins. Ok ins), DeriveID = example_ID,
      NewInstanceID = (\<lambda>k. k), AddTransaction = (\<lambda>is led. (Ok (), led)),
      AddTransactionAndWait = (\<lambda>is w led. (Ok (), led)),
      GetProof = (\<lambda>iid led. if length iid < length led then Ok (led ! length iid)
                            else Err (Error ''no proof'')),
      LedgerID = (\<lambda>_. ()), Match = (\<lambda>_. True), InclusionKey = (\<lambda>_. []),
      ContractValue = (\<lambda>p cid. Err (Error ''no value'')), Proof_Verify = (\<lambda>_ _. Ok ())\<rparr>"

lemma mapS_append_row:
  assumes "\<And>x s. x \<in> set xs \<Longrightarrow> f x s = (Ok (replicate (length s) 0), s @ [g x])"
  shows "mapS f xs led =
    (Ok (map (\<lambda>j. replicate (length led + j) (0 :: byte)) [0..<length xs]), led @ map g xs)"
  using assms
proof (induction xs arbitrary: led)
  case (Cons x xs)
  have "[0..<length (x # xs)] = 0 # map Suc [0..<length xs]"
    unfolding list.size map_Suc_upt by (subst upt_conv_Cons) simp_all
  with Cons show ?case by (simp add: comp_def)
qed simp

primrec cal_entry_of :: "(int \<times> bytes, cal_entry, nat, bytes) cal_txn \<Rightarrow> cal_entry" where
  "cal_entry_of (TWrite wr sg d) = CWrite (fst wr) (snd wr)"
| "cal_entry_of (TRead wp sg d) = CRead wp sg"

lemma cal_add_client: "cal_add cal_client t w led = (Ok (replicate (length led) 0), led @ [cal_entry_of t])"
  by (cases t) (simp_all add: cal_client_def)

lemma cal_add_row:
  "add_row cal_client ts w led =
     (Ok (map (\<lambda>j. replicate (length led + j) 0) [0..<length ts]), led @ map cal_entry_of ts)"
proof -
  have "map (\<lambda>i. cal_entry_of (ts ! i)) [0..<length ts] = map cal_entry_of ts"
    by (rule nth_equalityI) simp_all
  then show ?thesis
    unfolding add_row_def
    by (subst mapS_append_row [where g = "\<lambda>i. cal_entry_of (ts ! i)"]) (simp_all add: cal_add_client)
qed

lemma cal_later_client: "cal_later cal_client led led' \<Longrightarrow> \<exists>xs. led' = led @ xs"
  by (induction rule: cal_later.induct) (auto simp: cal_add_client)

lemma cal_matching: "i < length xs \<Longrightarrow>
    matching_proof cal_ledger msg (replicate (length led + i) 0) (led @ xs @ ys) = Ok (xs ! i)"
  by (simp add: matching_proof_def cal_ledger_def nth_append)

lemma cal_client_law:
  "calypso_client_law cal_client cal_ledger (\<lambda>p w. p = CWrite (fst w) (snd w)) (\<lambda>p wp sg. p = CRead wp sg)"
  unfolding calypso_client_law_def
proof (intro conjI allI impI, goal_cases)
  case (1 ts w led ids led' led'' msg i)
  then obtain ys where "led'' = led' @ ys" using cal_later_client by blast
  with 1 show ?case
    using cal_matching [of i "map cal_entry_of ts" msg led ys]
    by (cases "ts ! i") (auto simp: cal_add_row)
next
  case (2 bs w led ids led' msg i)
  then show ?case by (auto simp: cal_client_def)
next
  case (3 bs w led ids led' msg i)
  then show ?case
    using cal_matching [of i "map (\<lambda>(p, sg, d). CRead p sg) bs" msg led "[]"]
    by (auto simp: cal_client_def split_def)
next
  case (4 lts did X key rnd wp rp reader)
  then show ?case by (simp add: cal_client_def)
next
  case (5 ps dks)
  then show ?case by (simp add: cal_client_def)
qed

lemma cal_client_up: "calypso_client_up cal_client"
  by (simp add: calypso_client_up_def cal_client_def)

lemma cal_ledger_up: "ledger_up cal_ledger"
  by (simp add: ledger_up_def cal_ledger_def)

end
