(* ===== verification/Calypso_Lottery.thy ===== *)
theory Calypso_Lottery
  imports Xor_Lottery Calypso_Client
begin

text \<open>
  \<open>src/calypso_lottery\<close>: every participant writes a secret that is encrypted to the cothority; when
  all writes are in the ledger, the reader reads all of them, the cothority re-encrypts the keys,
  and the XOR of the secrets draws the winner (\<open>Xor_Lottery\<close>).

  \<^item> \<open>api.go\<close>: the data, the darcs and the set-up of the ledger;
  \<^item> \<open>client/main.go\<close>: the run of the client;
  \<^item> \<open>simulation/service.go\<close>: the three variants of the simulation.

  The signers, nonces, secrets and the randomness of the writes are functions of the participant,
  collected in \<open>cl_random\<close>; \<open>H\<close> is \<open>sha256.Sum256\<close>.
\<close>

section \<open>\<open>api.go\<close>\<close>

record cl_LotteryData =
  cl_Secret :: bytes
  cl_Digest :: bytes

record ('signer, 'darc) cl_ByzcoinData =
  cl_Signer :: 'signer
  cl_GDarc :: 'darc

record 'rnd cl_random =
  readerDraw :: 'rnd
  writerDraw :: "nat \<Rightarrow> 'rnd"
  darcNonce :: "nat \<Rightarrow> bytes"
  secretDraw :: "nat \<Rightarrow> bytes"
  writeDraw :: "nat \<Rightarrow> 'rnd"

definition cl_CreateLotteryData :: "(bytes \<Rightarrow> bytes) \<Rightarrow> bytes \<Rightarrow> cl_LotteryData" where
  "cl_CreateLotteryData H draw = \<lparr>cl_Secret = draw, cl_Digest = H draw\<rparr>"

definition cl_SpawnDarc ::
    "('darc, 'signer, 'rnd, 'si, 'gmsg, 'led) darc_api \<Rightarrow> ('led, 'proof, 'signer, 'scid) ledger
      \<Rightarrow> ('signer, 'darc) cl_ByzcoinData \<Rightarrow> bytes \<Rightarrow> 'darc \<Rightarrow> int \<Rightarrow> 'led \<Rightarrow> unit go \<times> 'led" where
  "cl_SpawnDarc A L byzd nonce spawnDarc wait led =
     spawn_darc A L nonce (cl_Signer byzd) spawnDarc (cl_GDarc byzd) wait led"

text \<open>The contract IDs are those of the calypso package.\<close>

definition cl_SetupDarcs ::
    "('darc, 'signer, 'rnd, 'si, 'gmsg, 'led) darc_api \<Rightarrow> string \<Rightarrow> string \<Rightarrow> 'rnd cl_random \<Rightarrow> nat
      \<Rightarrow> ('signer list \<times> 'signer \<times> 'darc list) go" where
  "cl_SetupDarcs A writeID readID rand numParticipant =
     (let reader = NewSignerEd25519 A (readerDraw rand);
          writerList = map (\<lambda>i. NewSignerEd25519 A (writerDraw rand i)) [0..<numParticipant]
      in
      bindG (mapG (\<lambda>i.
               bindG (index_go writerList i) (\<lambda>writer.
               bindG (AddRule A (''spawn:'' @ writeID) writer (NewDarc A [writer] [writer] ''Writer'')) (\<lambda>d.
               AddRule A (''spawn:'' @ readID) reader d))) [0..<numParticipant]) (\<lambda>writeDarcList.
      Ok (writerList, reader, writeDarcList)))"

definition cl_SetupByzcoin ::
    "('darc, 'signer, 'rnd, 'si, 'gmsg, 'led) darc_api \<Rightarrow> 'rnd \<Rightarrow> 'si list \<Rightarrow> int
      \<Rightarrow> (('signer, 'darc) cl_ByzcoinData \<times> 'led) go" where
  "cl_SetupByzcoin A rnd r blockInterval =
     bindG (setup_ledger A rnd r [''spawn:'' @ ContractDarcID A] blockInterval)
       (\<lambda>(cl, signer, gDarc). Ok (\<lparr>cl_Signer = signer, cl_GDarc = gDarc\<rparr>, cl))"

section \<open>The parts of a run\<close>

text \<open>The writes of the participants.\<close>

definition lottery_write ::
    "('darc, 'signer, 'rnd, 'si, 'gmsg, 'led) darc_api
      \<Rightarrow> ('led, 'proof, 'signer, 'darc, 'rnd, 'lts, 'pt, 'write, 'dk, 'sc) calypso_client \<Rightarrow> (bytes \<Rightarrow> bytes)
      \<Rightarrow> 'rnd cl_random \<Rightarrow> 'lts \<times> 'pt \<Rightarrow> 'darc list \<Rightarrow> nat \<Rightarrow> 'write" where
  "lottery_write A C H rand lts darcs i =
     NewWrite C (fst lts) (GetBaseID A (darcs ! i)) (snd lts)
       (cl_Secret (cl_CreateLotteryData H (secretDraw rand i))) (writeDraw rand i)"

text \<open>The keys of the reads, decrypted one by one; \<open>check\<close> says whether \<open>dk.X\<close> is compared with that
  of the LTS (the simulation has the comparison commented out).\<close>

definition decode_secrets ::
    "('led, 'proof, 'signer, 'darc, 'rnd, 'lts, 'pt, 'write, 'dk, 'sc) calypso_client \<Rightarrow> bool \<Rightarrow> 'pt \<Rightarrow> 'signer
      \<Rightarrow> 'proof list \<Rightarrow> 'proof list \<Rightarrow> bytes list go" where
  "decode_secrets C check X reader readProofList writeProofList =
     mapG (\<lambda>(rp, wp). decode_key C check X reader rp wp) (zip readProofList writeProofList)"

text \<open>The decoded secrets are byte slices of their own; the result of the draw is in array 0.\<close>

definition secrets_heap :: "bytes list \<Rightarrow> heap" where
  "secrets_heap ss k = (if 0 < k \<and> k \<le> length ss then ss ! (k - 1) else [])"

definition secrets_slices :: "bytes list \<Rightarrow> slice list" where
  "secrets_slices ss = map (\<lambda>i. \<lparr>sl_arr = i + 1, sl_off = 0, sl_len = length (ss ! i)\<rparr>) [0..<length ss]"

section \<open>The client\<close>

text \<open>\<open>sleep\<close> is what happens to the ledger during \<open>time.Sleep\<close>.\<close>

definition runCalypsoLottery ::
    "('darc, 'signer, 'rnd, 'si, 'gmsg, 'led) darc_api \<Rightarrow> ('led, 'proof, 'signer, 'scid) ledger
      \<Rightarrow> ('led, 'proof, 'signer, 'darc, 'rnd, 'lts, 'pt, 'write, 'dk, 'sc) calypso_client
      \<Rightarrow> string \<Rightarrow> string \<Rightarrow> (bytes \<Rightarrow> bytes) \<Rightarrow> 'rnd cl_random \<Rightarrow> ('led \<Rightarrow> 'led)
      \<Rightarrow> ('signer, 'darc) cl_ByzcoinData \<Rightarrow> 'lts \<times> 'pt \<Rightarrow> nat \<Rightarrow> 'led \<Rightarrow> nat go \<times> 'led" where
  "runCalypsoLottery A L C writeID readID H rand sleep byzd ltsReply numParticipant led =
     bindS (cl_SetupDarcs A writeID readID rand numParticipant, led) (\<lambda>(writerList, reader, writeDarcList) led.
     bindS (mapS (\<lambda>i. cl_SpawnDarc A L byzd (darcNonce rand i) (writeDarcList ! i) 0)
              [0..<numParticipant] led) (\<lambda>_ led.
     bindS (AddWrite_row C (lottery_write A C H rand ltsReply writeDarcList) ((!) writerList)
              ((!) writeDarcList) numParticipant 3 (sleep led)) (\<lambda>writeTxnList led.
     bindS (proof_row L ''Write inclusion proof does not match'' writeTxnList led, led) (\<lambda>writeProofList led.
     bindS (AddRead_row C writeProofList reader ((!) writeDarcList) numParticipant 3 led) (\<lambda>readTxnList led.
     bindS (proof_row L ''Read inclusion proof does not match'' readTxnList led, led) (\<lambda>readProofList led.
     bindS (decode_secrets C True (snd ltsReply) reader readProofList writeProofList, led) (\<lambda>decodedSecretList led.
     (pick_winner (secrets_heap decodedSecretList) 0 (secrets_slices decodedSecretList) numParticipant,
      led))))))))"

section \<open>The simulation\<close>

text \<open>What the rounds of the simulation share, up to the proofs of the writes. The darcs are waited
  for.\<close>

definition sim_lottery_setup ::
    "('darc, 'signer, 'rnd, 'si, 'gmsg, 'led) darc_api \<Rightarrow> ('led, 'proof, 'signer, 'scid) ledger
      \<Rightarrow> ('led, 'proof, 'signer, 'darc, 'rnd, 'lts, 'pt, 'write, 'dk, 'sc) calypso_client
      \<Rightarrow> string \<Rightarrow> string \<Rightarrow> 'rnd cl_random \<Rightarrow> ('signer, 'darc) cl_ByzcoinData \<Rightarrow> int \<Rightarrow> nat \<Rightarrow> 'led
      \<Rightarrow> (('lts \<times> 'pt) \<times> 'signer list \<times> 'signer \<times> 'darc list) go \<times> 'led" where
  "sim_lottery_setup A L C writeID readID rand byzd blockWait n led =
     bindS (CreateLTS C led) (\<lambda>ltsReply led.
     bindS (cl_SetupDarcs A writeID readID rand n, led) (\<lambda>(writerList, reader, writeDarcList) led.
     bindS (mapS (\<lambda>i. cl_SpawnDarc A L byzd (darcNonce rand i) (writeDarcList ! i) (row_wait n blockWait i))
              [0..<n] led) (\<lambda>_ led.
     (Ok (ltsReply, writerList, reader, writeDarcList), led))))"

text \<open>One round of \<open>runCalypsoLottery\<close>; the last byte is computed and not used.\<close>

definition sim_calypso_round ::
    "('darc, 'signer, 'rnd, 'si, 'gmsg, 'led) darc_api \<Rightarrow> ('led, 'proof, 'signer, 'scid) ledger
      \<Rightarrow> ('led, 'proof, 'signer, 'darc, 'rnd, 'lts, 'pt, 'write, 'dk, 'sc) calypso_client
      \<Rightarrow> string \<Rightarrow> string \<Rightarrow> (bytes \<Rightarrow> bytes) \<Rightarrow> 'rnd cl_random \<Rightarrow> ('signer, 'darc) cl_ByzcoinData
      \<Rightarrow> int \<Rightarrow> nat \<Rightarrow> 'led \<Rightarrow> nat go \<times> 'led" where
  "sim_calypso_round A L C writeID readID H rand byzd blockWait n led =
     bindS (sim_lottery_setup A L C writeID readID rand byzd blockWait n led)
       (\<lambda>(ltsReply, writerList, reader, writeDarcList) led.
     bindS (AddWrite_row C (lottery_write A C H rand ltsReply writeDarcList) ((!) writerList)
              ((!) writeDarcList) n blockWait led) (\<lambda>writeTxnList led.
     bindS (proof_row L ''Write inclusion proof does not match'' writeTxnList led, led) (\<lambda>writeProofList led.
     bindS (AddRead_row C writeProofList reader ((!) writeDarcList) n blockWait led) (\<lambda>readTxnList led.
     bindS (proof_row L ''Read inclusion proof does not match'' readTxnList led, led) (\<lambda>readProofList led.
     bindS (decode_secrets C False (snd ltsReply) reader readProofList writeProofList, led) (\<lambda>decodedSecretList led.
     (last_digit (secrets_heap decodedSecretList) 0 (secrets_slices decodedSecretList), led)))))))"

definition sim_runCalypsoLottery ::
    "('darc, 'signer, 'rnd, 'si, 'gmsg, 'led) darc_api \<Rightarrow> ('led, 'proof, 'signer, 'scid) ledger
      \<Rightarrow> ('led, 'proof, 'signer, 'darc, 'rnd, 'lts, 'pt, 'write, 'dk, 'sc) calypso_client
      \<Rightarrow> string \<Rightarrow> string \<Rightarrow> (bytes \<Rightarrow> bytes) \<Rightarrow> (nat \<Rightarrow> 'rnd) \<Rightarrow> (nat \<Rightarrow> 'rnd cl_random) \<Rightarrow> 'si list
      \<Rightarrow> int \<Rightarrow> int \<Rightarrow> nat \<Rightarrow> nat \<Rightarrow> 'led \<Rightarrow> unit go \<times> 'led" where
  "sim_runCalypsoLottery A L C writeID readID H rnd rand roster blockInterval blockWait rounds n led =
     bindS (mapS (\<lambda>round led.
              bindS (cl_SetupByzcoin A (rnd round) roster blockInterval, led) (\<lambda>(byzd, cl) _.
              sim_calypso_round A L C writeID readID H (rand round) byzd blockWait n cl)) [0..<rounds] led)
       (\<lambda>_ led. (Ok (), led))"

text \<open>One round of \<open>runBatchedLottery\<close>: the reads are one transaction, and the keys are decrypted in
  one call.\<close>

definition sim_batched_round ::
    "('darc, 'signer, 'rnd, 'si, 'gmsg, 'led) darc_api \<Rightarrow> ('led, 'proof, 'signer, 'scid) ledger
      \<Rightarrow> ('led, 'proof, 'signer, 'darc, 'rnd, 'lts, 'pt, 'write, 'dk, 'sc) calypso_client
      \<Rightarrow> string \<Rightarrow> string \<Rightarrow> (bytes \<Rightarrow> bytes) \<Rightarrow> 'rnd cl_random \<Rightarrow> ('signer, 'darc) cl_ByzcoinData
      \<Rightarrow> int \<Rightarrow> nat \<Rightarrow> 'led \<Rightarrow> nat go \<times> 'led" where
  "sim_batched_round A L C writeID readID H rand byzd blockWait n led =
     bindS (sim_lottery_setup A L C writeID readID rand byzd blockWait n led)
       (\<lambda>(ltsReply, writerList, reader, writeDarcList) led.
     bindS (AddWrite_row C (lottery_write A C H rand ltsReply writeDarcList) ((!) writerList)
              ((!) writeDarcList) n blockWait led) (\<lambda>writeTxnList led.
     bindS (proof_row L ''Write inclusion proof does not match'' writeTxnList led, led) (\<lambda>writeProofList led.
     bindS (AddReadBatch C (map (\<lambda>i. (writeProofList ! i, reader, writeDarcList ! i)) [0..<n]) blockWait led)
       (\<lambda>replies led.
     bindS (mapG (\<lambda>i. bindG (index_go replies i) (\<lambda>t.
                        matching_proof L ''Read inclusion proof does not match'' t led)) [0..<n], led)
       (\<lambda>readProofList led.
     bindS (DecryptKeyBatch C (zip readProofList writeProofList), led) (\<lambda>dkbReply led.
     bindS (mapG (\<lambda>i. bindG (index_go dkbReply i) (\<lambda>dk.
                        DecodeKey C (snd ltsReply) dk (Ed25519_Secret C reader))) [0..<n], led)
       (\<lambda>decodedSecretList led.
     (last_digit (secrets_heap decodedSecretList) 0 (secrets_slices decodedSecretList), led))))))))"

definition runBatchedLottery ::
    "('darc, 'signer, 'rnd, 'si, 'gmsg, 'led) darc_api \<Rightarrow> ('led, 'proof, 'signer, 'scid) ledger
      \<Rightarrow> ('led, 'proof, 'signer, 'darc, 'rnd, 'lts, 'pt, 'write, 'dk, 'sc) calypso_client
      \<Rightarrow> string \<Rightarrow> string \<Rightarrow> (bytes \<Rightarrow> bytes) \<Rightarrow> (nat \<Rightarrow> 'rnd) \<Rightarrow> (nat \<Rightarrow> 'rnd cl_random) \<Rightarrow> 'si list
      \<Rightarrow> int \<Rightarrow> int \<Rightarrow> nat \<Rightarrow> nat \<Rightarrow> 'led \<Rightarrow> unit go \<times> 'led" where
  "runBatchedLottery A L C writeID readID H rnd rand roster blockInterval blockWait rounds n led =
     bindS (mapS (\<lambda>round led.
              bindS (cl_SetupByzcoin A (rnd round) roster blockInterval, led) (\<lambda>(byzd, cl) _.
              sim_batched_round A L C writeID readID H (rand round) byzd blockWait n cl)) [0..<rounds] led)
       (\<lambda>_ led. (Ok (), led))"

text \<open>\<open>runMultipleLottery\<close>: no transaction is waited for; instead the proof of the last one is polled
  for, and then the proofs of the others are asked for once. The polling may not end (\<open>None\<close>); with
  no transactions the index of the last one is out of range.\<close>

definition poll_row ::
    "('led, 'proof, 'signer, 'scid) ledger \<Rightarrow> ('led \<Rightarrow> 'led) \<Rightarrow> string \<Rightarrow> bytes list \<Rightarrow> nat \<Rightarrow> 'led
      \<Rightarrow> ('proof list go \<times> 'led) option" where
  "poll_row L tick msg ids n led =
     (if n = 0 then Some (Panic IndexOutOfRange, led)
      else bindO (poll_proof L tick (ids ! (n - 1)) led) (\<lambda>p led.
           bindO (Some (mapG (\<lambda>i. matching_proof L msg (ids ! i) led) [0..<n - 1], led)) (\<lambda>ps led.
           Some (Ok (ps @ [p]), led))))"

definition runMultipleLottery ::
    "('darc, 'signer, 'rnd, 'si, 'gmsg, 'led) darc_api \<Rightarrow> ('led, 'proof, 'signer, 'scid) ledger
      \<Rightarrow> ('led, 'proof, 'signer, 'darc, 'rnd, 'lts, 'pt, 'write, 'dk, 'sc) calypso_client
      \<Rightarrow> string \<Rightarrow> string \<Rightarrow> (bytes \<Rightarrow> bytes) \<Rightarrow> 'rnd cl_random \<Rightarrow> ('led \<Rightarrow> 'led)
      \<Rightarrow> ('signer, 'darc) cl_ByzcoinData \<Rightarrow> int \<Rightarrow> nat \<Rightarrow> 'led \<Rightarrow> (nat go \<times> 'led) option" where
  "runMultipleLottery A L C writeID readID H rand tick byzd blockWait n led =
     bindO (Some (sim_lottery_setup A L C writeID readID rand byzd blockWait n led))
       (\<lambda>(ltsReply, writerList, reader, writeDarcList) led.
     bindO (Some (AddWrite_row C (lottery_write A C H rand ltsReply writeDarcList) ((!) writerList)
                    ((!) writeDarcList) n 0 led)) (\<lambda>writeTxnList led.
     bindO (poll_row L tick ''Write inclusion proof does not match'' writeTxnList n led) (\<lambda>writeProofList led.
     bindO (Some (AddRead_row C writeProofList reader ((!) writeDarcList) n 0 led)) (\<lambda>readTxnList led.
     bindO (poll_row L tick ''Read inclusion proof does not match'' readTxnList n led) (\<lambda>readProofList led.
     bindO (Some (decode_secrets C True (snd ltsReply) reader readProofList writeProofList, led))
       (\<lambda>decodedSecretList led.
     Some (pick_winner (secrets_heap decodedSecretList) 0 (secrets_slices decodedSecretList) n, led)))))))"

text \<open>\<open>Run\<close> of the simulation is the batched lottery.\<close>

definition cl_Run ::
    "('darc, 'signer, 'rnd, 'si, 'gmsg, 'led) darc_api \<Rightarrow> ('led, 'proof, 'signer, 'scid) ledger
      \<Rightarrow> ('led, 'proof, 'signer, 'darc, 'rnd, 'lts, 'pt, 'write, 'dk, 'sc) calypso_client
      \<Rightarrow> string \<Rightarrow> string \<Rightarrow> (bytes \<Rightarrow> bytes) \<Rightarrow> (nat \<Rightarrow> 'rnd) \<Rightarrow> (nat \<Rightarrow> 'rnd cl_random) \<Rightarrow> 'si list
      \<Rightarrow> int \<Rightarrow> int \<Rightarrow> nat \<Rightarrow> nat \<Rightarrow> 'led \<Rightarrow> unit go \<times> 'led" where
  "cl_Run = runBatchedLottery"

section \<open>The parts on a working ledger\<close>

lemma cl_SetupDarcs_up:
  assumes "darcs_up A"
  shows "\<exists>ws reader ds. cl_SetupDarcs A writeID readID rand n = Ok (ws, reader, ds) \<and>
    length ws = n \<and> length ds = n"
proof -
  let ?ws = "map (\<lambda>i. NewSignerEd25519 A (writerDraw rand i)) [0..<n]"
  let ?f = "\<lambda>i. bindG (index_go ?ws i) (\<lambda>writer.
      bindG (AddRule A (''spawn:'' @ writeID) writer (NewDarc A [writer] [writer] ''Writer'')) (\<lambda>d.
      AddRule A (''spawn:'' @ readID) (NewSignerEd25519 A (readerDraw rand)) d))"
  have rule: "\<exists>d'. AddRule A a sg d = Ok d'" for a sg d
    using assms by (simp add: darcs_up_def is_ok_iff)
  have "\<exists>d. ?f i = Ok d" if "i < n" for i
  proof -
    obtain d1 where "AddRule A (''spawn:'' @ writeID) (?ws ! i) (NewDarc A [?ws ! i] [?ws ! i] ''Writer'') = Ok d1"
      using rule by blast
    with that rule [of "''spawn:'' @ readID" "NewSignerEd25519 A (readerDraw rand)" d1] show ?thesis by auto
  qed
  then have "\<forall>i. \<exists>d. i < n \<longrightarrow> ?f i = Ok d" by blast
  from choice [OF this] obtain d where "\<forall>i. i < n \<longrightarrow> ?f i = Ok (d i)" by (rule exE)
  then have "mapG ?f [0..<n] = Ok (map d [0..<n])" by (intro mapG_map) simp
  then show ?thesis by (simp add: cl_SetupDarcs_def Let_def)
qed

lemma cl_SpawnDarc_up:
  "darcs_up A \<Longrightarrow> ledger_up L \<Longrightarrow> is_ok (fst (cl_SpawnDarc A L byzd nonce d wait led))"
  unfolding cl_SpawnDarc_def by (rule spawn_darc_up)

text \<open>Decoding gives the secrets of the participants, in their order.\<close>

lemma decode_secrets_ok:
  assumes "calypso_client_law C L HW HR" and "length wps = n" and "length rps = n"
    and "\<And>i. i < n \<Longrightarrow> HW (wps ! i) (lottery_write A C H rand lts darcs i)"
    and "\<And>i. i < n \<Longrightarrow> HR (rps ! i) (wps ! i) reader"
  shows "decode_secrets C check (snd lts) reader rps wps = Ok (map (secretDraw rand) [0..<n])"
proof -
  have "decode_key C check (snd lts) reader (rps ! i) (wps ! i) = Ok (secretDraw rand i)" if "i < n" for i
    using decode_key_ok [OF assms(1) _ assms(5) [OF that]] assms(4) [OF that]
    by (simp add: lottery_write_def cl_CreateLotteryData_def)
  then show ?thesis
    using assms(2,3) by (simp add: decode_secrets_def mapG_Ok_iff list_all2_conv_all_nth)
qed

lemma secrets_slices_bytes: "map (slice_bytes (secrets_heap ss)) (secrets_slices ss) = ss"
  by (rule nth_equalityI) (simp_all add: secrets_slices_def secrets_heap_def slice_bytes_def)

lemma secrets_slices_ok: "secrets_ok (secrets_heap ss) 0 (secrets_slices ss)"
  by (auto simp: secrets_ok_def secrets_slices_def secrets_heap_def slice_ok_def)

text \<open>The XOR of the last bytes of a list of secrets.\<close>

definition xor_digit :: "bytes list \<Rightarrow> nat" where
  "xor_digit ss = unat (fold (XOR) (map draw_byte ss) 0)"

lemma last_digit_secrets: "last_digit (secrets_heap ss) 0 (secrets_slices ss) = Ok (xor_digit ss)"
proof -
  have "map (\<lambda>s. draw_byte (slice_bytes (secrets_heap ss) s)) (secrets_slices ss) = map draw_byte ss"
    using arg_cong [OF secrets_slices_bytes [of ss], of "map draw_byte"] by (simp add: comp_def)
  then show ?thesis by (simp add: last_digit_spec [OF secrets_slices_ok] xor_digit_def)
qed

lemma pick_winner_secrets:
  "pick_winner (secrets_heap ss) 0 (secrets_slices ss) n =
     (if n = 0 then Panic DivideByZero else Ok (xor_digit ss mod n))"
  by (simp add: pick_winner_def last_digit_secrets)

lemma sim_lottery_setup_up:
  assumes "darcs_up A" and "ledger_up L" and "calypso_client_up C"
  shows "\<exists>lts ws reader ds led'. sim_lottery_setup A L C writeID readID rand byzd w n led =
    (Ok (lts, ws, reader, ds), led')"
proof -
  obtain lts led1 where lts: "CreateLTS C led = (Ok lts, led1)"
    using assms(3) by (cases "CreateLTS C led") (auto simp: calypso_client_up_def is_ok_iff dest!: spec [of _ led])
  obtain ws reader ds where "cl_SetupDarcs A writeID readID rand n = Ok (ws, reader, ds)"
    using cl_SetupDarcs_up [OF assms(1)] by blast
  moreover obtain us led2 where "mapS (\<lambda>i. cl_SpawnDarc A L byzd (darcNonce rand i) (ds ! i) (row_wait n w i))
      [0..<n] led1 = (Ok us, led2)"
    using mapS_up [of "[0..<n]" "\<lambda>i. cl_SpawnDarc A L byzd (darcNonce rand i) (ds ! i) (row_wait n w i)" led1]
      cl_SpawnDarc_up [OF assms(1,2)] by blast
  ultimately show ?thesis by (simp add: sim_lottery_setup_def lts)
qed

section \<open>The runs on a working ledger\<close>

lemma runCalypsoLottery_ok:
  assumes law: "calypso_client_law C L HW HR" and up: "calypso_client_up C" "ledger_up L" "darcs_up A"
  shows "fst (runCalypsoLottery A L C writeID readID H rand sleep byzd lts n led) =
    (if n = 0 then Panic DivideByZero
     else Ok (xor_digit (map (secretDraw rand) [0..<n]) mod n))"
proof -
  obtain ws reader ds where ds: "cl_SetupDarcs A writeID readID rand n = Ok (ws, reader, ds)"
    using cl_SetupDarcs_up [OF up(3)] by blast
  obtain us led1 where sp: "mapS (\<lambda>i. cl_SpawnDarc A L byzd (darcNonce rand i) (ds ! i) 0) [0..<n] led = (Ok us, led1)"
    using mapS_up [of "[0..<n]" "\<lambda>i. cl_SpawnDarc A L byzd (darcNonce rand i) (ds ! i) 0" led]
      cl_SpawnDarc_up [OF up(3,2)] by blast
  obtain ids led2 wps where
    w: "AddWrite_row C (lottery_write A C H rand lts ds) ((!) ws) ((!) ds) n 3 (sleep led1) = (Ok ids, led2)"
      "proof_row L ''Write inclusion proof does not match'' ids led2 = Ok wps" "length wps = n"
      "\<forall>i < n. HW (wps ! i) (lottery_write A C H rand lts ds i)"
    using writes_proved [OF law up(1), of 3 "lottery_write A C H rand lts ds" "(!) ws" "(!) ds" n
        "sleep led1" "''Write inclusion proof does not match''"] by auto
  obtain ids' led3 rps where
    r: "AddRead_row C wps reader ((!) ds) n 3 led2 = (Ok ids', led3)"
      "proof_row L ''Read inclusion proof does not match'' ids' led3 = Ok rps" "length rps = n"
      "\<forall>i < n. HR (rps ! i) (wps ! i) reader"
    using reads_proved [OF law up(1) _ w(3), of 3 reader "(!) ds" led2
        "''Read inclusion proof does not match''"] by auto
  have "decode_secrets C True (snd lts) reader rps wps = Ok (map (secretDraw rand) [0..<n])"
    using decode_secrets_ok [OF law w(3) r(3)] w(4) r(4) by blast
  with ds sp w r show ?thesis
    by (simp add: runCalypsoLottery_def pick_winner_secrets)
qed

lemma sim_calypso_round_ok:
  assumes law: "calypso_client_law C L HW HR" and up: "calypso_client_up C" "ledger_up L" "darcs_up A"
    and wait: "0 < w"
  shows "fst (sim_calypso_round A L C writeID readID H rand byzd w n led) =
    Ok (xor_digit (map (secretDraw rand) [0..<n]))"
proof -
  obtain lts ws reader ds led1 where
    s: "sim_lottery_setup A L C writeID readID rand byzd w n led = (Ok (lts, ws, reader, ds), led1)"
    using sim_lottery_setup_up [OF up(3,2,1)] by blast
  obtain ids led2 wps where
    w: "AddWrite_row C (lottery_write A C H rand lts ds) ((!) ws) ((!) ds) n w led1 = (Ok ids, led2)"
      "proof_row L ''Write inclusion proof does not match'' ids led2 = Ok wps" "length wps = n"
      "\<forall>i < n. HW (wps ! i) (lottery_write A C H rand lts ds i)"
    using writes_proved [OF law up(1) wait, of "lottery_write A C H rand lts ds" "(!) ws" "(!) ds" n
        led1 "''Write inclusion proof does not match''"] by auto
  obtain ids' led3 rps where
    r: "AddRead_row C wps reader ((!) ds) n w led2 = (Ok ids', led3)"
      "proof_row L ''Read inclusion proof does not match'' ids' led3 = Ok rps" "length rps = n"
      "\<forall>i < n. HR (rps ! i) (wps ! i) reader"
    using reads_proved [OF law up(1) wait w(3), of reader "(!) ds" led2
        "''Read inclusion proof does not match''"] by auto
  have "decode_secrets C False (snd lts) reader rps wps = Ok (map (secretDraw rand) [0..<n])"
    using decode_secrets_ok [OF law w(3) r(3)] w(4) r(4) by blast
  with s w r show ?thesis by (simp add: sim_calypso_round_def last_digit_secrets)
qed

text \<open>The batched round: reads and keys in one call each, the same secrets in the end.\<close>

lemma batch_proved:
  assumes law: "calypso_client_law C L HW HR" and up: "calypso_client_up C" and wait: "0 < w"
  shows "\<exists>ids led' ps. AddReadBatch C bs w led = (Ok ids, led') \<and>
    mapG (\<lambda>i. bindG (index_go ids i) (\<lambda>t. matching_proof L msg t led')) [0..<length bs] = Ok ps \<and>
    length ps = length bs \<and> (\<forall>i < length bs. HR (ps ! i) (fst (bs ! i)) (fst (snd (bs ! i))))"
proof -
  obtain ids led' where b: "AddReadBatch C bs w led = (Ok ids, led')"
    using up by (cases "AddReadBatch C bs w led")
      (auto simp: calypso_client_up_def is_ok_iff dest!: spec [of _ bs] spec [of _ w] spec [of _ led])
  have "\<forall>i. \<exists>p. i < length bs \<longrightarrow> i < length ids \<and> matching_proof L msg (ids ! i) led' = Ok p \<and>
      HR p (fst (bs ! i)) (fst (snd (bs ! i)))"
    using calypso_client_law_batch [OF law wait b] by metis
  from choice [OF this] obtain pr where pr: "\<forall>i. i < length bs \<longrightarrow> i < length ids \<and>
      matching_proof L msg (ids ! i) led' = Ok (pr i) \<and> HR (pr i) (fst (bs ! i)) (fst (snd (bs ! i)))"
    by (rule exE)
  then have "mapG (\<lambda>i. bindG (index_go ids i) (\<lambda>t. matching_proof L msg t led')) [0..<length bs] =
      Ok (map pr [0..<length bs])"
    by (intro mapG_map) simp
  with b pr show ?thesis by (intro exI [of _ ids] exI [of _ led'] exI [of _ "map pr [0..<length bs]"]) simp
qed

lemma decrypt_batch_ok:
  assumes law: "calypso_client_law C L HW HR" and "length wps = n" and "length rps = n"
    and "\<And>i. i < n \<Longrightarrow> HW (wps ! i) (lottery_write A C H rand lts darcs i)"
    and "\<And>i. i < n \<Longrightarrow> HR (rps ! i) (wps ! i) reader"
  shows "\<exists>dks. DecryptKeyBatch C (zip rps wps) = Ok dks \<and>
    mapG (\<lambda>i. bindG (index_go dks i) (\<lambda>dk. DecodeKey C (snd lts) dk (Ed25519_Secret C reader))) [0..<n] =
      Ok (map (secretDraw rand) [0..<n])"
proof -
  have "\<forall>i. \<exists>dk. i < n \<longrightarrow> DecryptKey C (rps ! i) (wps ! i) = Ok dk \<and>
      DecodeKey C (snd lts) dk (Ed25519_Secret C reader) = Ok (secretDraw rand i)"
    using calypso_client_law_decrypt [OF law _ assms(5)] assms(4)
    by (auto simp: lottery_write_def cl_CreateLotteryData_def) metis
  from choice [OF this] obtain dk where dk: "\<forall>i. i < n \<longrightarrow> DecryptKey C (rps ! i) (wps ! i) = Ok (dk i) \<and>
      DecodeKey C (snd lts) (dk i) (Ed25519_Secret C reader) = Ok (secretDraw rand i)" by (rule exE)
  have "mapG (\<lambda>(rp, wp). DecryptKey C rp wp) (zip rps wps) = Ok (map dk [0..<n])"
    using dk assms(2,3) by (simp add: mapG_Ok_iff list_all2_conv_all_nth)
  moreover have "mapG (\<lambda>i. bindG (index_go (map dk [0..<n]) i)
        (\<lambda>dk. DecodeKey C (snd lts) dk (Ed25519_Secret C reader))) [0..<n] = Ok (map (secretDraw rand) [0..<n])"
    using dk by (intro mapG_map) simp
  ultimately show ?thesis using calypso_client_law_decrypt_batch [OF law] by blast
qed

lemma sim_batched_round_ok:
  assumes law: "calypso_client_law C L HW HR" and up: "calypso_client_up C" "ledger_up L" "darcs_up A"
    and wait: "0 < w"
  shows "fst (sim_batched_round A L C writeID readID H rand byzd w n led) =
    Ok (xor_digit (map (secretDraw rand) [0..<n]))"
proof -
  obtain lts ws reader ds led1 where
    s: "sim_lottery_setup A L C writeID readID rand byzd w n led = (Ok (lts, ws, reader, ds), led1)"
    using sim_lottery_setup_up [OF up(3,2,1)] by blast
  obtain ids led2 wps where
    w: "AddWrite_row C (lottery_write A C H rand lts ds) ((!) ws) ((!) ds) n w led1 = (Ok ids, led2)"
      "proof_row L ''Write inclusion proof does not match'' ids led2 = Ok wps" "length wps = n"
      "\<forall>i < n. HW (wps ! i) (lottery_write A C H rand lts ds i)"
    using writes_proved [OF law up(1) wait, of "lottery_write A C H rand lts ds" "(!) ws" "(!) ds" n
        led1 "''Write inclusion proof does not match''"] by auto
  let ?bs = "map (\<lambda>i. (wps ! i, reader, ds ! i)) [0..<n]"
  obtain ids' led3 rps where
    r: "AddReadBatch C ?bs w led2 = (Ok ids', led3)"
      "mapG (\<lambda>i. bindG (index_go ids' i) (\<lambda>t. matching_proof L ''Read inclusion proof does not match'' t led3))
         [0..<n] = Ok rps" "length rps = n"
      "\<forall>i < n. HR (rps ! i) (wps ! i) reader"
    using batch_proved [OF law up(1) wait, of ?bs led2 "''Read inclusion proof does not match''"] by auto
  obtain dks where "DecryptKeyBatch C (zip rps wps) = Ok dks"
    "mapG (\<lambda>i. bindG (index_go dks i) (\<lambda>dk. DecodeKey C (snd lts) dk (Ed25519_Secret C reader))) [0..<n] =
      Ok (map (secretDraw rand) [0..<n])"
    using decrypt_batch_ok [OF law w(3) r(3)] w(4) r(4) by blast
  with s w r show ?thesis by (simp add: sim_batched_round_def last_digit_secrets)
qed

text \<open>So all rounds of the simulation succeed, each on a ledger of its own.\<close>

lemma cl_Run_ok:
  assumes law: "calypso_client_law C L HW HR" and up: "calypso_client_up C" "ledger_up L" "darcs_up A" "genesis_up A"
    and wait: "0 < w"
  shows "fst (cl_Run A L C writeID readID H rnd rand roster bi w rounds n led) = Ok ()"
proof -
  let ?f = "\<lambda>round led. bindS (cl_SetupByzcoin A (rnd round) roster bi, led) (\<lambda>(byzd, cl) _.
      sim_batched_round A L C writeID readID H (rand round) byzd w n cl)"
  have "is_ok (fst (?f round led))" for round led
  proof -
    obtain byzd cl where "cl_SetupByzcoin A (rnd round) roster bi = Ok (byzd, cl)"
      using setup_ledger_up [OF up(4), of "rnd round" roster "[''spawn:'' @ ContractDarcID A]" bi]
      by (auto simp: cl_SetupByzcoin_def is_ok_iff)
    with sim_batched_round_ok [OF law up(1-3) wait] show ?thesis by (simp add: is_ok_iff)
  qed
  then obtain ys led' where "mapS ?f [0..<rounds] led = (Ok ys, led')"
    using mapS_up [of "[0..<rounds]" ?f led] by blast
  then show ?thesis by (simp add: cl_Run_def runBatchedLottery_def)
qed

text \<open>Polling ends: when the proof of the last transaction matches after \<open>k\<close> steps of the ledger,
  and not before, and all other proofs of the row match then, the loop of \<open>runMultipleLottery\<close> returns
  all the proofs in their order, at that state of the ledger. With no transactions it panics.\<close>

lemma lottery_polling_returns:
  assumes "length ids = n"
    and "\<And>j. j < k \<Longrightarrow> \<exists>p. GetProof L (ids ! (n - 1)) ((tick ^^ j) led) = Ok p \<and> \<not> Match L p"
    and "\<And>i. i < n \<Longrightarrow> matching_proof L msg (ids ! i) ((tick ^^ k) led) = Ok (ps i)"
  shows "poll_row L tick msg ids n led =
    (if n = 0 then Some (Panic IndexOutOfRange, led)
     else Some (Ok (map ps [0..<n]), (tick ^^ k) led))"
proof (cases n)
  case (Suc m)
  have "poll_proof L tick (ids ! (n - 1)) led = Some (Ok (ps m), (tick ^^ k) led)"
    using Suc assms(2) assms(3) [of m] by (intro poll_proof_first [where msg = msg]) auto
  moreover have "mapG (\<lambda>i. matching_proof L msg (ids ! i) ((tick ^^ k) led)) [0..<m] = Ok (map ps [0..<m])"
    using Suc assms(3) by (intro mapG_map) simp
  ultimately show ?thesis using Suc by (simp add: poll_row_def bindO_def)
qed (simp add: poll_row_def)

text \<open>A ledger on which polling ends: a row of transactions that nobody waits for is proved after some steps of
  the ledger, and its last transaction has proofs that do not match before.\<close>

definition polling_law ::
    "('led, 'proof, 'signer, 'darc, 'rnd, 'lts, 'pt, 'write, 'dk, 'sc) calypso_client
      \<Rightarrow> ('led, 'proof, 'signer, 'scid) ledger \<Rightarrow> ('led \<Rightarrow> 'led)
      \<Rightarrow> ('proof \<Rightarrow> 'write \<Rightarrow> bool) \<Rightarrow> ('proof \<Rightarrow> 'proof \<Rightarrow> 'signer \<Rightarrow> bool) \<Rightarrow> bool" where
  "polling_law C L tick HW HR \<longleftrightarrow>
     (\<forall>ts led ids led' msg. add_row C ts 0 led = (Ok ids, led') \<longrightarrow> ts \<noteq> [] \<longrightarrow>
        (\<exists>k. (\<forall>j < k. \<exists>p. GetProof L (ids ! (length ts - 1)) ((tick ^^ j) led') = Ok p \<and> \<not> Match L p) \<and>
             (\<forall>i < length ts. \<exists>p. matching_proof L msg (ids ! i) ((tick ^^ k) led') = Ok p \<and>
                holds_txn HW HR (ts ! i) p)))"

lemma poll_row_proved:
  assumes "polling_law C L tick HW HR" and "add_row C ts 0 led = (Ok ids, led')" and "length ids = length ts" and "ts \<noteq> []"
  shows "\<exists>ps led''. poll_row L tick msg ids (length ts) led' = Some (Ok ps, led'') \<and> length ps = length ts \<and>
    (\<forall>i < length ts. holds_txn HW HR (ts ! i) (ps ! i))"
proof -
  obtain k where k: "\<forall>j < k. \<exists>p. GetProof L (ids ! (length ts - 1)) ((tick ^^ j) led') = Ok p \<and> \<not> Match L p"
    "\<forall>i < length ts. \<exists>p. matching_proof L msg (ids ! i) ((tick ^^ k) led') = Ok p \<and> holds_txn HW HR (ts ! i) p"
    using assms(1,2,4) unfolding polling_law_def by blast
  then have "\<forall>i. \<exists>p. i < length ts \<longrightarrow> matching_proof L msg (ids ! i) ((tick ^^ k) led') = Ok p \<and>
      holds_txn HW HR (ts ! i) p" by blast
  from choice [OF this] obtain ps where ps: "\<forall>i. i < length ts \<longrightarrow>
      matching_proof L msg (ids ! i) ((tick ^^ k) led') = Ok (ps i) \<and> holds_txn HW HR (ts ! i) (ps i)" by (rule exE)
  have "poll_row L tick msg ids (length ts) led' = Some (Ok (map ps [0..<length ts]), (tick ^^ k) led')"
    using lottery_polling_returns [where n = "length ts" and k = k and ps = ps and L = L and tick = tick and
        led = led' and msg = msg, OF assms(3)] k(1) ps assms(4) by simp
  with ps show ?thesis by (intro exI [of _ "map ps [0..<length ts]"] exI [of _ "(tick ^^ k) led'"]) simp
qed

section \<open>A concrete run for the witnesses\<close>

abbreviation cl_darcs :: "(bytes, nat, nat, unit, unit, cal_entry list) darc_api" where
  "cl_darcs \<equiv>
     \<lparr>NewSignerEd25519 = (\<lambda>r. r), NewDarc = (\<lambda>_ _ _. [4]), AddRule = (\<lambda>a s d. Ok d), ToProto = Ok,
      GetBaseID = (\<lambda>d. d), GetID = (\<lambda>d. d), ContractDarcID = ''darc'',
      DefaultGenesisMsg = (\<lambda>_ _ _. Ok ()), SetBlockInterval = (\<lambda>_ g. g), GenesisDarc = (\<lambda>_. [5]),
      NewLedger = (\<lambda>_. Ok [])\<rparr>"

abbreviation cl_rand :: "nat cl_random" where
  "cl_rand \<equiv> \<lparr>readerDraw = 3, writerDraw = (\<lambda>i. i), darcNonce = (\<lambda>i. [word_of_nat i]),
     secretDraw = (\<lambda>i. replicate 31 7 @ [word_of_nat (i + 4)]), writeDraw = (\<lambda>i. 0)\<rparr>"

lemma cl_darcs_up: "darcs_up cl_darcs"
  by (simp add: darcs_up_def)

section \<open>Properties\<close>

text \<open>C23. The Calypso lottery from the secrets to the winner: on a working ledger and cothority, the
  client writes, reads and decrypts all secrets and reports the XOR of the last bytes of the drawn
  secrets modulo the number of participants; with no participants it panics.\<close>

theorem calypso_lottery_winner:
  assumes "calypso_client_law C L holds_write holds_read" and "calypso_client_up C"
    and "ledger_up L" and "darcs_up A"
  shows "fst (runCalypsoLottery A L C writeID readID H rand sleep byzd lts n led) =
    (if n = 0 then Panic DivideByZero
     else Ok (unat (fold (XOR) (map (\<lambda>i. draw_byte (secretDraw rand i)) [0..<n]) 0) mod n))"
  using runCalypsoLottery_ok [OF assms, of writeID readID H rand sleep byzd lts n led]
  by (simp add: xor_digit_def comp_def)

theorem calypso_lottery_winner_witness:
  "fst (runCalypsoLottery cl_darcs cal_ledger cal_client ''write'' ''read'' (\<lambda>s. s) cl_rand (\<lambda>l. l)
     \<lparr>cl_Signer = 0, cl_GDarc = [5]\<rparr> ((), 7) 2 []) = Ok 1"
proof -
  have "[0..<2] = [0, 1 :: nat]" by (simp add: upt_conv_Cons)
  then show ?thesis
    by (subst calypso_lottery_winner [OF cal_client_law cal_client_up cal_ledger_up cl_darcs_up])
      (simp add: draw_byte_def nth_append)
qed

text \<open>C24. Batching changes nothing: on a working ledger and cothority, a round of the batched
  simulation (one transaction for all reads, one call for all keys) ends with the same last byte as
  a round of the one-by-one simulation with the same draws, the XOR of the last bytes of the
  secrets.\<close>

theorem batched_lottery_equals_sequential:
  assumes "calypso_client_law C L holds_write holds_read" and "calypso_client_up C"
    and "ledger_up L" and "darcs_up A" and "0 < blockWait"
  shows "fst (sim_batched_round A L C writeID readID H rand byzd blockWait n led) =
      fst (sim_calypso_round A L C writeID readID H rand byzd blockWait n led') \<and>
    fst (sim_batched_round A L C writeID readID H rand byzd blockWait n led) =
      Ok (unat (fold (XOR) (map (\<lambda>i. draw_byte (secretDraw rand i)) [0..<n]) 0))"
  using sim_batched_round_ok [OF assms, of writeID readID H rand byzd n led]
    sim_calypso_round_ok [OF assms, of writeID readID H rand byzd n led']
  by (simp add: xor_digit_def comp_def)

theorem batched_lottery_equals_sequential_witness:
  "fst (sim_batched_round cl_darcs cal_ledger cal_client ''write'' ''read'' (\<lambda>s. s) cl_rand
     \<lparr>cl_Signer = 0, cl_GDarc = [5]\<rparr> 3 2 []) =
   fst (sim_calypso_round cl_darcs cal_ledger cal_client ''write'' ''read'' (\<lambda>s. s) cl_rand
     \<lparr>cl_Signer = 0, cl_GDarc = [5]\<rparr> 3 2 [])"
  by (rule batched_lottery_equals_sequential [THEN conjunct1,
        OF cal_client_law cal_client_up cal_ledger_up cl_darcs_up]) simp

text \<open>C28. The lottery that waits by polling: on a ledger that settles every row of transactions after some steps,
  both polling loops of \<open>runMultipleLottery\<close> end and it reports the XOR of the last bytes of the drawn secrets
  modulo the number of participants, the result of the other variants; with no participants it panics at the
  index of the last transaction.\<close>

theorem multiple_lottery_winner:
  assumes "calypso_client_law C L holds_write holds_read" and "calypso_client_up C"
    and "ledger_up L" and "darcs_up A" and "polling_law C L tick holds_write holds_read"
  shows "\<exists>led'. runMultipleLottery A L C writeID readID H rand tick byzd blockWait n led =
    Some (if n = 0 then Panic IndexOutOfRange
          else Ok (unat (fold (XOR) (map (\<lambda>i. draw_byte (secretDraw rand i)) [0..<n]) 0) mod n), led')"
proof -
  obtain lts ws reader ds led1 where
    s: "sim_lottery_setup A L C writeID readID rand byzd blockWait n led = (Ok (lts, ws, reader, ds), led1)"
    using sim_lottery_setup_up [OF assms(4,3,2)] by blast
  let ?wr = "lottery_write A C H rand lts ds"
  obtain ids led2 where w: "AddWrite_row C ?wr ((!) ws) ((!) ds) n 0 led1 = (Ok ids, led2)" "length ids = n"
    using AddWrite_row_up [OF assms(2)] by blast
  show ?thesis
  proof (cases "n = 0")
    case True
    with s w show ?thesis by (simp add: runMultipleLottery_def poll_row_def)
  next
    case False
    let ?tw = "map (\<lambda>i. TWrite (?wr i) (ws ! i) (ds ! i)) [0..<n]"
    have "?tw \<noteq> []" using False by simp
    from poll_row_proved [OF assms(5) w(1) [unfolded AddWrite_row_add_row] _ this, of "''Write inclusion proof does not match''"]
      w(2) obtain wps led3 where
      wp: "poll_row L tick ''Write inclusion proof does not match'' ids n led2 = Some (Ok wps, led3)" "length wps = n"
        "\<And>i. i < n \<Longrightarrow> holds_write (wps ! i) (?wr i)" by auto
    obtain ids' led4 where r: "AddRead_row C wps reader ((!) ds) n 0 led3 = (Ok ids', led4)" "length ids' = n"
      using AddRead_row_up [OF assms(2) wp(2)] by blast
    let ?tr = "map (\<lambda>i. TRead (wps ! i) reader (ds ! i)) [0..<n]"
    have "?tr \<noteq> []" using False by simp
    from poll_row_proved [OF assms(5) r(1) [unfolded AddRead_row_add_row [OF eq_imp_le [OF wp(2) [symmetric]]]] _ this,
        of "''Read inclusion proof does not match''"] r(2) obtain rps led5 where
      rp: "poll_row L tick ''Read inclusion proof does not match'' ids' n led4 = Some (Ok rps, led5)" "length rps = n"
        "\<And>i. i < n \<Longrightarrow> holds_read (rps ! i) (wps ! i) reader" by auto
    have "decode_secrets C True (snd lts) reader rps wps = Ok (map (secretDraw rand) [0..<n])"
      using decode_secrets_ok [OF assms(1) wp(2) rp(2)] wp(3) rp(3) by blast
    with s w r wp(1) rp(1) False show ?thesis
      by (simp add: runMultipleLottery_def pick_winner_secrets xor_digit_def comp_def)
  qed
qed

theorem multiple_lottery_winner_witness:
  "\<exists>led'. runMultipleLottery cl_darcs cal_ledger cal_client ''write'' ''read'' (\<lambda>s. s) cl_rand (\<lambda>l. l)
     \<lparr>cl_Signer = 0, cl_GDarc = [5]\<rparr> 3 2 [] = Some (Ok 1, led')"
proof -
  have pl: "polling_law cal_client cal_ledger (\<lambda>l. l) (\<lambda>p w. p = CWrite (fst w) (snd w)) (\<lambda>p wp sg. p = CRead wp sg)"
    unfolding polling_law_def
  proof (intro allI impI, rule exI [of _ 0], intro conjI allI impI)
    fix ts led ids led' msg i
    assume "add_row cal_client ts 0 led = (Ok ids, led')" "i < length ts"
    then show "\<exists>p. matching_proof cal_ledger msg (ids ! i) (((\<lambda>l. l) ^^ 0) led') = Ok p \<and>
        holds_txn (\<lambda>p w. p = CWrite (fst w) (snd w)) (\<lambda>p wp sg. p = CRead wp sg) (ts ! i) p"
      using cal_matching [of i "map cal_entry_of ts" msg led "[]"] by (cases "ts ! i") (auto simp: cal_add_row)
  qed simp
  have "[0..<2] = [0, 1 :: nat]" by (simp add: upt_conv_Cons)
  with multiple_lottery_winner [OF cal_client_law cal_client_up cal_ledger_up cl_darcs_up pl, of "''write''" "''read''"
      "\<lambda>s. s" cl_rand "\<lparr>cl_Signer = 0, cl_GDarc = [5]\<rparr>" 3 2 "[]"]
  show ?thesis by (simp add: draw_byte_def nth_append)
qed

end
