(* ===== verification/Calypso_Simulation.thy ===== *)
theory Calypso_Simulation
  imports Calypso_Client Goroutines
begin

text \<open>
  \<open>src/calypso_simulation/service.go\<close>: the simulations of the Calypso service. The set-up, a batch of
  writes and reads (\<open>runMicrobenchmark\<close>), and clients that read at the same time
  (\<open>runMultiClientCalypso\<close>, the one that \<open>Run\<close> calls); the replay of a list of transactions is in
  \<open>Calypso_Byzgen\<close>. Keys, signers and the randomness of the writes are functions of the transaction,
  collected in \<open>cs_random\<close>.
\<close>

section \<open>The set-up\<close>

record ('signer, 'darc) cs_ByzcoinData =
  cs_Signer :: 'signer
  cs_GDarc :: 'darc

record 'rnd cs_random =
  cs_adminDraw :: 'rnd
  cs_writerDraw :: 'rnd
  cs_readerDraw :: 'rnd
  cs_keyDraw :: "nat \<Rightarrow> bytes"
  cs_writeDraw :: "nat \<Rightarrow> 'rnd"

text \<open>The errors of \<open>AddRule\<close> are not looked at; a rule that was refused is not in the darc.\<close>

primrec ignore_err :: "'a \<Rightarrow> 'a go \<Rightarrow> 'a go" where
  "ignore_err d (Ok d') = Ok d'"
| "ignore_err d (Err e) = Ok d"
| "ignore_err d (Panic p) = Panic p"

definition setupDarcs ::
    "('darc, 'signer, 'rnd, 'si, 'gmsg, 'led) darc_api \<Rightarrow> string \<Rightarrow> string \<Rightarrow> 'rnd cs_random
      \<Rightarrow> ('signer \<times> 'signer \<times> 'darc) go" where
  "setupDarcs A writeID readID rand =
     (let writer = NewSignerEd25519 A (cs_writerDraw rand);
          reader = NewSignerEd25519 A (cs_readerDraw rand);
          writeDarc = NewDarc A [writer] [writer] ''Writer''
      in bindG (ignore_err writeDarc (AddRule A (''spawn:'' @ writeID) writer writeDarc)) (\<lambda>d1.
         bindG (ignore_err d1 (AddRule A (''spawn:'' @ readID) reader d1)) (\<lambda>d2.
         Ok (writer, reader, d2))))"

definition setupByzcoin ::
    "('darc, 'signer, 'rnd, 'si, 'gmsg, 'led) darc_api \<Rightarrow> 'rnd \<Rightarrow> 'si list \<Rightarrow> int
      \<Rightarrow> (('signer, 'darc) cs_ByzcoinData \<times> 'led) go" where
  "setupByzcoin A rnd r blockInterval =
     bindG (setup_ledger A rnd r [''spawn:'' @ ContractDarcID A] blockInterval)
       (\<lambda>(cl, signer, gDarc). Ok (\<lparr>cs_Signer = signer, cs_GDarc = gDarc\<rparr>, cl))"

text \<open>What the three simulations begin with; the ledger is a new one.\<close>

definition cs_setup ::
    "('darc, 'signer, 'rnd, 'si, 'gmsg, 'led) darc_api
      \<Rightarrow> ('led, 'proof, 'signer, 'darc, 'rnd, 'lts, 'pt, 'write, 'dk, 'sc) calypso_client
      \<Rightarrow> string \<Rightarrow> string \<Rightarrow> 'rnd cs_random \<Rightarrow> 'si list \<Rightarrow> int \<Rightarrow> int \<Rightarrow> 'led
      \<Rightarrow> (('lts \<times> 'pt) \<times> 'signer \<times> 'signer \<times> 'darc) go \<times> 'led" where
  "cs_setup A C writeID readID rand roster blockInterval wait led =
     bindS (setupByzcoin A (cs_adminDraw rand) roster blockInterval, led) (\<lambda>(byzd, cl) _.
     bindS (CreateLTS C cl) (\<lambda>ltsReply led.
     bindS (setupDarcs A writeID readID rand, led) (\<lambda>(writer, reader, writeDarc) led.
     bindS (SpawnDarc C (cs_Signer byzd) (cs_GDarc byzd) writeDarc wait led) (\<lambda>_ led.
     (Ok (ltsReply, writer, reader, writeDarc), led)))))"

definition cs_write ::
    "('darc, 'signer, 'rnd, 'si, 'gmsg, 'led) darc_api
      \<Rightarrow> ('led, 'proof, 'signer, 'darc, 'rnd, 'lts, 'pt, 'write, 'dk, 'sc) calypso_client
      \<Rightarrow> 'rnd cs_random \<Rightarrow> 'lts \<times> 'pt \<Rightarrow> 'darc \<Rightarrow> nat \<Rightarrow> 'write" where
  "cs_write A C rand lts darc i =
     NewWrite C (fst lts) (GetBaseID A darc) (snd lts) (cs_keyDraw rand i) (cs_writeDraw rand i)"

section \<open>The microbenchmark\<close>

text \<open>One round; the result is the list of the decoded keys, which the source does not look at.\<close>

definition cs_micro_round ::
    "('darc, 'signer, 'rnd, 'si, 'gmsg, 'led) darc_api \<Rightarrow> ('led, 'proof, 'signer, 'scid) ledger
      \<Rightarrow> ('led, 'proof, 'signer, 'darc, 'rnd, 'lts, 'pt, 'write, 'dk, 'sc) calypso_client
      \<Rightarrow> string \<Rightarrow> string \<Rightarrow> 'rnd cs_random \<Rightarrow> 'si list \<Rightarrow> int \<Rightarrow> nat \<Rightarrow> 'led \<Rightarrow> bytes list go \<times> 'led" where
  "cs_micro_round A L C writeID readID rand roster blockInterval n led =
     bindS (cs_setup A C writeID readID rand roster blockInterval 3 led) (\<lambda>(lts, writer, reader, darc) led.
     bindS (AddWrite_row C (cs_write A C rand lts darc) (\<lambda>_. writer) (\<lambda>_. darc) n 3 led) (\<lambda>writeTxnList led.
     bindS (proof_row L ''Write inclusion proof does not match'' writeTxnList led, led) (\<lambda>wrProofList led.
     bindS (AddRead_row C wrProofList reader (\<lambda>_. darc) n 3 led) (\<lambda>readTxnList led.
     bindS (proof_row L ''Read inclusion proof does not match'' readTxnList led, led) (\<lambda>readProofList led.
     (mapG (\<lambda>i. decode_key C True (snd lts) reader (readProofList ! i) (wrProofList ! i)) [0..<n], led))))))"

definition cs_runMicrobenchmark ::
    "('darc, 'signer, 'rnd, 'si, 'gmsg, 'led) darc_api \<Rightarrow> ('led, 'proof, 'signer, 'scid) ledger
      \<Rightarrow> ('led, 'proof, 'signer, 'darc, 'rnd, 'lts, 'pt, 'write, 'dk, 'sc) calypso_client
      \<Rightarrow> string \<Rightarrow> string \<Rightarrow> (nat \<Rightarrow> 'rnd cs_random) \<Rightarrow> 'si list \<Rightarrow> int \<Rightarrow> nat \<Rightarrow> nat \<Rightarrow> 'led
      \<Rightarrow> bytes list list go \<times> 'led" where
  "cs_runMicrobenchmark A L C writeID readID rand roster blockInterval n rounds =
     mapS (\<lambda>round. cs_micro_round A L C writeID readID (rand round) roster blockInterval n) [0..<rounds]"

section \<open>Many clients\<close>

text \<open>The goroutine of a client; its errors are logged by its caller.\<close>

definition cs_decrypt ::
    "('led, 'proof, 'signer, 'scid) ledger
      \<Rightarrow> ('led, 'proof, 'signer, 'darc, 'rnd, 'lts, 'pt, 'write, 'dk, 'sc) calypso_client
      \<Rightarrow> 'pt \<Rightarrow> bytes \<Rightarrow> 'proof \<Rightarrow> 'signer \<Rightarrow> 'darc \<Rightarrow> int \<Rightarrow> 'proof client \<Rightarrow> 'led \<Rightarrow> 'proof client \<times> 'led" where
  "cs_decrypt L C X key wProof reader wDarc wait =
     client_step (AddRead C wProof reader wDarc wait)
       (matching_proof L ''Read inclusion proof does not match'')
       (\<lambda>rProof led. (bindG (decode_key C False X reader rProof wProof) (\<lambda>decodedKey.
          if decodedKey \<noteq> key then Err (Error ''Keys don't match'') else Ok ()), led))"

definition cs_multi_round ::
    "('darc, 'signer, 'rnd, 'si, 'gmsg, 'led) darc_api \<Rightarrow> ('led, 'proof, 'signer, 'scid) ledger
      \<Rightarrow> ('led, 'proof, 'signer, 'darc, 'rnd, 'lts, 'pt, 'write, 'dk, 'sc) calypso_client
      \<Rightarrow> string \<Rightarrow> string \<Rightarrow> 'rnd cs_random \<Rightarrow> nat list \<Rightarrow> 'si list \<Rightarrow> int \<Rightarrow> int \<Rightarrow> nat \<Rightarrow> 'led
      \<Rightarrow> (unit go list go \<times> 'led) option" where
  "cs_multi_round A L C writeID readID rand sched roster blockInterval blockWait n led =
     bindO (Some (cs_setup A C writeID readID rand roster blockInterval blockWait led))
       (\<lambda>(lts, writer, reader, darc) led.
     bindO (Some (AddWrite_row C (cs_write A C rand lts darc) (\<lambda>_. writer) (\<lambda>_. darc) n blockWait led))
       (\<lambda>writeTxnList led.
     bindO (Some (proof_row L ''Write inclusion proof does not match'' writeTxnList led, led))
       (\<lambda>wrProofList led.
     run_clients (\<lambda>i. cs_decrypt L C (snd lts) (cs_keyDraw rand i) (wrProofList ! i) reader darc blockWait)
       sched n led)))"

definition runMultiClientCalypso ::
    "('darc, 'signer, 'rnd, 'si, 'gmsg, 'led) darc_api \<Rightarrow> ('led, 'proof, 'signer, 'scid) ledger
      \<Rightarrow> ('led, 'proof, 'signer, 'darc, 'rnd, 'lts, 'pt, 'write, 'dk, 'sc) calypso_client
      \<Rightarrow> string \<Rightarrow> string \<Rightarrow> (nat \<Rightarrow> 'rnd cs_random) \<Rightarrow> (nat \<Rightarrow> nat list) \<Rightarrow> 'si list \<Rightarrow> int \<Rightarrow> int \<Rightarrow> nat \<Rightarrow> nat \<Rightarrow> 'led
      \<Rightarrow> (unit go list list go \<times> 'led) option" where
  "runMultiClientCalypso A L C writeID readID rand sched roster blockInterval blockWait n rounds =
     mapO (\<lambda>round. cs_multi_round A L C writeID readID (rand round) (sched round) roster blockInterval
                     blockWait n) [0..<rounds]"

definition cs_Run ::
    "('darc, 'signer, 'rnd, 'si, 'gmsg, 'led) darc_api \<Rightarrow> ('led, 'proof, 'signer, 'scid) ledger
      \<Rightarrow> ('led, 'proof, 'signer, 'darc, 'rnd, 'lts, 'pt, 'write, 'dk, 'sc) calypso_client
      \<Rightarrow> string \<Rightarrow> string \<Rightarrow> (nat \<Rightarrow> 'rnd cs_random) \<Rightarrow> (nat \<Rightarrow> nat list) \<Rightarrow> 'si list \<Rightarrow> int \<Rightarrow> int \<Rightarrow> nat \<Rightarrow> nat \<Rightarrow> 'led
      \<Rightarrow> (unit go \<times> 'led) option" where
  "cs_Run A L C writeID readID rand sched roster blockInterval blockWait n rounds led =
     bindO (runMultiClientCalypso A L C writeID readID rand sched roster blockInterval blockWait n rounds led)
       (\<lambda>_ led. Some (Ok (), led))"

section \<open>The microbenchmark and the clients on a working ledger\<close>

lemma setupDarcs_up:
  assumes "darcs_up A"
  shows "\<exists>writer reader darc. setupDarcs A writeID readID rand = Ok (writer, reader, darc)"
proof -
  have rule: "\<exists>d'. AddRule A a sg d = Ok d'" for a sg d
    using assms by (simp add: darcs_up_def is_ok_iff)
  let ?w = "NewSignerEd25519 A (cs_writerDraw rand)"
  obtain d1 where "AddRule A (''spawn:'' @ writeID) ?w (NewDarc A [?w] [?w] ''Writer'') = Ok d1" using rule by blast
  moreover obtain d2 where "AddRule A (''spawn:'' @ readID) (NewSignerEd25519 A (cs_readerDraw rand)) d1 = Ok d2"
    using rule by blast
  ultimately show ?thesis by (simp add: setupDarcs_def Let_def)
qed

lemma cs_setup_up:
  assumes "darcs_up A" and "genesis_up A" and "calypso_client_up C"
  shows "\<exists>lts writer reader darc led'. cs_setup A C writeID readID rand roster bi w led =
    (Ok (lts, writer, reader, darc), led')"
proof -
  obtain byzd cl where b: "setupByzcoin A (cs_adminDraw rand) roster bi = Ok (byzd, cl)"
    using setup_ledger_up [OF assms(2), of "cs_adminDraw rand" roster "[''spawn:'' @ ContractDarcID A]" bi]
    by (auto simp: setupByzcoin_def is_ok_iff)
  obtain lts led1 where lts: "CreateLTS C cl = (Ok lts, led1)"
    using assms(3) by (cases "CreateLTS C cl") (auto simp: calypso_client_up_def is_ok_iff dest!: spec [of _ cl])
  obtain writer reader darc where d: "setupDarcs A writeID readID rand = Ok (writer, reader, darc)"
    using setupDarcs_up [OF assms(1)] by blast
  have "is_ok (fst (SpawnDarc C (cs_Signer byzd) (cs_GDarc byzd) darc w led1))"
    using assms(3) by (simp add: calypso_client_up_def)
  with b lts d show ?thesis
    by (cases "SpawnDarc C (cs_Signer byzd) (cs_GDarc byzd) darc w led1") (auto simp: cs_setup_def is_ok_iff)
qed

lemma cs_micro_round_ok:
  assumes law: "calypso_client_law C L HW HR" and up: "calypso_client_up C" "darcs_up A" "genesis_up A"
  shows "\<exists>led'. cs_micro_round A L C writeID readID rand roster bi n led = (Ok (map (cs_keyDraw rand) [0..<n]), led')"
proof -
  obtain lts writer reader darc led1 where
    s: "cs_setup A C writeID readID rand roster bi 3 led = (Ok (lts, writer, reader, darc), led1)"
    using cs_setup_up [OF up(2,3,1)] by blast
  obtain ids led2 wps where
    w: "AddWrite_row C (cs_write A C rand lts darc) (\<lambda>_. writer) (\<lambda>_. darc) n 3 led1 = (Ok ids, led2)"
      "proof_row L ''Write inclusion proof does not match'' ids led2 = Ok wps" "length wps = n"
      "\<forall>i < n. HW (wps ! i) (cs_write A C rand lts darc i)"
    using writes_proved [OF law up(1), of 3 "cs_write A C rand lts darc" "\<lambda>_. writer" "\<lambda>_. darc" n led1
        "''Write inclusion proof does not match''"] by auto
  obtain ids' led3 rps where
    r: "AddRead_row C wps reader (\<lambda>_. darc) n 3 led2 = (Ok ids', led3)"
      "proof_row L ''Read inclusion proof does not match'' ids' led3 = Ok rps" "length rps = n"
      "\<forall>i < n. HR (rps ! i) (wps ! i) reader"
    using reads_proved [OF law up(1) _ w(3), of 3 reader "\<lambda>_. darc" led2
        "''Read inclusion proof does not match''"] by auto
  have "mapG (\<lambda>i. decode_key C True (snd lts) reader (rps ! i) (wps ! i)) [0..<n] =
      Ok (map (cs_keyDraw rand) [0..<n])"
    using w(4) r(4) by (intro mapG_map decode_key_ok [OF law]) (auto simp: cs_write_def)
  with s w r show ?thesis by (simp add: cs_micro_round_def)
qed

lemma cs_multi_round_ok:
  assumes law: "calypso_client_law C L HW HR" and up: "calypso_client_up C" "darcs_up A" "genesis_up A"
    and wait: "0 < w" and fair: "\<And>i. i < n \<Longrightarrow> 3 \<le> count_list sched i"
  shows "\<exists>led'. cs_multi_round A L C writeID readID rand sched roster bi w n led =
    Some (Ok (replicate n (Ok ())), led')"
proof -
  obtain lts writer reader darc led1 where
    s: "cs_setup A C writeID readID rand roster bi w led = (Ok (lts, writer, reader, darc), led1)"
    using cs_setup_up [OF up(2,3,1)] by blast
  obtain ids led2 wps where
    wp: "AddWrite_row C (cs_write A C rand lts darc) (\<lambda>_. writer) (\<lambda>_. darc) n w led1 = (Ok ids, led2)"
      "proof_row L ''Write inclusion proof does not match'' ids led2 = Ok wps" "length wps = n"
      "\<forall>i < n. HW (wps ! i) (cs_write A C rand lts darc i)"
    using writes_proved [OF law up(1) wait, of "cs_write A C rand lts darc" "\<lambda>_. writer" "\<lambda>_. darc" n led1
        "''Write inclusion proof does not match''"] by auto
  let ?msg = "''Read inclusion proof does not match''"
  have add: "\<exists>iid s'. AddRead C (wps ! i) reader darc w led = (Ok iid, s') \<and> True \<and> cal_later C led s' \<and>
      (\<forall>s''. cal_later C s' s'' \<longrightarrow> (\<exists>p. matching_proof L ?msg iid s'' = Ok p \<and> HR p (wps ! i) reader))" for i led
  proof -
    obtain iid s' where a: "AddRead C (wps ! i) reader darc w led = (Ok iid, s')"
      using up(1) by (cases "AddRead C (wps ! i) reader darc w led")
        (auto simp: calypso_client_up_def is_ok_iff dest!: spec [of _ "wps ! i"] spec [of _ reader] spec [of _ darc]
          spec [of _ w] spec [of _ led])
    then have "add_row C [TRead (wps ! i) reader darc] w led = (Ok [iid], s')"
      by (simp add: add_row_def row_wait_def)
    from calypso_client_law_row [OF law wait this, of _ 0 ?msg]
    have "\<forall>s''. cal_later C s' s'' \<longrightarrow> (\<exists>p. matching_proof L ?msg iid s'' = Ok p \<and> HR p (wps ! i) reader)" by simp
    moreover have "cal_later C led s'"
      using later_add [OF later_refl, of C led "TRead (wps ! i) reader darc" w] a by simp
    ultimately show ?thesis using a by blast
  qed
  have "\<exists>s'. run_clients (\<lambda>i. cs_decrypt L C (snd lts) (cs_keyDraw rand i) (wps ! i) reader darc w) sched n led2 =
      Some (Ok (replicate n (Ok ())), s') \<and> True"
    unfolding cs_decrypt_def
  proof (rule run_clients_ok [where I = "\<lambda>_. True" and later = "cal_later C" and Q = "\<lambda>i p. HR p (wps ! i) reader"])
    fix i p led assume "i < n" "HR p (wps ! i) reader"
    with decode_key_ok [OF law, of "wps ! i"] wp(4) have
      "decode_key C False (snd lts) reader p (wps ! i) = Ok (cs_keyDraw rand i)" by (auto simp: cs_write_def)
    then show "(bindG (decode_key C False (snd lts) reader p (wps ! i)) (\<lambda>decodedKey.
        if decodedKey \<noteq> cs_keyDraw rand i then Err (Error ''Keys don't match'') else Ok ()), led) = (Ok (), led)"
      by simp
  next
    fix led1 led2 led3 assume "cal_later C led1 led2" "cal_later C led2 led3"
    then show "cal_later C led1 led3" by (rule cal_later_trans [rotated])
  qed (use add fair in \<open>auto intro: later_refl\<close>)
  with s wp show ?thesis by (auto simp: cs_multi_round_def)
qed

section \<open>A concrete run for the witnesses\<close>

abbreviation cs_darcs :: "(bytes, nat, nat, unit, unit, cal_entry list) darc_api" where
  "cs_darcs \<equiv>
     \<lparr>NewSignerEd25519 = (\<lambda>r. r), NewDarc = (\<lambda>_ _ _. [4]), AddRule = (\<lambda>a s d. Ok d), ToProto = Ok,
      GetBaseID = (\<lambda>d. d), GetID = (\<lambda>d. d), ContractDarcID = ''darc'',
      DefaultGenesisMsg = (\<lambda>_ _ _. Ok ()), SetBlockInterval = (\<lambda>_ g. g), GenesisDarc = (\<lambda>_. [5]),
      NewLedger = (\<lambda>_. Ok [])\<rparr>"

abbreviation cs_rand :: "nat cs_random" where
  "cs_rand \<equiv> \<lparr>cs_adminDraw = 1, cs_writerDraw = 2, cs_readerDraw = 3,
     cs_keyDraw = (\<lambda>i. replicate 15 7 @ [word_of_nat i]), cs_writeDraw = (\<lambda>i. 0)\<rparr>"

lemma cs_darcs_up: "darcs_up cs_darcs" "genesis_up cs_darcs"
  by (simp_all add: darcs_up_def genesis_up_def)

section \<open>Properties\<close>

text \<open>C32. The microbenchmark of the Calypso simulation: on a working ledger and cothority every round
  decodes, in order, exactly the keys that were drawn for its writes.\<close>

theorem calypso_microbenchmark_keys:
  assumes "calypso_client_law C L holds_write holds_read" and "calypso_client_up C"
    and "darcs_up A" and "genesis_up A"
  shows "fst (cs_runMicrobenchmark A L C writeID readID rand roster blockInterval n rounds led) =
    Ok (map (\<lambda>r. map (cs_keyDraw (rand r)) [0..<n]) [0..<rounds])"
proof -
  have "fst (mapS (\<lambda>r. cs_micro_round A L C writeID readID (rand r) roster blockInterval n) rs led) =
      Ok (map (\<lambda>r. map (cs_keyDraw (rand r)) [0..<n]) rs)" for rs
  proof (induction rs arbitrary: led)
    case (Cons r rs)
    obtain led' where "cs_micro_round A L C writeID readID (rand r) roster blockInterval n led =
        (Ok (map (cs_keyDraw (rand r)) [0..<n]), led')"
      using cs_micro_round_ok [OF assms] by blast
    with Cons [of led'] show ?case by (auto simp: bindS_def split: prod.splits)
  qed simp
  then show ?thesis by (simp add: cs_runMicrobenchmark_def)
qed

theorem calypso_microbenchmark_keys_witness:
  "fst (cs_runMicrobenchmark cs_darcs cal_ledger cal_client ''write'' ''read'' (\<lambda>_. cs_rand) [()] 5 2 1 []) =
     Ok [[replicate 15 7 @ [0], replicate 15 7 @ [1]]]"
proof -
  have "[0..<2] = [0, 1 :: nat]" by (simp add: upt_conv_Cons)
  then show ?thesis
    by (subst calypso_microbenchmark_keys [OF cal_client_law cal_client_up cs_darcs_up]) simp
qed

text \<open>C33. The simulation that \<open>Run\<close> starts, under every interleaving: when each client moves at least
  three times in the schedule of its round, \<open>wg.Wait()\<close> returns in every round, no client
  logs an error (each decoded the key of its own write), and \<open>Run\<close> returns without an error.\<close>

theorem calypso_clients_every_schedule:
  assumes "calypso_client_law C L holds_write holds_read" and "calypso_client_up C"
    and "darcs_up A" and "genesis_up A" and "0 < blockWait"
    and "\<And>r i. r < rounds \<Longrightarrow> i < n \<Longrightarrow> 3 \<le> count_list (sched r) i"
  shows "\<exists>led'. runMultiClientCalypso A L C writeID readID rand sched roster blockInterval blockWait n rounds led =
      Some (Ok (replicate rounds (replicate n (Ok ()))), led') \<and>
    cs_Run A L C writeID readID rand sched roster blockInterval blockWait n rounds led = Some (Ok (), led')"
proof -
  have "\<exists>led'. mapO (\<lambda>r. cs_multi_round A L C writeID readID (rand r) (sched r) roster blockInterval blockWait n) rs led =
      Some (Ok (replicate (length rs) (replicate n (Ok ()))), led')" if "\<forall>r \<in> set rs. r < rounds" for rs
    using that
  proof (induction rs arbitrary: led)
    case (Cons r rs)
    obtain led1 where "cs_multi_round A L C writeID readID (rand r) (sched r) roster blockInterval blockWait n led =
        Some (Ok (replicate n (Ok ())), led1)"
      using cs_multi_round_ok [OF assms(1-5), where n = n and sched = "sched r"] assms(6) [of r] Cons.prems
      by (meson list.set_intros(1))
    moreover obtain led2 where "mapO (\<lambda>r. cs_multi_round A L C writeID readID (rand r) (sched r) roster blockInterval
        blockWait n) rs led1 = Some (Ok (replicate (length rs) (replicate n (Ok ()))), led2)"
      using Cons.IH [of led1] Cons.prems by auto
    ultimately show ?case by simp
  qed simp
  from this [of "[0..<rounds]"] show ?thesis by (auto simp: cs_Run_def runMultiClientCalypso_def)
qed

theorem calypso_clients_every_schedule_witness:
  "\<exists>led'. runMultiClientCalypso cs_darcs cal_ledger cal_client ''write'' ''read'' (\<lambda>_. cs_rand)
     (\<lambda>_. [0, 1, 1, 0, 1, 0]) [()] 5 2 2 1 [] = Some (Ok [[Ok (), Ok ()]], led')"
proof -
  have "3 \<le> count_list [0, 1, 1, 0, 1, 0 :: nat] i" if "i < 2" for i :: nat
    using that by (auto simp: less_Suc_eq numeral_2_eq_2)
  then have "\<exists>led'. runMultiClientCalypso cs_darcs cal_ledger cal_client ''write'' ''read'' (\<lambda>_. cs_rand)
      (\<lambda>_. [0, 1, 1, 0, 1, 0]) [()] 5 2 2 1 [] = Some (Ok (replicate 1 (replicate 2 (Ok ()))), led') \<and>
      cs_Run cs_darcs cal_ledger cal_client ''write'' ''read'' (\<lambda>_. cs_rand) (\<lambda>_. [0, 1, 1, 0, 1, 0]) [()] 5 2 2 1 [] =
        Some (Ok (), led')"
    by (intro calypso_clients_every_schedule [OF cal_client_law cal_client_up cs_darcs_up]) simp_all
  then show ?thesis by (auto simp: numeral_2_eq_2)
qed

end
