(* ===== verification/Calypso_Byzgen.thy ===== *)
theory Calypso_Byzgen
  imports Calypso_Simulation Block_Replay
begin

text \<open>
  \<open>runByzgenSimulation\<close> of \<open>src/calypso_simulation/service.go\<close>: ten writes are made before the rounds; a
  round replays a list of transactions in blocks (\<open>Block_Replay\<close>), in which a write adds one of the ten
  again and a read reads one of them.
\<close>

section \<open>The simulation\<close>

definition FIXED_COUNT :: nat where "FIXED_COUNT = 10"

definition cs_readAuxFile :: "string list go \<Rightarrow> string list go \<Rightarrow> nat \<Rightarrow> nat \<Rightarrow> (int list \<times> int list) go" where
  "cs_readAuxFile = readAuxFiles"

text \<open>\<open>countTransactions\<close>, which nothing calls.\<close>

fun count_loop :: "int list \<Rightarrow> nat \<Rightarrow> nat list \<Rightarrow> nat \<Rightarrow> nat \<Rightarrow> (nat \<times> nat) go" where
  "count_loop txnList base [] write read = Ok (write, read)"
| "count_loop txnList base (i # is) write read =
     bindG (index_go txnList (base + i)) (\<lambda>k.
     if k = 1 then count_loop txnList base is (write + 1) read
     else count_loop txnList base is write (read + 1))"

definition countTransactions :: "int list \<Rightarrow> nat \<Rightarrow> nat \<Rightarrow> (nat \<times> nat) go" where
  "countTransactions txnList base sz = count_loop txnList base [0..<sz] 0 0"

text \<open>The ten writes. The error of \<open>AddWrite\<close> is not looked at: the reply is then nil (\<open>None\<close>), and the
  next loop dereferences it.\<close>

definition cs_fixed_row ::
    "('led, 'proof, 'signer, 'darc, 'rnd, 'lts, 'pt, 'write, 'dk, 'sc) calypso_client
      \<Rightarrow> (nat \<Rightarrow> 'write) \<Rightarrow> 'signer \<Rightarrow> 'darc \<Rightarrow> 'led \<Rightarrow> bytes option list go \<times> 'led" where
  "cs_fixed_row C wr writer darc =
     mapS (\<lambda>i led.
       case AddWrite C (wr i) writer darc (row_wait FIXED_COUNT 3 i) led of
         (Ok t, led') \<Rightarrow> (Ok (Some t), led')
       | (Err e, led') \<Rightarrow> (Ok None, led')
       | (Panic p, led') \<Rightarrow> (Panic p, led')) [0..<FIXED_COUNT]"

definition txn_proof ::
    "('led, 'proof, 'signer, 'scid) ledger \<Rightarrow> string \<Rightarrow> 'led \<Rightarrow> bytes option \<Rightarrow> 'proof go" where
  "txn_proof L msg led t = bindG (deref t) (\<lambda>iid. matching_proof L msg iid led)"

record ('write, 'proof, 'signer, 'darc, 'pt) cs_env =
  writeList :: "nat \<Rightarrow> 'write"
  fixedWrProofList :: "'proof list"
  ce_writer :: 'signer
  ce_reader :: 'signer
  ce_darc :: 'darc
  ce_X :: 'pt

text \<open>The calls of the blocks. \<open>readProofList\<close> holds each proof only until it is used.\<close>

definition cs_ops ::
    "('led, 'proof, 'signer, 'scid) ledger
      \<Rightarrow> ('led, 'proof, 'signer, 'darc, 'rnd, 'lts, 'pt, 'write, 'dk, 'sc) calypso_client
      \<Rightarrow> ('write, 'proof, 'signer, 'darc, 'pt) cs_env \<Rightarrow> 'led replay_ops" where
  "cs_ops L C ce =
     \<lparr>op_write = (\<lambda>writeIdx fixedIdx.
        AddWrite C (writeList ce (fixedIdx mod FIXED_COUNT)) (ce_writer ce) (ce_darc ce)),
      op_read = (\<lambda>readIdx.
        AddRead C (fixedWrProofList ce ! (readIdx mod FIXED_COUNT)) (ce_reader ce) (ce_darc ce)),
      op_prove = (\<lambda>t led.
        (bindG (txn_proof L ''Write inclusion proof does not match'' led t) (\<lambda>_. Ok ()), led)),
      op_decrypt = (\<lambda>q t led.
        (bindG (txn_proof L ''Read inclusion proof does not match'' led t) (\<lambda>rProof.
         bindG (decode_key C True (ce_X ce) (ce_reader ce) rProof (fixedWrProofList ce ! (q mod FIXED_COUNT))) (\<lambda>_.
         Ok ())), led))\<rparr>"

definition cs_runByzgenSimulation ::
    "('darc, 'signer, 'rnd, 'si, 'gmsg, 'led) darc_api \<Rightarrow> ('led, 'proof, 'signer, 'scid) ledger
      \<Rightarrow> ('led, 'proof, 'signer, 'darc, 'rnd, 'lts, 'pt, 'write, 'dk, 'sc) calypso_client
      \<Rightarrow> string \<Rightarrow> string \<Rightarrow> 'rnd cs_random \<Rightarrow> string list go \<Rightarrow> string list go \<Rightarrow> 'si list \<Rightarrow> int
      \<Rightarrow> nat \<Rightarrow> nat \<Rightarrow> nat \<Rightarrow> nat \<Rightarrow> nat \<Rightarrow> 'led \<Rightarrow> unit go \<times> 'led" where
  "cs_runByzgenSimulation A L C writeID readID rand file1 file2 roster blockInterval numTransactions numBlocks
       numWrite numRead rounds led =
     bindS (cs_readAuxFile file1 file2 numTransactions numBlocks, led) (\<lambda>(txnList, blkSizeList) led.
     bindS (cs_setup A C writeID readID rand roster blockInterval 3 led) (\<lambda>(lts, writer, reader, darc) led.
     bindS (cs_fixed_row C (cs_write A C rand lts darc) writer darc led) (\<lambda>fixedWriteTxnList led.
     bindS (mapG (txn_proof L ''Write inclusion proof does not match'' led) fixedWriteTxnList, led) (\<lambda>proofs led.
     replay_rounds
       (\<lambda>_. cs_ops L C \<lparr>writeList = cs_write A C rand lts darc, fixedWrProofList = proofs, ce_writer = writer,
                         ce_reader = reader, ce_darc = darc, ce_X = snd lts\<rparr>)
       txnList blkSizeList [0..<rounds] (replay_start numWrite numRead) led))))"

section \<open>The blocks on a working ledger\<close>

lemma cs_ops_calls [simp]:
  "op_write (cs_ops L C ce) w f = AddWrite C (writeList ce (f mod FIXED_COUNT)) (ce_writer ce) (ce_darc ce)"
  "op_read (cs_ops L C ce) r = AddRead C (fixedWrProofList ce ! (r mod FIXED_COUNT)) (ce_reader ce) (ce_darc ce)"
  by (simp_all add: cs_ops_def)

fun block_txns ::
    "('write, 'proof, 'signer, 'darc, 'pt) cs_env \<Rightarrow> int list \<Rightarrow> nat \<Rightarrow> nat
      \<Rightarrow> ('write, 'proof, 'signer, 'darc) cal_txn list" where
  "block_txns ce [] f r = []"
| "block_txns ce (k # ks) f r =
     (if k = 1 then TWrite (writeList ce (f mod FIXED_COUNT)) (ce_writer ce) (ce_darc ce) # block_txns ce ks (f + 1) r
      else TRead (fixedWrProofList ce ! (r mod FIXED_COUNT)) (ce_reader ce) (ce_darc ce) # block_txns ce ks f (r + 1))"

lemma block_txns_length [simp]: "length (block_txns ce ks f r) = length ks"
  by (induction ks arbitrary: f r) simp_all

lemma block_txns_read:
  assumes "m < length ks" and "ks ! m \<noteq> 1"
  shows "block_txns ce ks f r ! m =
    TRead (fixedWrProofList ce ! ((r + reads (take m ks)) mod FIXED_COUNT)) (ce_reader ce) (ce_darc ce)"
  using assms
proof (induction ks arbitrary: m f r)
  case (Cons k ks)
  then show ?case by (cases m) simp_all
qed simp

lemma op_row_cs:
  "op_row (cs_ops L C ce) n i w f r ks led =
     mapS (\<lambda>(j, t). cal_add C t (row_wait n 3 j)) (enumerate i (block_txns ce ks f r)) led"
proof (induction ks arbitrary: i w f r led)
  case (Cons k ks)
  show ?case by (cases "k = 1") (simp_all add: Cons.IH)
qed simp

lemma op_row_add_row: "op_row (cs_ops L C ce) (length ks) 0 w f r ks = add_row C (block_txns ce ks f r) 3"
proof (rule ext)
  fix led
  show "op_row (cs_ops L C ce) (length ks) 0 w f r ks led = add_row C (block_txns ce ks f r) 3 led"
    unfolding op_row_cs add_row_def
    by (subst mapS_enumerate [where f = "\<lambda>i t. cal_add C t (row_wait (length (block_txns ce ks f r)) 3 i)"]) simp
qed

lemma cal_add_up: "calypso_client_up C \<Longrightarrow> is_ok (fst (cal_add C t v led))"
  by (cases t) (auto simp: calypso_client_up_def)

lemma add_row_up:
  assumes "calypso_client_up C"
  shows "\<exists>ids led'. add_row C ts w led = (Ok ids, led')"
  using mapS_up [of "[0..<length ts]" "\<lambda>i. cal_add C (ts ! i) (row_wait (length ts) w i)" led]
    cal_add_up [OF assms] by (auto simp: add_row_def)

lemma cs_rows_run:
  assumes "calypso_client_up C"
  shows "rows_run (cs_ops L C ce) Inv W R"
  unfolding rows_run_def op_row_cs
proof (intro allI impI)
  fix n ks f r led
  show "is_ok (fst (mapS (\<lambda>(j, t). cal_add C t (row_wait n 3 j)) (enumerate 0 (block_txns ce ks f r)) led))"
    using mapS_up [of "enumerate 0 (block_txns ce ks f r)" "\<lambda>(j, t). cal_add C t (row_wait n 3 j)" led]
      cal_add_up [OF assms] by (auto split: prod.splits)
qed

lemma cs_block_served:
  assumes law: "calypso_client_law C L HW HR" and up: "calypso_client_up C"
    and pr: "\<And>i. i < FIXED_COUNT \<Longrightarrow>
      \<exists>lts did key rnd. HW (fixedWrProofList ce ! i) (NewWrite C lts did (ce_X ce) key rnd)"
  shows "block_served (cs_ops L C ce) (\<lambda>_ _ _. True) W R"
  unfolding block_served_def
proof (intro allI impI)
  fix ks w f r led
  obtain ts led' where row: "add_row C (block_txns ce ks f r) 3 led = (Ok ts, led')"
    using add_row_up [OF up] by blast
  have "if ks ! m = 1 then op_prove (cs_ops L C ce) (Some (ts ! m)) led' = (Ok (), led')
      else op_decrypt (cs_ops L C ce) (r + reads (take m ks)) (Some (ts ! m)) led' = (Ok (), led')"
    if m: "m < length ks" for m
  proof (cases "ks ! m = 1")
    case True
    from calypso_client_law_row [OF law _ row later_refl, of m "''Write inclusion proof does not match''"] m
    obtain p where
      "matching_proof L ''Write inclusion proof does not match'' (ts ! m) led' = Ok p" by auto
    with True show ?thesis by (simp add: cs_ops_def txn_proof_def deref_def)
  next
    case False
    let ?q = "(r + reads (take m ks)) mod FIXED_COUNT"
    from calypso_client_law_row [OF law _ row later_refl, of m "''Read inclusion proof does not match''"] m
    obtain p where p: "matching_proof L ''Read inclusion proof does not match'' (ts ! m) led' = Ok p"
      "HR p (fixedWrProofList ce ! ?q) (ce_reader ce)" by (auto simp: block_txns_read [OF m False])
    obtain lts did key rnd where "HW (fixedWrProofList ce ! ?q) (NewWrite C lts did (ce_X ce) key rnd)"
      using pr [of ?q] by (auto simp: FIXED_COUNT_def)
    from decode_key_ok [OF law this p(2)] p(1) False show ?thesis
      by (simp add: cs_ops_def txn_proof_def deref_def)
  qed
  with row show "\<exists>ts s'. op_row (cs_ops L C ce) (length ks) 0 w f r ks led = (Ok ts, s') \<and> True \<and>
      (\<forall>m < length ks. if ks ! m = 1 then op_prove (cs_ops L C ce) (Some (ts ! m)) s' = (Ok (), s')
         else op_decrypt (cs_ops L C ce) (r + reads (take m ks)) (Some (ts ! m)) s' = (Ok (), s'))"
    unfolding op_row_add_row by blast
qed

text \<open>The ten writes and their proofs.\<close>

lemma mapS_Some:
  "mapS f xs s = (Ok ys, s') \<Longrightarrow>
     mapS (\<lambda>x s. case f x s of (Ok y, t) \<Rightarrow> (Ok (Some y), t) | (Err e, t) \<Rightarrow> (Ok None, t) | (Panic p, t) \<Rightarrow> (Panic p, t))
       xs s = (Ok (map Some ys), s')"
  by (induction xs arbitrary: s ys) (fastforce simp: go_simps)+

lemma fixed_writes_proved:
  assumes "calypso_client_law C L HW HR" and "calypso_client_up C"
  shows "\<exists>ts led' ps. cs_fixed_row C wr writer darc led = (Ok ts, led') \<and>
    mapG (txn_proof L msg led') ts = Ok ps \<and> (\<forall>i < FIXED_COUNT. HW (ps ! i) (wr i))"
proof -
  obtain ids led' ps where row: "AddWrite_row C wr (\<lambda>_. writer) (\<lambda>_. darc) FIXED_COUNT 3 led = (Ok ids, led')"
    and ps: "proof_row L msg ids led' = Ok ps" "\<forall>i < FIXED_COUNT. HW (ps ! i) (wr i)"
    using writes_proved [OF assms, of 3 wr "\<lambda>_. writer" "\<lambda>_. darc" FIXED_COUNT led msg] by auto
  have "mapG (txn_proof L msg led') (map Some ids) = Ok ps"
    using ps(1) by (simp add: proof_row_def mapG_Ok_iff list_all2_map1 txn_proof_def deref_def)
  moreover have "cs_fixed_row C wr writer darc led = (Ok (map Some ids), led')"
    using mapS_Some [OF row [unfolded AddWrite_row_def]] by (simp add: cs_fixed_row_def)
  ultimately show ?thesis using ps(2) by blast
qed

section \<open>Properties\<close>

text \<open>C34. Replaying transactions on Calypso: on a working ledger and cothority, with lists of replies that
  are long enough, the simulation ends without an error, in one round or more, exactly when the sizes of the
  first blocks, for some number of them, add up to the number of transactions (the sizes after them are not
  looked at; a size below zero counts as zero), and otherwise panics with an index out of range: the sizes add up
  to less, or the last transactions are fewer than their block.\<close>

theorem calypso_byzgen_runs:
  assumes "calypso_client_law C L holds_write holds_read" and "calypso_client_up C"
    and "darcs_up A" and "genesis_up A"
    and "cs_readAuxFile file1 file2 numTransactions numBlocks = Ok (txnList, blkSizeList)"
    and "writes txnList \<le> numWrite" and "reads txnList \<le> numRead"
  shows "fst (cs_runByzgenSimulation A L C writeID readID rand file1 file2 roster blockInterval numTransactions
      numBlocks numWrite numRead rounds led) =
    (if rounds = 0 \<or> (\<exists>k. sum_list (map nat (take k blkSizeList)) = length txnList) then Ok ()
     else Panic IndexOutOfRange)"
proof -
  obtain lts writer reader darc led1 where
    s: "cs_setup A C writeID readID rand roster blockInterval 3 led = (Ok (lts, writer, reader, darc), led1)"
    using cs_setup_up [OF assms(3,4,2)] by blast
  let ?wr = "cs_write A C rand lts darc"
  obtain ts led2 ps where
    f: "cs_fixed_row C ?wr writer darc led1 = (Ok ts, led2)"
      "mapG (txn_proof L ''Write inclusion proof does not match'' led2) ts = Ok ps"
      "\<forall>i < FIXED_COUNT. holds_write (ps ! i) (?wr i)"
    using fixed_writes_proved [OF assms(1,2), of ?wr writer darc led1 "''Write inclusion proof does not match''"]
    by blast
  have "block_served (cs_ops L C \<lparr>writeList = ?wr, fixedWrProofList = ps, ce_writer = writer, ce_reader = reader,
      ce_darc = darc, ce_X = snd lts\<rparr>) (\<lambda>_ _ _. True) numWrite numRead"
    using f(3) by (intro cs_block_served [OF assms(1,2)]) (simp add: cs_write_def, blast)
  from replay_rounds_ok [OF this cs_rows_run [OF assms(2)] assms(6) _ assms(7),
      of "replay_start numWrite numRead" blkSizeList "[0..<rounds]" led2]
  show ?thesis using assms(5) s f(1,2)
    by (simp add: cs_runByzgenSimulation_def replay_start_def)
qed

theorem calypso_byzgen_runs_witness:
  "fst (cs_runByzgenSimulation cs_darcs cal_ledger cal_client ''write'' ''read'' cs_rand
      (Ok [''1'', ''0'', ''1'']) (Ok [''2'', ''1'']) [()] 5 3 2 2 1 4 []) = Ok () \<and>
   fst (cs_runByzgenSimulation cs_darcs cal_ledger cal_client ''write'' ''read'' cs_rand
      (Ok [''1'', ''0'', ''1'']) (Ok [''3'', ''5'']) [()] 5 3 2 2 1 4 []) = Ok () \<and>
   fst (cs_runByzgenSimulation cs_darcs cal_ledger cal_client ''write'' ''read'' cs_rand
      (Ok [''1'', ''0'', ''1'']) (Ok [''2'', ''5'']) [()] 5 3 2 2 1 4 []) = Panic IndexOutOfRange"
proof -
  have files: "cs_readAuxFile (Ok [''1'', ''0'', ''1'']) (Ok [''2'', ''1'']) 3 2 = Ok ([1, 0, 1], [2, 1])"
    "cs_readAuxFile (Ok [''1'', ''0'', ''1'']) (Ok [''3'', ''5'']) 3 2 = Ok ([1, 0, 1], [3, 5])"
    "cs_readAuxFile (Ok [''1'', ''0'', ''1'']) (Ok [''2'', ''5'']) 3 2 = Ok ([1, 0, 1], [2, 5])"
    by (simp_all add: cs_readAuxFile_def readAuxFiles_def readAuxFile_def numeral_3_eq_3 numeral_2_eq_2 scan_line_def
        Atoi_def max_int_def max_uint_def min_int_def)
  have ends: "\<exists>k. sum_list (map nat (take k [2, 1])) = length [1, 0, 1 :: int]"
    "\<exists>k. sum_list (map nat (take k [3, 5])) = length [1, 0, 1 :: int]"
    "\<not> (\<exists>k. sum_list (map nat (take k [2, 5])) = length [1, 0, 1 :: int])"
    by (auto simp: take_Cons' intro: exI [of _ 2] exI [of _ 1])
  show ?thesis
    using calypso_byzgen_runs [OF cal_client_law cal_client_up cs_darcs_up files(1), of 2 1]
      calypso_byzgen_runs [OF cal_client_law cal_client_up cs_darcs_up files(2), of 2 1]
      calypso_byzgen_runs [OF cal_client_law cal_client_up cs_darcs_up files(3), of 2 1] ends
    by simp
qed

text \<open>The ten writes before the rounds: when the ledger refuses them, the simulation does not return
  the error but dereferences a nil reply. (\<open>err\<close> of \<open>AddWrite\<close> is overwritten in that loop.)\<close>

lemma calypso_byzgen_refused_write_panics:
  assumes "\<And>wr sg d w led. \<exists>e led'. AddWrite C wr sg d w led = (Err e, led')"
    and "cs_readAuxFile file1 file2 numTransactions numBlocks = Ok (txnList, blkSizeList)"
    and "cs_setup A C writeID readID rand roster blockInterval 3 led = (Ok (lts, writer, reader, darc), led1)"
  shows "fst (cs_runByzgenSimulation A L C writeID readID rand file1 file2 roster blockInterval numTransactions
      numBlocks numWrite numRead rounds led) = Panic NilDereference"
proof -
  let ?f = "\<lambda>i led. case AddWrite C (cs_write A C rand lts darc i) writer darc (row_wait FIXED_COUNT 3 i) led of
         (Ok t, led') \<Rightarrow> (Ok (Some t), led')
       | (Err e, led') \<Rightarrow> (Ok None, led')
       | (Panic p, led') \<Rightarrow> (Panic p, led')"
  have "\<exists>led'. mapS ?f is led = (Ok (map (\<lambda>_. None) is), led')" for "is" led
  proof (induction "is" arbitrary: led)
    case (Cons i "is")
    obtain e led1 where "AddWrite C (cs_write A C rand lts darc i) writer darc (row_wait FIXED_COUNT 3 i) led =
        (Err e, led1)" using assms(1) by blast
    with Cons.IH [of led1] show ?case by auto
  qed simp
  then obtain led2 where "cs_fixed_row C (cs_write A C rand lts darc) writer darc led1 =
      (Ok (map (\<lambda>_. None) [0..<FIXED_COUNT]), led2)"
    unfolding cs_fixed_row_def by blast
  moreover have "[0..<FIXED_COUNT] = 0 # [1..<FIXED_COUNT]" by (simp add: FIXED_COUNT_def upt_rec)
  ultimately show ?thesis
    using assms(2,3) by (simp add: cs_runByzgenSimulation_def txn_proof_def deref_def)
qed

end
