(* ===== verification/Tournament.thy ===== *)
theory Tournament
  imports Xor_Bytes "HOL-Library.Log_Nat"
begin

text \<open>
  The tournament lottery without its ledger: the choice of a winner in each pair
  (\<open>src/tournament_lottery/client/main.go\<close> and \<open>simulation/service.go\<close>) and \<open>OrganizeList\<close>
  (\<open>src/tournament_lottery/api.go\<close>), which records the winners of a round in the list of
  participants, with the abstract tournament they implement.
\<close>

section \<open>The winner of a pair\<close>

text \<open>\<open>result := make([]byte, 32)\<close>, \<open>SafeXORBytes(result, left[:], right[:])\<close> and
  \<open>int(result[31]) % 2\<close>; the two secrets are in arrays of their own.\<close>

definition xor_parity :: "bytes \<Rightarrow> bytes \<Rightarrow> nat go" where
  "xor_parity leftSecret rightSecret =
     (let (h, result) = make_slice ((\<lambda>_. [])(0 := leftSecret, 1 := rightSecret)) 2 32
      in bindG (SafeXORBytes h result \<lparr>sl_arr = 0, sl_off = 0, sl_len = length leftSecret\<rparr>
                  \<lparr>sl_arr = 1, sl_off = 0, sl_len = length rightSecret\<rparr>) (\<lambda>(_, h').
         bindG (slice_get h' result 31) (\<lambda>b. Ok (unat b mod 2))))"

text \<open>The loop over the pairs; \<open>H\<close> is \<open>sha256.Sum256\<close>.\<close>

function pair_winners :: "(bytes \<Rightarrow> bytes) \<Rightarrow> bytes list \<Rightarrow> bytes list \<Rightarrow> nat \<Rightarrow> nat \<Rightarrow> nat list go" where
  "pair_winners H revealedSecretList revealedCommitList numLeft i =
     (if i < numLeft then
        bindG (index_go revealedSecretList i) (\<lambda>leftSecret.
        bindG (index_go revealedSecretList (i + 1)) (\<lambda>rightSecret.
        bindG (index_go revealedCommitList i) (\<lambda>leftCommit.
        bindG (if Compare (H leftSecret) leftCommit \<noteq> 0 then Ok (i + 1)
               else bindG (index_go revealedCommitList (i + 1)) (\<lambda>rightCommit.
                    if Compare (H rightSecret) rightCommit \<noteq> 0 then Ok i
                    else bindG (xor_parity leftSecret rightSecret) (\<lambda>lastDigit.
                         Ok (if lastDigit = 0 then i else i + 1)))) (\<lambda>winner.
        bindG (pair_winners H revealedSecretList revealedCommitList numLeft (i + 2)) (\<lambda>ws.
        Ok (winner # ws))))))
      else Ok [])"
  by auto
termination by (relation "measure (\<lambda>(H, s, c, n, i). n - i)") auto

declare pair_winners.simps [simp del]

section \<open>\<open>OrganizeList\<close>\<close>

function organize_loop :: "int list \<Rightarrow> nat list \<Rightarrow> nat \<Rightarrow> nat \<Rightarrow> nat \<Rightarrow> int list" where
  "organize_loop participantList winnerList plIdx wlIdx foundCnt =
     (if plIdx < length participantList \<and> wlIdx < length winnerList then
        if participantList ! plIdx = 1 then
          if foundCnt < winnerList ! wlIdx then
            organize_loop (participantList[plIdx := 0]) winnerList (plIdx + 1) wlIdx (foundCnt + 1)
          else if foundCnt = winnerList ! wlIdx then
            organize_loop participantList winnerList (plIdx + 1) (wlIdx + 1) (foundCnt + 1)
          else organize_loop participantList winnerList (plIdx + 1) wlIdx (foundCnt + 1)
        else organize_loop participantList winnerList (plIdx + 1) wlIdx foundCnt
      else participantList)"
  by auto
termination by (relation "measure (\<lambda>(pl, wl, i, j, f). length pl - i)") auto

declare organize_loop.simps [simp del]

definition OrganizeList :: "int list \<Rightarrow> nat list \<Rightarrow> int list" where
  "OrganizeList participantList winnerList = organize_loop participantList winnerList 0 0 0"

text \<open>The loop that reports the winner: the first participant still marked.\<close>

fun find_winner :: "int list \<Rightarrow> nat \<Rightarrow> nat option" where
  "find_winner [] i = None"
| "find_winner (v # pl) i = (if v = 1 then Some i else find_winner pl (i + 1))"

section \<open>What \<open>OrganizeList\<close> does to the marked participants\<close>

text \<open>The loop on the lists that are left, without indices.\<close>

fun organize :: "int list \<Rightarrow> nat list \<Rightarrow> nat \<Rightarrow> int list" where
  "organize [] wl f = []"
| "organize (v # pl) [] f = v # pl"
| "organize (v # pl) (w # wl) f =
     (if v = 1 then
        if f < w then 0 # organize pl (w # wl) (f + 1)
        else if f = w then v # organize pl wl (f + 1)
        else v # organize pl (w # wl) (f + 1)
      else v # organize pl (w # wl) f)"

lemma organize_Nil [simp]: "organize pl [] f = pl"
  by (cases pl) auto

lemma organize_loop_organize:
  "organize_loop (pre @ pl) (won @ wl) (length pre) (length won) f = pre @ organize pl wl f"
proof (induction pl wl f arbitrary: pre won rule: organize.induct)
  case (1 wl f)
  then show ?case by (subst organize_loop.simps) simp
next
  case (2 v pl f)
  then show ?case by (subst organize_loop.simps) simp
next
  case (3 v pl w wl f)
  show ?case
    using "3.IH"(1) [of "pre @ [0]" won] "3.IH"(2) [of "pre @ [v]" "won @ [w]"]
      "3.IH"(3) [of "pre @ [v]" won] "3.IH"(4) [of "pre @ [v]" won]
    by (subst organize_loop.simps) (auto simp: nth_append)
qed

lemma OrganizeList_organize: "OrganizeList pl wl = organize pl wl 0"
  using organize_loop_organize [of "[]" pl "[]" wl 0] by (simp add: OrganizeList_def)

lemma length_organize [simp]: "length (organize pl wl f) = length pl"
  by (induction pl wl f rule: organize.induct) auto

text \<open>The positions of the marked participants.\<close>

fun marked :: "nat \<Rightarrow> int list \<Rightarrow> nat list" where
  "marked k [] = []"
| "marked k (v # pl) = (if v = 1 then k # marked (k + 1) pl else marked (k + 1) pl)"

lemma marked_bounds: "p \<in> set (marked k pl) \<Longrightarrow> k \<le> p \<and> p < k + length pl"
proof (induction pl arbitrary: k)
  case (Cons v pl)
  from Cons.prems have "p = k \<or> p \<in> set (marked (k + 1) pl)" by (auto split: if_splits)
  with Cons.IH [of "k + 1"] show ?case by auto
qed simp

lemma marked_replicate: "marked k (replicate n 1) = [k..<k + n]"
  by (induction n arbitrary: k) (auto simp: upt_conv_Cons)

lemma find_winner_marked: "find_winner pl k = (case marked k pl of [] \<Rightarrow> None | p # _ \<Rightarrow> Some p)"
  by (induction pl arbitrary: k) auto

text \<open>The ranks in the winner list keep their mark, all other ranks up to the last winner lose it,
  and the ranks after the last winner are as before.\<close>

lemma marked_organize:
  assumes "sorted_wrt (<) wl" and "\<And>w. w \<in> set wl \<Longrightarrow> f \<le> w \<and> w - f < length (marked k pl)"
  shows "marked k (organize pl wl f) =
    map (\<lambda>w. marked k pl ! (w - f)) wl @
      (if wl = [] then marked k pl else drop (Suc (last wl) - f) (marked k pl))"
  using assms
proof (induction pl wl f arbitrary: k rule: organize.induct)
  case (1 wl f)
  then show ?case by (cases wl) auto
next
  case (3 v pl w wl f)
  consider "v \<noteq> 1" | "v = 1" "f < w" | "v = 1" "f = w"
    using "3.prems"(2) [of w] by fastforce
  then show ?case
  proof cases
    case 1
    with "3.IH"(4) [of "k + 1"] "3.prems" show ?thesis by simp
  next
    case 2
    have w: "Suc f \<le> w' \<and> w' - Suc f < length (marked (k + 1) pl)" if "w' \<in> set (w # wl)" for w'
      using that "3.prems"(1) "3.prems"(2) [of w'] 2 by auto
    have nth: "marked k (v # pl) ! (w' - f) = marked (k + 1) pl ! (w' - Suc f)" if "w' \<in> set (w # wl)" for w'
      using w [OF that] 2 by (simp add: Suc_diff_le [symmetric])
    have "last (w # wl) \<in> set (w # wl)" by (rule last_in_set) simp
    with w have l: "Suc f \<le> last (w # wl)" by blast
    have "marked k (organize (v # pl) (w # wl) f) = marked (k + 1) (organize pl (w # wl) (f + 1))"
      using 2 by simp
    also have "\<dots> = map (\<lambda>w'. marked (k + 1) pl ! (w' - Suc f)) (w # wl) @
        drop (Suc (last (w # wl)) - Suc f) (marked (k + 1) pl)"
      using "3.IH"(1) [of "k + 1"] "3.prems"(1) w 2 by simp
    also have "map (\<lambda>w'. marked (k + 1) pl ! (w' - Suc f)) (w # wl) =
        map (\<lambda>w'. marked k (v # pl) ! (w' - f)) (w # wl)"
      using nth by (intro map_cong) auto
    also have "drop (Suc (last (w # wl)) - Suc f) (marked (k + 1) pl) =
        drop (Suc (last (w # wl)) - f) (marked k (v # pl))"
      using l 2 by (simp add: Suc_diff_le)
    finally show ?thesis by simp
  next
    case 3
    have w: "Suc f \<le> w' \<and> w' - Suc f < length (marked (k + 1) pl)" if "w' \<in> set wl" for w'
      using that "3.prems"(1) "3.prems"(2) [of w'] 3 by auto
    have IH: "marked (k + 1) (organize pl wl (f + 1)) =
        map (\<lambda>w'. marked (k + 1) pl ! (w' - Suc f)) wl @
        (if wl = [] then marked (k + 1) pl else drop (Suc (last wl) - Suc f) (marked (k + 1) pl))"
      using "3.IH"(2) [of "k + 1"] "3.prems"(1) w 3 by simp
    have "marked (k + 1) pl ! (w' - Suc f) = marked k (v # pl) ! (w' - f)" if "w' \<in> set wl" for w'
      using w [OF that] 3(1) by (simp add: Suc_diff_le [symmetric])
    then have "map (\<lambda>w'. marked (k + 1) pl ! (w' - Suc f)) wl =
        map (\<lambda>w'. marked k (v # pl) ! (w' - f)) wl"
      by (intro map_cong) auto
    moreover have "drop (Suc (last wl) - Suc f) (marked (k + 1) pl) =
        drop (Suc (last wl) - f) (marked k (v # pl))" if "wl \<noteq> []"
      using w [of "last wl"] that by (simp add: Suc_diff_le 3)
    ultimately show ?thesis using IH 3 by simp
  qed
qed auto

lemma OrganizeList_winners:
  assumes "sorted_wrt (<) wl" and "wl \<noteq> []" and "\<And>w. w \<in> set wl \<Longrightarrow> w < m"
    and "m \<le> length (marked 0 pl)" and "alive = take m (marked 0 pl)"
  shows "take (length wl) (marked 0 (OrganizeList pl wl)) = map (\<lambda>w. alive ! w) wl"
proof -
  have "marked 0 (OrganizeList pl wl) = map (\<lambda>w. marked 0 pl ! w) wl @ drop (Suc (last wl)) (marked 0 pl)"
    using marked_organize [of wl 0 0 pl] assms by (force simp: OrganizeList_organize)
  moreover have "map (\<lambda>w. marked 0 pl ! w) wl = map (\<lambda>w. alive ! w) wl"
    using assms(3,5) by simp
  ultimately show ?thesis by simp
qed

section \<open>The winners of a round\<close>

text \<open>Who wins a pair: the one whose opponent did not reveal what it committed to (the left one is
  looked at first), else the parity of the last bytes decides.\<close>

definition right_wins :: "(bytes \<Rightarrow> bytes) \<Rightarrow> bytes \<Rightarrow> bytes \<Rightarrow> bytes \<Rightarrow> bytes \<Rightarrow> bool" where
  "right_wins H ls lc rs rc \<longleftrightarrow>
     H ls \<noteq> lc \<or> (H rs = rc \<and> odd (unat (ls ! 31 XOR rs ! 31)))"

lemma xor_parity_spec:
  assumes "length l = 32" and "length r = 32"
  shows "xor_parity l r = Ok (unat (l ! 31 XOR r ! 31) mod 2)"
proof -
  obtain h result where make: "make_slice ((\<lambda>_. [])(0 := l, 1 := r)) 2 32 = (h, result)"
    by (cases "make_slice ((\<lambda>_. [])(0 := l, 1 := r)) 2 32")
  let ?a = "\<lparr>sl_arr = 0, sl_off = 0, sl_len = length l\<rparr>" and ?b = "\<lparr>sl_arr = 1, sl_off = 0, sl_len = length r\<rparr>"
  from make have res: "slice_ok h result" "slice_ok h ?a" "slice_ok h ?b" "xor_apart result ?a"
    "xor_apart result ?b" "sl_len result = 32" "slice_bytes h ?a = l" "slice_bytes h ?b = r"
    by (auto simp: make_slice_def slice_ok_def xor_apart_def slice_bytes_def)
  from SafeXORBytes_spec [OF res(1-5)] res assms obtain h' n where
    "SafeXORBytes h result ?a ?b = Ok (n, h')"
    "slice_bytes h' result = xor_into (slice_bytes h result) l r"
    "\<And>k. length (h' k) = length (h k)" by auto
  moreover from this(3) res(1) have "slice_ok h' result" by (simp add: slice_ok_def)
  ultimately show ?thesis
    using res(6) assms by (simp add: xor_parity_def make slice_get_bytes xor_into_def nth_append
        del: One_nat_def)
qed

lemma pair_winners_spec:
  assumes "length ss = n" and "length cs = n" and "even n" and "even i"
    and "\<And>s. s \<in> set ss \<Longrightarrow> length s = 32"
  shows "pair_winners H ss cs n i =
    Ok (map (\<lambda>j. if right_wins H (ss ! (2*j)) (cs ! (2*j)) (ss ! (2*j + 1)) (cs ! (2*j + 1))
                  then 2*j + 1 else 2*j) [i div 2..<n div 2])"
  using assms(4)
proof (induction "n - i" arbitrary: i rule: less_induct)
  case less
  show ?case
  proof (cases "i < n")
    case True
    from less.prems obtain j where j: "i = 2 * j" by blast
    from assms(3) True j have "i + 1 < n" by (auto elim!: evenE)
    note i = True this
    have "length (ss ! i) = 32" "length (ss ! (i + 1)) = 32" using assms(1,5) i by auto
    note par = xor_parity_spec [OF this]
    have IH: "pair_winners H ss cs n (i + 2) =
        Ok (map (\<lambda>j. if right_wins H (ss ! (2*j)) (cs ! (2*j)) (ss ! (2*j + 1)) (cs ! (2*j + 1))
                  then 2*j + 1 else 2*j) [(i + 2) div 2..<n div 2])"
      using True less.prems by (intro less.hyps) auto
    have upt: "[j..<n div 2] = j # [Suc j..<n div 2]"
      using j i by (intro upt_conv_Cons) simp
    show ?thesis
      using i j assms(1,2) IH par upt
      by (subst pair_winners.simps)
        (auto simp: right_wins_def even_iff_mod_2_eq_zero odd_iff_mod_2_eq_one)
  next
    case False
    then show ?thesis by (subst pair_winners.simps) simp
  qed
qed

lemma pair_winners_odd_panics:
  assumes "length ss = n" and "length cs = n" and "odd n"
    and "\<And>s. s \<in> set ss \<Longrightarrow> length s = 32" and "even i" and "i \<le> n"
  shows "pair_winners H ss cs n i = Panic IndexOutOfRange"
  using assms(5,6)
proof (induction "n - i" arbitrary: i rule: less_induct)
  case less
  with assms(3) have i: "i < n" by (metis le_neq_implies_less)
  show ?case
  proof (cases "i + 1 < n")
    case True
    have "length (ss ! i) = 32" "length (ss ! (i + 1)) = 32" using assms(1,4) True by auto
    note par = xor_parity_spec [OF this]
    have IH: "pair_winners H ss cs n (i + 2) = Panic IndexOutOfRange"
      using less.prems True by (intro less.hyps) auto
    show ?thesis using i True assms(1,2) par IH by (subst pair_winners.simps) simp
  next
    case False
    with i assms(1) show ?thesis by (subst pair_winners.simps) simp
  qed
qed

end
