(* ===== verification/Lottery_Store.thy ===== *)
theory Lottery_Store
  imports Contract_Api
begin

text \<open>
  \<open>src/tournament_lottery/contracts.go\<close>: the contract that holds the commitments and the secrets of
  the tournament lottery. Instances can be spawned and never changed afterwards.
\<close>

definition ContractLotteryStoreID :: string where
  "ContractLotteryStoreID = ''tournamentLotteryStore''"

definition ContractLotteryStore ::
    "'view contract_env \<Rightarrow> 'view \<Rightarrow> Instruction \<Rightarrow> 'coin list \<Rightarrow> 'coin contract_reply" where
  "ContractLotteryStore E cdb inst c =
     (case VerifyDarcSignature E inst cdb of
        Panic p \<Rightarrow> Panic p
      | Err e \<Rightarrow> Ok ([], [], Some e)
      | Ok _ \<Rightarrow>
     (case GetValues E cdb (in_InstanceID inst) of
        Panic p \<Rightarrow> Panic p
      | Err e \<Rightarrow> Ok ([], [], Some e)
      | Ok (_, _, darcID) \<Rightarrow>
     (case GetType E inst of
        SpawnType \<Rightarrow>
          (case in_Spawn inst of
             None \<Rightarrow> Panic NilDereference
           | Some sp \<Rightarrow>
               if sp_ContractID sp = ContractLotteryStoreID then
                 let str = Args_Search E (sp_Args sp) ''store'' in
                 if str = [] then
                   Ok ([], [], Some (Error ''need a store request in 'store' argument''))
                 else
                   Ok ([NewStateChange Create (inst_DeriveID E inst []) ContractLotteryStoreID str darcID],
                       c, None)
               else Ok ([], [], Some (Error ''can only spawn store'')))
      | _ \<Rightarrow> Ok ([], [], Some (Error ''not a valid operation'')))))"

lemma ContractLotteryStore_Ok_iff:
  "ContractLotteryStore E v i c = Ok (scs, cOut, None) \<longleftrightarrow>
     VerifyDarcSignature E i v = Ok () \<and> cOut = c \<and> GetType E i = SpawnType \<and>
     (\<exists>val cid darcID sp. GetValues E v (in_InstanceID i) = Ok (val, cid, darcID) \<and>
        in_Spawn i = Some sp \<and> sp_ContractID sp = ContractLotteryStoreID \<and>
        Args_Search E (sp_Args sp) ''store'' \<noteq> [] \<and>
        scs = [NewStateChange Create (inst_DeriveID E i []) ContractLotteryStoreID
                 (Args_Search E (sp_Args sp) ''store'') darcID])"
  by (cases "VerifyDarcSignature E i v"; cases "GetValues E v (in_InstanceID i)"; cases "GetType E i")
    (auto simp: ContractLotteryStore_def Let_def split: option.splits if_splits)

interpretation ls: byzcoin_contract ContractLotteryStore ContractLotteryStoreID
proof (unfold_locales, goal_cases)
  case (1 E v p i c)
  then show ?case
    using contract_law_types [OF 1(1), of i]
    by (cases "VerifyDarcSignature E i v"; cases "GetValues E v (in_InstanceID i)"; cases "GetType E i")
      (auto simp: ContractLotteryStore_def Let_def split: option.splits if_splits)
next
  case (2 E v i c scs cOut e)
  then show ?case
    by (cases "VerifyDarcSignature E i v"; cases "GetValues E v (in_InstanceID i)"; cases "GetType E i")
      (auto simp: ContractLotteryStore_def Let_def split: option.splits if_splits)
next
  case (3 E v i c scs cOut)
  then show ?case by (auto simp: ContractLotteryStore_Ok_iff NewStateChange_def)
qed

text \<open>An instance that is there stays as it is, whatever the instruction.\<close>

lemma ls_exec_keeps:
  assumes "contract_law E" and "GetValues E v k = Ok x"
  shows "GetValues E (exec_contract ContractLotteryStore E ic v) k = Ok x"
proof (cases "\<exists>scs cOut. ContractLotteryStore E v (fst ic) (snd ic) = Ok (scs, cOut, None)")
  case True
  then obtain ch cOut where run: "ContractLotteryStore E v (fst ic) (snd ic) = Ok ([ch], cOut, None)"
    and "ch_Action ch = Create"
    by (auto simp: ContractLotteryStore_Ok_iff NewStateChange_def)
  with assms(2) have "k \<noteq> ch_InstanceID ch \<or> \<not> fits E ch v"
    by (auto simp: fits_def)
  with run assms show ?thesis
    using exec_contract_one [of ContractLotteryStore E v "fst ic" "snd ic" ch cOut] apply_change_other [OF assms(1)] by auto
next
  case False
  with assms(2) exec_contract_none [of ContractLotteryStore E v "fst ic" "snd ic"]
  show ?thesis by simp
qed

lemma ls_run_keeps:
  assumes "contract_law E" and "GetValues E v k = Ok x"
  shows "GetValues E (run_contract ContractLotteryStore E ics v) k = Ok x"
  using assms(2) by (induction ics arbitrary: v) (simp_all add: run_contract_def ls_exec_keeps [OF assms(1)])

lemma ls_exec_spawn:
  assumes E: "contract_law E"
    and i: "VerifyDarcSignature E i v = Ok ()"
      "in_Spawn i = Some \<lparr>sp_ContractID = ContractLotteryStoreID,
                          sp_Args = [\<lparr>arg_Name = ''store'', arg_Value = val\<rparr>]\<rparr>" "val \<noteq> []"
    and v: "GetValues E v (in_InstanceID i) = Ok (b, cid, d)"
      "\<not> is_ok (GetValues E v (inst_DeriveID E i []))"
  shows "GetValues E (exec_contract ContractLotteryStore E (i, c) v) (inst_DeriveID E i []) =
    Ok (val, ContractLotteryStoreID, d)"
proof -
  let ?ch = "NewStateChange Create (inst_DeriveID E i []) ContractLotteryStoreID val d"
  have "GetType E i = SpawnType" using contract_law_types(1) [OF E] i by simp
  with i v have "ContractLotteryStore E v i c = Ok ([?ch], c, None)"
    by (simp add: ContractLotteryStore_Ok_iff contract_law_Search [OF E])
  moreover have fits: "fits E ?ch v" by (simp add: fits_def NewStateChange_def v)
  ultimately show ?thesis
    using apply_change_self [OF E fits] by (simp add: exec_contract_one NewStateChange_def)
qed

section \<open>The store is write-once\<close>

text \<open>The lottery store is write-once: a spawn that its darc admits, with a non-empty value in
  its 'store' argument, creates an instance with exactly that value under the darc of the spawning
  instance, and whatever instructions the contract runs afterwards, the instance keeps it. A
  commitment can so not be changed after a secret has been seen.\<close>

lemma lottery_store_write_once:
  assumes "contract_law E" and "VerifyDarcSignature E i v = Ok ()"
    and "in_Spawn i = Some \<lparr>sp_ContractID = ContractLotteryStoreID,
                            sp_Args = [\<lparr>arg_Name = ''store'', arg_Value = val\<rparr>]\<rparr>" and "val \<noteq> []"
    and "GetValues E v (in_InstanceID i) = Ok (b, cid, d)"
    and "\<not> is_ok (GetValues E v (inst_DeriveID E i []))"
  shows "GetValues E (run_contract ContractLotteryStore E ((i, c) # ics) v) (inst_DeriveID E i []) =
    Ok (val, ContractLotteryStoreID, d)"
proof -
  have "run_contract ContractLotteryStore E ((i, c) # ics) v =
      run_contract ContractLotteryStore E ics (exec_contract ContractLotteryStore E (i, c) v)"
    by (simp add: run_contract_def)
  with ls_run_keeps [OF assms(1) ls_exec_spawn [OF assms]] show ?thesis by simp
qed

end
