(* ===== verification/Tournament_Run.thy ===== *)
theory Tournament_Run
  imports Tournament Lottery_Store
begin

text \<open>
  The tournament lottery on the ledger: \<open>src/tournament_lottery/api.go\<close> (the commit and secret
  transactions, the set-up of the ledger), the client \<open>client/main.go\<close> and the simulation
  \<open>simulation/service.go\<close>. In each round all participants that are left commit to a secret, the
  commits are proved to be in the ledger, then the secrets are revealed and proved, and the winner
  of each pair goes on.

  \<open>H\<close> is \<open>sha256.Sum256\<close>, the random draws and the nonces of a round are functions of the round and
  of the participant, and \<open>P\<close> is the protobuf encoding of a \<open>DataStore\<close>.
\<close>

section \<open>Data and transactions\<close>

record LotteryData =
  Secret :: bytes
  Digest :: bytes

record ('signer, 'darc) ByzcoinData =
  bd_Signer :: 'signer
  bd_GDarc :: 'darc

record ds_codec =
  encode_DataStore :: "bytes \<Rightarrow> bytes go"
  decode_DataStore :: "bytes \<Rightarrow> bytes go"

text \<open>Encoding succeeds and decoding inverts it.\<close>

definition ds_law :: "ds_codec \<Rightarrow> bool" where
  "ds_law P \<longleftrightarrow> (\<forall>d. \<exists>b. encode_DataStore P d = Ok b \<and> decode_DataStore P b = Ok d)"

definition CreateLotteryData :: "(bytes \<Rightarrow> bytes) \<Rightarrow> bytes \<Rightarrow> LotteryData" where
  "CreateLotteryData H draw = \<lparr>Secret = draw, Digest = H draw\<rparr>"

definition tl_SetupByzcoin ::
    "('darc, 'signer, 'rnd, 'si, 'gmsg, 'led) darc_api \<Rightarrow> 'rnd \<Rightarrow> 'si list \<Rightarrow> int
      \<Rightarrow> (('signer, 'darc) ByzcoinData \<times> 'led) go" where
  "tl_SetupByzcoin A rnd r blockInterval =
     bindG (setup_ledger A rnd r [''spawn:'' @ ContractLotteryStoreID] blockInterval)
       (\<lambda>(cl, signer, gDarc). Ok (\<lparr>bd_Signer = signer, bd_GDarc = gDarc\<rparr>, cl))"

text \<open>What the two transactions share; they differ in the data. A nil \<open>byzd\<close> is \<open>None\<close>.\<close>

definition add_store_transaction ::
    "('darc, 'signer, 'rnd, 'si, 'gmsg, 'led) darc_api \<Rightarrow> ('led, 'proof, 'signer, 'scid) ledger
      \<Rightarrow> ds_codec \<Rightarrow> ('signer, 'darc) ByzcoinData option \<Rightarrow> bytes \<Rightarrow> bytes \<Rightarrow> int \<Rightarrow> 'led
      \<Rightarrow> bytes go \<times> 'led" where
  "add_store_transaction A L P byzd nonce data wait led =
     bindS (encode_DataStore P data, led) (\<lambda>buf led.
     case byzd of
       None \<Rightarrow> (Panic NilDereference, led)
     | Some bd \<Rightarrow>
     bindS (SignInstruction L (GetBaseID A (bd_GDarc bd)) (bd_Signer bd)
              (spawn_instruction (NewInstanceID L (GetBaseID A (bd_GDarc bd))) nonce
                 ContractLotteryStoreID ''store'' buf), led) (\<lambda>ins led.
     bindS (add_transaction L ins wait led) (\<lambda>_ led.
     (Ok (DeriveID L ins []), led))))"

definition AddSecretTransaction ::
    "('darc, 'signer, 'rnd, 'si, 'gmsg, 'led) darc_api \<Rightarrow> ('led, 'proof, 'signer, 'scid) ledger
      \<Rightarrow> ds_codec \<Rightarrow> ('signer, 'darc) ByzcoinData option \<Rightarrow> bytes \<Rightarrow> LotteryData \<Rightarrow> int \<Rightarrow> 'led
      \<Rightarrow> bytes go \<times> 'led" where
  "AddSecretTransaction A L P byzd nonce ld wait led =
     add_store_transaction A L P byzd nonce (Secret ld) wait led"

definition AddCommitTransaction ::
    "('darc, 'signer, 'rnd, 'si, 'gmsg, 'led) darc_api \<Rightarrow> ('led, 'proof, 'signer, 'scid) ledger
      \<Rightarrow> ds_codec \<Rightarrow> ('signer, 'darc) ByzcoinData option \<Rightarrow> bytes \<Rightarrow> LotteryData \<Rightarrow> int \<Rightarrow> 'led
      \<Rightarrow> bytes go \<times> 'led" where
  "AddCommitTransaction A L P byzd nonce ld wait led =
     add_store_transaction A L P byzd nonce (Digest ld) wait led"

definition tl_GetProof :: "('led, 'proof, 'signer, 'scid) ledger \<Rightarrow> bytes \<Rightarrow> 'led \<Rightarrow> 'proof go" where
  "tl_GetProof L iid led = GetProof L iid led"

section \<open>A round\<close>

text \<open>The value of an instance, decoded, with the error text of the source.\<close>

definition revealed ::
    "('led, 'proof, 'signer, 'scid) ledger \<Rightarrow> ds_codec \<Rightarrow> string \<Rightarrow> 'proof \<Rightarrow> bytes go" where
  "revealed L P msg p =
     map_err (\<lambda>e. Error (msg @ err_msg e))
       (bindG (ContractValue L p ContractLotteryStoreID) (decode_DataStore P))"

record tl_random =
  draws :: "nat \<Rightarrow> bytes" \<comment> \<open>the secrets, by participant\<close>
  commitNonce :: "nat \<Rightarrow> bytes"
  secretNonce :: "nat \<Rightarrow> bytes"

text \<open>
  One round up to the revealed lists: the commits, their proofs, the secrets, their proofs, and
  the values. Only the last transaction of a row is waited for, for \<open>w\<close> blocks.
\<close>

definition reveal_round ::
    "('darc, 'signer, 'rnd, 'si, 'gmsg, 'led) darc_api \<Rightarrow> ('led, 'proof, 'signer, 'scid) ledger
      \<Rightarrow> ds_codec \<Rightarrow> (bytes \<Rightarrow> bytes) \<Rightarrow> ('signer, 'darc) ByzcoinData option \<Rightarrow> int \<Rightarrow> tl_random \<Rightarrow> nat \<Rightarrow> 'led
      \<Rightarrow> (bytes list \<times> bytes list) go \<times> 'led" where
  "reveal_round A L P H byzd w rand numLeft led0 =
     (let lotteryData = map (\<lambda>i. CreateLotteryData H (draws rand i)) [0..<numLeft];
          wait = (\<lambda>i. if i = numLeft - 1 then w else 0)
      in
      bindS (mapS (\<lambda>i. AddCommitTransaction A L P byzd (commitNonce rand i) (lotteryData ! i) (wait i))
               [0..<numLeft] led0) (\<lambda>commitTxnList led1.
      bindS (mapG (\<lambda>t. matching_proof L ''Commit inclusion proof does not match'' t led1)
               commitTxnList, led1) (\<lambda>commitProofList led1.
      bindS (mapS (\<lambda>i. AddSecretTransaction A L P byzd (secretNonce rand i) (lotteryData ! i) (wait i))
               [0..<numLeft] led1) (\<lambda>secretTxnList led2.
      bindS (mapG (\<lambda>t. matching_proof L ''Secret inclusion proof does not match'' t led2)
               secretTxnList, led2) (\<lambda>secretProofList led2.
      bindS (mapG (\<lambda>(cp, sp).
                bindG (revealed L P ''did not get a commit instance'' cp) (\<lambda>c.
                bindG (revealed L P ''did not get a secret instance'' sp) (\<lambda>s. Ok (s, c))))
               (zip commitProofList secretProofList), led2) (\<lambda>scs led2.
      (Ok (map fst scs, map snd scs), led2)))))))"

section \<open>The client\<close>

text \<open>\<open>int(math.Log2(float64(n)))\<close>: the logarithm rounded down; for zero, minus infinity, so that
  there are no rounds.\<close>

definition client_numRounds :: "nat \<Rightarrow> nat" where
  "client_numRounds n = floorlog 2 n - 1"

fun client_rounds ::
    "('darc, 'signer, 'rnd, 'si, 'gmsg, 'led) darc_api \<Rightarrow> ('led, 'proof, 'signer, 'scid) ledger
      \<Rightarrow> ds_codec \<Rightarrow> (bytes \<Rightarrow> bytes) \<Rightarrow> ('signer, 'darc) ByzcoinData option \<Rightarrow> (nat \<Rightarrow> tl_random)
      \<Rightarrow> nat \<Rightarrow> nat \<Rightarrow> int list \<Rightarrow> nat \<Rightarrow> 'led \<Rightarrow> int list go \<times> 'led" where
  "client_rounds A L P H byzd rand 0 i participantList numParticipantLeft led = (Ok participantList, led)"
| "client_rounds A L P H byzd rand (Suc k) i participantList numParticipantLeft led =
     bindS (reveal_round A L P H byzd 3 (rand i) numParticipantLeft led) (\<lambda>(secrets, commits) led.
     bindS (pair_winners H secrets commits numParticipantLeft 0, led) (\<lambda>winnerList led.
     client_rounds A L P H byzd rand k (i + 1) (OrganizeList participantList winnerList)
       (numParticipantLeft div 2) led))"

text \<open>The whole run; the result is the winner that is printed, if any.\<close>

definition runTournamentLottery ::
    "('darc, 'signer, 'rnd, 'si, 'gmsg, 'led) darc_api \<Rightarrow> ('led, 'proof, 'signer, 'scid) ledger
      \<Rightarrow> ds_codec \<Rightarrow> (bytes \<Rightarrow> bytes) \<Rightarrow> ('signer, 'darc) ByzcoinData option \<Rightarrow> (nat \<Rightarrow> tl_random)
      \<Rightarrow> nat \<Rightarrow> 'led \<Rightarrow> nat option go \<times> 'led" where
  "runTournamentLottery A L P H byzd rand numParticipant led =
     bindS (client_rounds A L P H byzd rand (client_numRounds numParticipant) 0
              (replicate numParticipant 1) numParticipant led) (\<lambda>participantList led.
     (Ok (find_winner participantList 0), led))"

section \<open>The simulation\<close>

text \<open>\<open>int(math.Ceil(math.Log2(float64(n))))\<close>.\<close>

definition sim_numRounds :: "nat \<Rightarrow> nat" where
  "sim_numRounds n = (if n = 0 then 0 else ceillog2 n)"

fun sim_rounds ::
    "('darc, 'signer, 'rnd, 'si, 'gmsg, 'led) darc_api \<Rightarrow> ('led, 'proof, 'signer, 'scid) ledger
      \<Rightarrow> ds_codec \<Rightarrow> (bytes \<Rightarrow> bytes) \<Rightarrow> ('signer, 'darc) ByzcoinData option \<Rightarrow> int \<Rightarrow> (nat \<Rightarrow> tl_random)
      \<Rightarrow> nat \<Rightarrow> nat \<Rightarrow> int list \<Rightarrow> nat \<Rightarrow> 'led \<Rightarrow> int list go \<times> 'led" where
  "sim_rounds A L P H byzd w rand 0 i participantList numLeft led = (Ok participantList, led)"
| "sim_rounds A L P H byzd w rand (Suc k) i participantList numLeft led =
     (let isOdd = (numLeft mod 2 \<noteq> 0);
          n = (if isOdd then numLeft - 1 else numLeft)
      in
      bindS (reveal_round A L P H byzd w (rand i) n led) (\<lambda>(secrets, commits) led.
      bindS (pair_winners H secrets commits n 0, led) (\<lambda>ws led.
      let winnerList = (if isOdd then ws @ [n] else ws);
          n' = (if isOdd then n + 1 else n)
      in sim_rounds A L P H byzd w rand k (i + 1) (OrganizeList participantList winnerList)
           ((n' + 1) div 2) led)))"

text \<open>One iteration of the loop over \<open>s.Rounds\<close>. The error of \<open>SetupByzcoin\<close> is not looked at: then
  \<open>byzd\<close> is nil, and there is no ledger to change.\<close>

definition sim_lottery ::
    "('darc, 'signer, 'rnd, 'si, 'gmsg, 'led) darc_api \<Rightarrow> ('led, 'proof, 'signer, 'scid) ledger
      \<Rightarrow> ds_codec \<Rightarrow> (bytes \<Rightarrow> bytes) \<Rightarrow> 'rnd \<Rightarrow> 'si list \<Rightarrow> int \<Rightarrow> int \<Rightarrow> (nat \<Rightarrow> tl_random)
      \<Rightarrow> nat \<Rightarrow> 'led \<Rightarrow> nat option go \<times> 'led" where
  "sim_lottery A L P H rnd roster blockInterval blockWait rand numTransactions led0 =
     (let lottery = (\<lambda>byzd led.
            bindS (sim_rounds A L P H byzd blockWait rand (sim_numRounds numTransactions) 0
                     (replicate numTransactions 1) numTransactions led) (\<lambda>participantList led.
            (Ok (find_winner participantList 0), led)))
      in case tl_SetupByzcoin A rnd roster blockInterval of
           Ok (bd, cl) \<Rightarrow> lottery (Some bd) cl
         | Err _ \<Rightarrow> lottery None led0
         | Panic p \<Rightarrow> (Panic p, led0))"

definition tournament_Run ::
    "('darc, 'signer, 'rnd, 'si, 'gmsg, 'led) darc_api \<Rightarrow> ('led, 'proof, 'signer, 'scid) ledger
      \<Rightarrow> ds_codec \<Rightarrow> (bytes \<Rightarrow> bytes) \<Rightarrow> (nat \<Rightarrow> 'rnd) \<Rightarrow> 'si list \<Rightarrow> int \<Rightarrow> int \<Rightarrow> (nat \<Rightarrow> nat \<Rightarrow> tl_random)
      \<Rightarrow> nat \<Rightarrow> nat \<Rightarrow> 'led \<Rightarrow> nat option list go \<times> 'led" where
  "tournament_Run A L P H rnd roster blockInterval blockWait rand rounds numTransactions =
     mapS (\<lambda>round. sim_lottery A L P H (rnd round) roster blockInterval blockWait (rand round)
                     numTransactions) [0..<rounds]"

section \<open>The rounds on a working ledger\<close>

lemma store_row:
  assumes "\<And>i. encode_DataStore P (data i) = Ok (buf i)"
    and "\<And>i. SignInstruction L (GetBaseID A (bd_GDarc bd)) (bd_Signer bd)
            (spawn_instruction (NewInstanceID L (GetBaseID A (bd_GDarc bd))) (nonce i)
               ContractLotteryStoreID ''store'' (buf i)) = Ok (ins i)"
  shows "mapS (\<lambda>i. add_store_transaction A L P (Some bd) (nonce i) (data i) (if i = n - 1 then w else 0))
      [k..<n] led =
    bindS (add_in_row L (map ins [k..<n]) w led)
      (\<lambda>_ led. (Ok (map (\<lambda>i. DeriveID L (ins i) []) [k..<n]), led))"
proof (induction "n - k" arbitrary: k led)
  case (Suc m)
  then have k: "k < n" "[k..<n] = k # [Suc k..<n]" and m: "m = n - Suc k"
    by (simp_all add: upt_conv_Cons)
  have w: "(if k = n - 1 then w else 0) = (if map ins [Suc k..<n] = [] then w else 0)"
    using k(1) by auto
  obtain r led1 where add: "add_transaction L (ins k) (if map ins [Suc k..<n] = [] then w else 0) led = (r, led1)"
    by (cases "add_transaction L (ins k) (if map ins [Suc k..<n] = [] then w else 0) led")
  show ?case
    unfolding k(2) mapS.simps list.map add_in_row.simps Suc.hyps(1) [OF m] w
    using add by (cases r; cases "add_in_row L (map ins [Suc k..<n]) w led1")
      (auto simp: add_store_transaction_def assms bindS_def split: go.splits)
qed simp

lemma add_in_row_up: "ledger_up L \<Longrightarrow> \<exists>led'. add_in_row L inss w led = (Ok (), led')"
proof (induction inss arbitrary: led)
  case (Cons ins inss)
  then show ?case
    using ledger_up_add [OF Cons.prems, of ins "if inss = [] then w else 0" led] by auto
qed simp

text \<open>A row of stores on a working ledger: every one is proved, and reveals what was stored.\<close>

lemma store_row_revealed:
  assumes L: "batch_law L" "ledger_up L" and P: "ds_law P" and w: "0 < w"
    and inj: "inj_on nonce {..<n}"
  shows "\<exists>ts led' ps. mapS (\<lambda>i. add_store_transaction A L P (Some bd) (nonce i) (data i)
        (if i = n - 1 then w else 0)) [0..<n] led = (Ok ts, led') \<and>
    mapG (\<lambda>t. matching_proof L msg t led') ts = Ok ps \<and> length ps = n \<and>
    (\<forall>i < n. \<forall>m. revealed L P m (ps ! i) = Ok (data i))"
proof -
  from P have "\<forall>i. \<exists>b. encode_DataStore P (data i) = Ok b \<and> decode_DataStore P b = Ok (data i)"
    by (simp add: ds_law_def)
  then obtain buf where buf: "\<And>i. encode_DataStore P (data i) = Ok (buf i)"
    "\<And>i. decode_DataStore P (buf i) = Ok (data i)"
    by (auto dest!: choice)
  let ?i = "\<lambda>i. spawn_instruction (NewInstanceID L (GetBaseID A (bd_GDarc bd))) (nonce i)
      ContractLotteryStoreID ''store'' (buf i)"
  have "\<forall>i. \<exists>x. SignInstruction L (GetBaseID A (bd_GDarc bd)) (bd_Signer bd) (?i i) = Ok x"
    using ledger_up_sign [OF L(2)] by blast
  then obtain ins where
    ins: "\<And>i. SignInstruction L (GetBaseID A (bd_GDarc bd)) (bd_Signer bd) (?i i) = Ok (ins i)"
    by (auto dest!: choice)
  let ?row = "map ins [0..<n]" and ?id = "\<lambda>i. DeriveID L (ins i) []"
  from add_in_row_up [OF L(2)] obtain led' where add: "add_in_row L ?row w led = (Ok (), led')" by blast
  have nonce: "in_Nonce (ins i) = nonce i" and spawn: "in_Spawn (ins i) = in_Spawn (?i i)" for i
    using batch_law_sign [OF L(1) ins] by (simp_all add: spawn_instruction_def)
  have "distinct (map in_Nonce ?row)"
    using inj by (auto simp: nonce distinct_map comp_def inj_on_def)
  note dist = batch_law_distinct [OF L(1) this]
  have "\<exists>p. matching_proof L msg (?id i) led' = Ok p \<and>
      ContractValue L p ContractLotteryStoreID = Ok (buf i)" if "i < n" for i
    using that by (intro batch_law_proof [OF L(1) w dist add]) (auto simp: spawn)
  then obtain pr where pr: "\<And>i. i < n \<Longrightarrow> matching_proof L msg (?id i) led' = Ok (pr i)"
    "\<And>i. i < n \<Longrightarrow> ContractValue L (pr i) ContractLotteryStoreID = Ok (buf i)"
    by metis
  have "list_all2 (\<lambda>t p. matching_proof L msg t led' = Ok p) (map ?id [0..<n]) (map pr [0..<n])"
    by (simp add: list_all2_conv_all_nth pr)
  moreover have "mapS (\<lambda>i. add_store_transaction A L P (Some bd) (nonce i) (data i)
        (if i = n - 1 then w else 0)) [0..<n] led = (Ok (map ?id [0..<n]), led')"
    by (simp add: store_row [OF buf(1) ins] add del: One_nat_def)
  ultimately show ?thesis
    by (intro exI [of _ "map ?id [0..<n]"] exI [of _ led'] exI [of _ "map pr [0..<n]"])
      (simp add: mapG_Ok_iff revealed_def pr buf del: One_nat_def)
qed

text \<open>The draws and the nonces of a run: 32-byte secrets, and no nonce twice in a row.\<close>

definition rand_ok :: "(nat \<Rightarrow> tl_random) \<Rightarrow> bool" where
  "rand_ok rand \<longleftrightarrow>
     (\<forall>r. inj (commitNonce (rand r)) \<and> inj (secretNonce (rand r)) \<and> (\<forall>i. length (draws (rand r) i) = 32))"

lemma reveal_round_ok:
  assumes "batch_law L" "ledger_up L" "ds_law P" "0 < w" "rand_ok rand"
  shows "\<exists>led'. reveal_round A L P H (Some bd) w (rand r) n led =
    (Ok (map (draws (rand r)) [0..<n], map (\<lambda>i. H (draws (rand r) i)) [0..<n]), led')"
proof -
  let ?d = "draws (rand r)"
  have inj: "inj_on (commitNonce (rand r)) {..<n}" "inj_on (secretNonce (rand r)) {..<n}"
    using assms(5) by (auto simp: rand_ok_def intro: inj_on_subset)
  let ?ld = "map (\<lambda>i. CreateLotteryData H (?d i)) [0..<n]"
  from store_row_revealed [OF assms(1-4) inj(1), of A bd "\<lambda>i. H (?d i)" led
      "''Commit inclusion proof does not match''"]
  obtain ts led1 ps where c: "mapS (\<lambda>i. add_store_transaction A L P (Some bd) (commitNonce (rand r) i)
        (H (?d i)) (if i = n - 1 then w else 0)) [0..<n] led = (Ok ts, led1)"
    "mapG (\<lambda>t. matching_proof L ''Commit inclusion proof does not match'' t led1) ts = Ok ps"
    "length ps = n" "\<And>i m. i < n \<Longrightarrow> revealed L P m (ps ! i) = Ok (H (?d i))" by blast
  from store_row_revealed [OF assms(1-4) inj(2), of A bd ?d led1
      "''Secret inclusion proof does not match''"]
  obtain us led2 qs where s: "mapS (\<lambda>i. add_store_transaction A L P (Some bd) (secretNonce (rand r) i)
        (?d i) (if i = n - 1 then w else 0)) [0..<n] led1 = (Ok us, led2)"
    "mapG (\<lambda>t. matching_proof L ''Secret inclusion proof does not match'' t led2) us = Ok qs"
    "length qs = n" "\<And>i m. i < n \<Longrightarrow> revealed L P m (qs ! i) = Ok (?d i)" by blast
  have "mapG (\<lambda>(cp, sp). bindG (revealed L P ''did not get a commit instance'' cp) (\<lambda>c.
        bindG (revealed L P ''did not get a secret instance'' sp) (\<lambda>s. Ok (s, c)))) (zip ps qs) =
      Ok (map (\<lambda>i. (?d i, H (?d i))) [0..<n])"
    using c(3,4) s(3,4) by (simp add: mapG_Ok_iff list_all2_conv_all_nth)
  moreover have "mapS (\<lambda>i. AddCommitTransaction A L P (Some bd) (commitNonce (rand r) i) (?ld ! i)
      (if i = n - 1 then w else 0)) [0..<n] led = (Ok ts, led1)"
    unfolding c(1) [symmetric]
    by (rule mapS_cong) (simp_all add: AddCommitTransaction_def CreateLotteryData_def)
  moreover have "mapS (\<lambda>i. AddSecretTransaction A L P (Some bd) (secretNonce (rand r) i) (?ld ! i)
      (if i = n - 1 then w else 0)) [0..<n] led1 = (Ok us, led2)"
    unfolding s(1) [symmetric]
    by (rule mapS_cong) (simp_all add: AddSecretTransaction_def CreateLotteryData_def)
  ultimately show ?thesis
    by (simp add: reveal_round_def Let_def c(2) s(2) comp_def del: One_nat_def)
qed

section \<open>The abstract tournament\<close>

text \<open>A round of a knock-out tournament: of each pair one player goes on, and with an odd number of
  players the last one goes on without playing.\<close>

definition tourney_round :: "(nat \<Rightarrow> bool) \<Rightarrow> 'a list \<Rightarrow> 'a list" where
  "tourney_round right al =
     map (\<lambda>j. al ! (if right j then 2 * j + 1 else 2 * j)) [0..<length al div 2] @
     (if odd (length al) then [last al] else [])"

text \<open>The right one of pair \<open>j\<close> wins when the last bytes of the two secrets differ in parity.\<close>

definition right_turn :: "tl_random \<Rightarrow> nat \<Rightarrow> bool" where
  "right_turn rand j \<longleftrightarrow> odd (unat (draws rand (2 * j) ! 31 XOR draws rand (2 * j + 1) ! 31))"

fun tourney :: "(nat \<Rightarrow> tl_random) \<Rightarrow> nat \<Rightarrow> nat \<Rightarrow> 'a list \<Rightarrow> 'a list" where
  "tourney rand 0 r al = al"
| "tourney rand (Suc k) r al = tourney rand k (r + 1) (tourney_round (right_turn (rand r)) al)"

lemma length_tourney_round [simp]: "length (tourney_round right al) = (length al + 1) div 2"
  by (simp add: tourney_round_def)

lemma set_tourney_round: "set (tourney_round right al) \<subseteq> set al"
proof
  fix x assume "x \<in> set (tourney_round right al)"
  then consider j where "j < length al div 2" "x = al ! (if right j then 2 * j + 1 else 2 * j)"
    | "odd (length al)" "x = last al"
    by (auto simp: tourney_round_def split: if_splits)
  then show "x \<in> set al"
    by cases (auto intro!: nth_mem last_in_set split: if_splits)
qed

lemma set_tourney: "set (tourney rand k r al) \<subseteq> set al"
proof (induction k arbitrary: r al)
  case (Suc k)
  then show ?case using set_tourney_round by (metis order_trans tourney.simps(2))
qed simp

lemma length_tourney: "1 \<le> length al \<Longrightarrow> length al \<le> 2 ^ k \<Longrightarrow> length (tourney rand k r al) = 1"
  by (induction k arbitrary: r al) auto

text \<open>The winner list of a round of honest participants.\<close>

definition honest_winners :: "tl_random \<Rightarrow> nat \<Rightarrow> nat list" where
  "honest_winners rand n = map (\<lambda>j. if right_turn rand j then 2 * j + 1 else 2 * j) [0..<n div 2]"

lemma honest_winners_sorted: "sorted_wrt (<) (honest_winners rand n)"
proof -
  have "sorted_wrt (<) [0..<n div 2]" by (rule sorted_wrt_upt)
  then show ?thesis
    unfolding honest_winners_def sorted_wrt_map by (rule sorted_wrt_mono_rel [rotated]) auto
qed

lemma honest_winners_less: "even n \<Longrightarrow> w \<in> set (honest_winners rand n) \<Longrightarrow> w < n"
  by (auto simp: honest_winners_def split: if_splits)

lemma round_played:
  assumes "batch_law L" "ledger_up L" "ds_law P" "0 < w" "rand_ok rand"
  shows "\<exists>led' ss cs. reveal_round A L P H (Some bd) w (rand r) n led = (Ok (ss, cs), led') \<and>
    pair_winners H ss cs n 0 =
      (if even n then Ok (honest_winners (rand r) n) else Panic IndexOutOfRange)"
proof -
  let ?ss = "map (draws (rand r)) [0..<n]" and ?cs = "map (\<lambda>i. H (draws (rand r) i)) [0..<n]"
  have l: "\<And>s. s \<in> set ?ss \<Longrightarrow> length s = 32" using assms(5) by (auto simp: rand_ok_def)
  have "pair_winners H ?ss ?cs n 0 = Ok (honest_winners (rand r) n)" if "even n"
  proof -
    have "right_wins H (?ss ! (2*j)) (?cs ! (2*j)) (?ss ! (2*j + 1)) (?cs ! (2*j + 1)) =
        right_turn (rand r) j" if "j < n div 2" for j
      using that by (auto simp: right_wins_def right_turn_def)
    with pair_winners_spec [of ?ss n ?cs 0 H] that l show ?thesis
      by (simp add: honest_winners_def cong: map_cong)
  qed
  moreover have "pair_winners H ?ss ?cs n 0 = Panic IndexOutOfRange" if "odd n"
    using pair_winners_odd_panics [of ?ss n ?cs 0 H] that l by simp
  ultimately show ?thesis using reveal_round_ok [OF assms, of A H bd r n led] by auto
qed

text \<open>Recording the winners: the first marked participants are those the tournament has left.\<close>

lemma OrganizeList_round:
  assumes "al = take m (marked 0 pl)" and "m \<le> length (marked 0 pl)" and "1 \<le> m"
    and "wl = honest_winners rand (m - m mod 2) @ (if odd m then [m - 1] else [])"
    and "pl' = OrganizeList pl wl"
  shows "take ((m + 1) div 2) (marked 0 pl') = tourney_round (right_turn rand) al \<and>
    (m + 1) div 2 \<le> length (marked 0 pl')"
proof -
  have m2: "even (m - m mod 2)" by simp
  have less: "v < m - m mod 2" if "v \<in> set (honest_winners rand (m - m mod 2))" for v
    using honest_winners_less [OF m2 that] .
  have "sorted_wrt (<) wl"
    using honest_winners_sorted [of rand "m - m mod 2"] less
    by (fastforce simp: assms(4) sorted_wrt_append odd_iff_mod_2_eq_one)
  moreover have "v < m" if "v \<in> set wl" for v
    using that less [of v] assms(3) by (auto simp: assms(4) split: if_splits)
  moreover have wl: "length wl = (m + 1) div 2"
    by (auto simp: assms(4) honest_winners_def elim!: oddE)
  moreover from wl assms(3) have "wl \<noteq> []" by (cases wl) auto
  ultimately have "take (length wl) (marked 0 pl') = map (\<lambda>v. al ! v) wl"
    using OrganizeList_winners [of wl m pl al] assms(1,2,5) by simp
  moreover have "map (\<lambda>v. al ! v) wl = tourney_round (right_turn rand) al"
  proof -
    have "length al = m" using assms(1,2) by simp
    moreover have "last al = al ! (m - 1)" using \<open>length al = m\<close> assms(3) by (metis last_conv_nth list.size(3) not_one_le_zero)
    moreover have "(m - m mod 2) div 2 = m div 2" by (cases "even m") (auto elim!: oddE)
    ultimately show ?thesis by (auto simp: tourney_round_def assms(4) honest_winners_def)
  qed
  moreover from calculation have "min (length (marked 0 pl')) (length wl) = length wl"
    by (metis length_map length_take)
  ultimately show ?thesis unfolding wl [symmetric] by (simp add: min_def split: if_splits)
qed

lemma sim_rounds_ok:
  assumes "batch_law L" "ledger_up L" "ds_law P" "0 < w" "rand_ok rand"
    and "al = take m (marked 0 pl)" "m \<le> length (marked 0 pl)" "1 \<le> m"
  shows "\<exists>pl' led'. sim_rounds A L P H (Some bd) w rand k i pl m led = (Ok pl', led') \<and>
    take (length (tourney rand k i al)) (marked 0 pl') = tourney rand k i al"
  using assms(6-8)
proof (induction k arbitrary: i pl m led al)
  case 0
  then show ?case by simp
next
  case (Suc k)
  let ?n = "m - m mod 2"
  let ?wl = "honest_winners (rand i) ?n @ (if odd m then [m - 1] else [])"
  have n: "(if m mod 2 \<noteq> 0 then m - 1 else m) = ?n" "even ?n"
    "(if m mod 2 \<noteq> 0 then ?n + 1 else ?n) = m"
    using Suc.prems(3) by (auto simp: odd_iff_mod_2_eq_one even_iff_mod_2_eq_zero)
  from round_played [OF assms(1-5), of A H bd i ?n led] n(2) obtain led1 ss cs where
    "reveal_round A L P H (Some bd) w (rand i) ?n led = (Ok (ss, cs), led1)"
    "pair_winners H ss cs ?n 0 = Ok (honest_winners (rand i) ?n)" by auto
  moreover have "(if m mod 2 \<noteq> 0 then honest_winners (rand i) ?n @ [?n] else honest_winners (rand i) ?n) = ?wl"
    by (auto simp: odd_iff_mod_2_eq_one even_iff_mod_2_eq_zero)
  ultimately have "sim_rounds A L P H (Some bd) w rand (Suc k) i pl m led =
      sim_rounds A L P H (Some bd) w rand k (i + 1) (OrganizeList pl ?wl) ((m + 1) div 2) led1"
    unfolding sim_rounds.simps Let_def n(1) bindS_simps by (simp only: bindS_simps split n(3))
  moreover have "take ((m + 1) div 2) (marked 0 (OrganizeList pl ?wl)) = tourney_round (right_turn (rand i)) al \<and>
      (m + 1) div 2 \<le> length (marked 0 (OrganizeList pl ?wl))"
    by (rule OrganizeList_round [OF Suc.prems refl refl])
  ultimately show ?case
    using Suc.IH [of "tourney_round (right_turn (rand i)) al" "(m + 1) div 2" "OrganizeList pl ?wl" "i + 1" led1]
      Suc.prems(3) by simp
qed

lemma client_rounds_ok:
  assumes "batch_law L" "ledger_up L" "ds_law P" "rand_ok rand"
    and "al = take (2 ^ k) (marked 0 pl)" "2 ^ k \<le> length (marked 0 pl)"
  shows "\<exists>pl' led'. client_rounds A L P H (Some bd) rand k i pl (2 ^ k) led = (Ok pl', led') \<and>
    take (length (tourney rand k i al)) (marked 0 pl') = tourney rand k i al"
  using assms(5,6)
proof (induction k arbitrary: i pl led al)
  case 0
  then show ?case by simp
next
  case (Suc k)
  let ?m = "2 ^ Suc k :: nat"
  let ?wl = "honest_winners (rand i) ?m"
  have m: "?m - ?m mod 2 = ?m" "(?m + 1) div 2 = 2 ^ k" "?m div 2 = 2 ^ k" "1 \<le> ?m" by simp_all
  from round_played [OF assms(1-3) _ assms(4), of 3 A H bd i ?m led] obtain led1 ss cs where
    "reveal_round A L P H (Some bd) 3 (rand i) ?m led = (Ok (ss, cs), led1)"
    "pair_winners H ss cs ?m 0 = Ok ?wl" by auto
  then have "client_rounds A L P H (Some bd) rand (Suc k) i pl ?m led =
      client_rounds A L P H (Some bd) rand k (i + 1) (OrganizeList pl ?wl) (2 ^ k) led1"
    unfolding client_rounds.simps by (simp only: bindS_simps split m(3))
  moreover have "take (2 ^ k) (marked 0 (OrganizeList pl ?wl)) = tourney_round (right_turn (rand i)) al \<and>
      2 ^ k \<le> length (marked 0 (OrganizeList pl ?wl))"
    using OrganizeList_round [OF Suc.prems m(4) refl refl, of "rand i"] unfolding m by simp
  ultimately show ?case
    using Suc.IH [of "tourney_round (right_turn (rand i)) al" "OrganizeList pl ?wl" "i + 1" led1] by simp
qed

text \<open>With a number of participants that is not a power of two, some round has an odd number of
  them, and the last one has no partner to index.\<close>

lemma client_rounds_panic:
  assumes "batch_law L" "ledger_up L" "ds_law P" "rand_ok rand"
    and "2 ^ k < m" "m < 2 ^ Suc k"
  shows "fst (client_rounds A L P H (Some bd) rand k i pl m led) = Panic IndexOutOfRange"
  using assms(5,6)
proof (induction k arbitrary: i pl m led)
  case (Suc k)
  from round_played [OF assms(1-3) _ assms(4), of 3 A H bd i m led] obtain led1 ss cs where
    r: "reveal_round A L P H (Some bd) 3 (rand i) m led = (Ok (ss, cs), led1)"
    "pair_winners H ss cs m 0 = (if even m then Ok (honest_winners (rand i) m) else Panic IndexOutOfRange)"
    by auto
  show ?case
  proof (cases "even m")
    case True
    then obtain q where q: "m = 2 * q" by blast
    with Suc.prems have "2 ^ k < q" "q < 2 ^ Suc k" by simp_all
    with Suc.IH [of q] r q show ?thesis by simp
  qed (simp add: r)
qed simp

section \<open>A concrete run for the witnesses\<close>

abbreviation tl_darcs :: "(bytes, unit, unit, unit, unit, Instruction list) darc_api" where
  "tl_darcs \<equiv>
     \<lparr>NewSignerEd25519 = (\<lambda>r. ()), NewDarc = (\<lambda>_ _ _. [4]), AddRule = (\<lambda>a s d. Ok d), ToProto = Ok,
      GetBaseID = (\<lambda>d. d), GetID = (\<lambda>d. d), ContractDarcID = ''darc'',
      DefaultGenesisMsg = (\<lambda>_ _ _. Ok ()), SetBlockInterval = (\<lambda>_ g. g), GenesisDarc = (\<lambda>_. [5]),
      NewLedger = (\<lambda>_. Ok [])\<rparr>"

abbreviation tl_ledger :: "(Instruction list, example_proof, unit, unit) ledger" where
  "tl_ledger \<equiv> example_ledger"

definition tl_codec :: ds_codec where
  "tl_codec = \<lparr>encode_DataStore = Ok, decode_DataStore = Ok\<rparr>"

definition tl_rand :: "nat \<Rightarrow> tl_random" where
  "tl_rand r = \<lparr>draws = (\<lambda>i. replicate 31 7 @ [word_of_nat i]), commitNonce = (\<lambda>i. replicate i 0),
     secretNonce = (\<lambda>i. replicate i 1)\<rparr>"

lemma tl_codec_law: "ds_law tl_codec"
  by (simp add: ds_law_def tl_codec_def)

lemma tl_rand_ok: "rand_ok tl_rand"
  by (auto simp: rand_ok_def tl_rand_def inj_on_def dest: arg_cong [of _ _ length])

lemma tl_setup: "tl_SetupByzcoin tl_darcs () [()] 5 = Ok (\<lparr>bd_Signer = (), bd_GDarc = [5]\<rparr>, [])"
  by (simp add: tl_SetupByzcoin_def setup_ledger_def Let_def)

lemma tl_right_turn: "right_turn (tl_rand r) 0 = True"
  by (simp add: right_turn_def tl_rand_def nth_append)

section \<open>Properties\<close>

text \<open>C19. The pairs of a round, whatever the participants revealed: for an even number of 32-byte
  secrets with their commits, the winner list has one winner for each pair, in order; a left
  participant whose secret does not hash to its commit loses, else a right one whose secret does
  not hash to its commit loses, else the right one wins exactly when the XOR of the last bytes is
  odd. For an odd number of participants the loop panics with an index out of range.\<close>

theorem tournament_pair_rules:
  assumes "length ss = n" and "length cs = n" and "\<And>s. s \<in> set ss \<Longrightarrow> length s = 32"
  shows "pair_winners H ss cs n 0 =
    (if odd n then Panic IndexOutOfRange
     else Ok (map (\<lambda>j. if H (ss ! (2*j)) \<noteq> cs ! (2*j) then 2*j + 1
                       else if H (ss ! (2*j + 1)) \<noteq> cs ! (2*j + 1) then 2*j
                       else if odd (unat (ss ! (2*j) ! 31 XOR ss ! (2*j + 1) ! 31)) then 2*j + 1
                       else 2*j) [0..<n div 2]))"
proof (cases "odd n")
  case True
  with pair_winners_odd_panics [OF assms(1,2), of 0 H] assms(3) show ?thesis by simp
next
  case False
  with pair_winners_spec [OF assms(1,2), of 0 H] assms(3) show ?thesis
    by (auto simp: right_wins_def)
qed

theorem tournament_pair_rules_witness:
  "pair_winners (\<lambda>s. s) [replicate 32 1, replicate 32 2, replicate 32 3, replicate 32 3]
     [replicate 32 1, replicate 32 2, replicate 32 9, replicate 32 3] 4 0 = Ok [1, 3]"
proof -
  have "[0..<4 div 2] = [0, 1 :: nat]" by (simp add: upt_rec)
  moreover have "replicate 32 (3 :: byte) \<noteq> replicate 32 9" by simp
  ultimately show ?thesis
    by (subst tournament_pair_rules) (auto simp del: replicate.simps)
qed

text \<open>C22. \<open>OrganizeList\<close> against a reference: for a strictly increasing list of winners, given as ranks
  among the marked participants, exactly the winners keep their mark up to the last winner, and
  the marks after it are as before.\<close>

theorem organize_list_correct:
  assumes "sorted_wrt (<) winners" and "\<And>w. w \<in> set winners \<Longrightarrow> w < length (marked 0 pl)"
  shows "marked 0 (OrganizeList pl winners) =
    map (\<lambda>w. marked 0 pl ! w) winners @
      (if winners = [] then marked 0 pl else drop (last winners + 1) (marked 0 pl)) \<and>
    length (OrganizeList pl winners) = length pl"
  using marked_organize [OF assms(1), of 0 0 pl] assms(2) by (simp add: OrganizeList_organize)

theorem organize_list_correct_witness:
  "marked 0 (OrganizeList [1, 0, 1, 1, 1, 1] [1, 2]) = [2, 3, 4, 5]"
  by (subst organize_list_correct [THEN conjunct1]) auto

text \<open>C11. The simulation runs a knock-out tournament: on a working ledger, for every number of
  participants from one on, odd numbers included, the run returns without an error, and the winner
  it reports is the one participant that the abstract tournament (with the parities of the drawn
  secrets) leaves after the logarithm, rounded up, of rounds. The marks that \<open>OrganizeList\<close> leaves
  behind after the last winner do not matter.\<close>

theorem tournament_simulation_winner:
  assumes "batch_law L" and "ledger_up L" and "ds_law P" and "rand_ok rand"
    and "0 < blockWait" and "1 \<le> n"
    and "tl_SetupByzcoin A rnd roster blockInterval = Ok (bd, cl)"
  shows "\<exists>winner < n. tourney rand (ceillog2 n) 0 [0..<n] = [winner] \<and>
    fst (sim_lottery A L P H rnd roster blockInterval blockWait rand n led) = Ok (Some winner)"
proof -
  let ?k = "ceillog2 n"
  have "length (tourney rand ?k 0 [0..<n]) = 1"
    by (rule length_tourney) (use assms(6) le_two_power_ceillog2 [of n] in auto)
  then obtain v where v: "tourney rand ?k 0 [0..<n] = [v]" by (auto simp: length_Suc_conv)
  with set_tourney [of rand ?k 0 "[0..<n]"] have "v < n" by auto
  have "marked 0 (replicate n 1) = [0..<n]" using marked_replicate [of 0 n] by simp
  with sim_rounds_ok [OF assms(1-3,5,4), of "[0..<n]" n "replicate n 1" A H bd ?k 0 cl] assms(6)
  obtain pl' led' where
    "sim_rounds A L P H (Some bd) blockWait rand ?k 0 (replicate n 1) n cl = (Ok pl', led')"
    "take 1 (marked 0 pl') = [v]" by (auto simp: v)
  moreover from this(2) have "find_winner pl' 0 = Some v"
    by (cases "marked 0 pl'") (auto simp: find_winner_marked)
  ultimately show ?thesis
    using assms(6,7) v \<open>v < n\<close> by (simp add: sim_lottery_def sim_numRounds_def)
qed

theorem tournament_simulation_winner_witness:
  "fst (sim_lottery tl_darcs tl_ledger tl_codec (\<lambda>s. s) () [()] 5 3 tl_rand 3 []) = Ok (Some 2)"
proof -
  have log: "ceillog2 3 = 2" by (rule ceillog2_eqI) simp_all
  have "tourney_round (right_turn (tl_rand r)) [a, b, c] = [b, c]"
    "tourney_round (right_turn (tl_rand r)) [a, b] = [b]" for r and a b c :: nat
    by (simp_all add: tourney_round_def tl_right_turn)
  then have "tourney tl_rand (Suc (Suc 0)) 0 [0, 1, 2 :: nat] = [2]"
    unfolding tourney.simps by simp
  moreover have "[0..<3] = [0, 1, 2 :: nat]" by (simp add: upt_conv_Cons)
  ultimately have "tourney tl_rand (Suc (Suc 0)) 0 [0..<3] = [2 :: nat]" by (simp only:)
  then have "tourney tl_rand 2 0 [0..<3] = [2 :: nat]" unfolding numeral_2_eq_2 .
  with log show ?thesis
    using tournament_simulation_winner [OF example_batch_law example_ledger_up tl_codec_law tl_rand_ok
        _ _ tl_setup, of 3 3 "\<lambda>s. s" "[]"] by simp
qed

text \<open>C20. The client completes exactly for powers of two: on a working ledger, with no participants it
  prints no winner; with \<open>2 ^ k\<close> participants it prints the winner of the abstract tournament of \<open>k\<close>
  rounds; with any other number some round is odd and it panics with an index out of range.\<close>

theorem tournament_client_powers_of_two:
  assumes "batch_law L" and "ledger_up L" and "ds_law P" and "rand_ok rand"
  shows "fst (runTournamentLottery A L P H (Some bd) rand n led) =
    (if n = 0 then Ok None
     else if n = 2 ^ client_numRounds n
     then Ok (Some (hd (tourney rand (client_numRounds n) 0 [0..<n])))
     else Panic IndexOutOfRange)"
proof -
  let ?k = "client_numRounds n"
  have marks: "marked 0 (replicate n 1) = [0..<n]" using marked_replicate [of 0 n] by simp
  consider "n = 0" | "n \<noteq> 0" "n = 2 ^ ?k" | "2 ^ ?k < n" "n < 2 ^ Suc ?k"
  proof (cases "n = 0")
    case False
    with floorlog_bounds [of n 2] floorlog_eq_zero_iff [of 2 n]
    have "2 ^ ?k \<le> n" "n < 2 ^ Suc ?k" by (auto simp: client_numRounds_def)
    with False that show ?thesis by linarith
  qed
  then show ?thesis
  proof cases
    case 1
    then show ?thesis by (simp add: runTournamentLottery_def client_numRounds_def floorlog_def)
  next
    case 2
    have len: "length (tourney rand ?k 0 [0..<n]) = 1"
      by (rule length_tourney) (use 2 in auto)
    from client_rounds_ok [OF assms, of "[0..<n]" ?k "replicate n 1" A H bd 0 led] marks 2
    obtain pl' led' where
      "client_rounds A L P H (Some bd) rand ?k 0 (replicate n 1) n led = (Ok pl', led')"
      "take 1 (marked 0 pl') = tourney rand ?k 0 [0..<n]" by (auto simp: len)
    moreover from this(2) len have "find_winner pl' 0 = Some (hd (tourney rand ?k 0 [0..<n]))"
      by (cases "marked 0 pl'") (auto simp: find_winner_marked dest: arg_cong [of _ _ hd])
    ultimately show ?thesis using 2 by (simp add: runTournamentLottery_def)
  next
    case 3
    then have "fst (client_rounds A L P H (Some bd) rand ?k 0 (replicate n 1) n led) = Panic IndexOutOfRange"
      by (rule client_rounds_panic [OF assms])
    with 3 show ?thesis
      by (cases "client_rounds A L P H (Some bd) rand ?k 0 (replicate n 1) n led")
        (simp add: runTournamentLottery_def)
  qed
qed

theorem tournament_client_powers_of_two_witness:
  "fst (runTournamentLottery tl_darcs tl_ledger tl_codec (\<lambda>s. s) (Some \<lparr>bd_Signer = (), bd_GDarc = [5]\<rparr>)
     tl_rand 6 []) = Panic IndexOutOfRange"
proof -
  have "client_numRounds 6 = 2"
    using compute_floorlog [of 2 6] compute_floorlog [of 2 3] compute_floorlog [of 2 1]
      compute_floorlog [of 2 0]
    by (simp add: client_numRounds_def)
  then show ?thesis
    by (subst tournament_client_powers_of_two [OF example_batch_law example_ledger_up tl_codec_law
          tl_rand_ok]) simp
qed

end
