(* ===== verification/Tree_Protocol.thy ===== *)
theory Tree_Protocol
  imports Go_Prelude
begin

text \<open>
  \<open>src/protocol/protocol.go\<close>, \<open>struct.go\<close>: the protocol that counts the nodes of a tree. An announce
  goes down the tree, and the counts come up as replies. onet delivers an announce to a node, and
  calls the aggregating handler \<open>HandleReply\<close> once all children of a node have replied; in which
  order this happens is up to the network. The runs are a step relation on the state of all nodes.
\<close>

section \<open>Trees and nodes\<close>

datatype rtree = RNode "rtree list"

primrec subs :: "rtree \<Rightarrow> rtree list" where
  "subs (RNode ts) = ts"

fun rsize :: "rtree \<Rightarrow> nat" where
  "rsize (RNode ts) = 1 + sum_list (map rsize ts)"

text \<open>A node is the path to it from the root; the children of \<open>p\<close> are \<open>p @ [i]\<close>.\<close>

type_synonym path = "nat list"

fun subtree :: "rtree \<Rightarrow> path \<Rightarrow> rtree option" where
  "subtree t [] = Some t"
| "subtree t (i # p) = (if i < length (subs t) then subtree (subs t ! i) p else None)"

definition children :: "rtree \<Rightarrow> path \<Rightarrow> path list" where
  "children t p = (case subtree t p of None \<Rightarrow> [] | Some u \<Rightarrow> map (\<lambda>i. p @ [i]) [0..<length (subs u)])"

definition IsLeaf :: "rtree \<Rightarrow> path \<Rightarrow> bool" where
  "IsLeaf t p = (children t p = [])"

definition IsRoot :: "path \<Rightarrow> bool" where
  "IsRoot p = (p = [])"

section \<open>The protocol\<close>

text \<open>What a node has done, or which message is on its way: an announce that was sent to it; it has
  passed the announce on and waits for its children; it has replied with a count. The root sends
  its count on the channel \<open>ChildCount\<close>, which is \<open>None\<close> until then.\<close>

datatype stage = Idle | Announced | Waiting | Replied int

record pstate =
  node_stage :: "path \<Rightarrow> stage"
  ChildCount :: "int option"

definition NewProtocol :: pstate where
  "NewProtocol = \<lparr>node_stage = (\<lambda>_. Idle), ChildCount = None\<rparr>"

definition HandleReply :: "path \<Rightarrow> int list \<Rightarrow> pstate \<Rightarrow> pstate" where
  "HandleReply p reply s =
     (let n = foldl (+) 1 reply;
          s' = s\<lparr>node_stage := (node_stage s)(p := Replied n)\<rparr>
      in if \<not> IsRoot p then s' else s'\<lparr>ChildCount := Some n\<rparr>)"

definition HandleAnnounce :: "rtree \<Rightarrow> path \<Rightarrow> pstate \<Rightarrow> pstate" where
  "HandleAnnounce t p s =
     (if \<not> IsLeaf t p then
        s\<lparr>node_stage := (\<lambda>q. if q \<in> set (children t p) then Announced
                             else if q = p then Waiting else node_stage s q)\<rparr>
      else HandleReply p [] s)"

definition Start :: "rtree \<Rightarrow> pstate" where
  "Start t = HandleAnnounce t [] NewProtocol"

definition reply_count :: "stage \<Rightarrow> int" where
  "reply_count x = (case x of Replied n \<Rightarrow> n | _ \<Rightarrow> 0)"

definition has_replied :: "stage \<Rightarrow> bool" where
  "has_replied x = (case x of Replied _ \<Rightarrow> True | _ \<Rightarrow> False)"

text \<open>What the network can do next: deliver an announce, or hand all replies of the children of a
  waiting node to it.\<close>

inductive net_step :: "rtree \<Rightarrow> pstate \<Rightarrow> pstate \<Rightarrow> bool" for t where
  announce: "node_stage s p = Announced \<Longrightarrow> net_step t s (HandleAnnounce t p s)"
| reply: "node_stage s p = Waiting \<Longrightarrow> \<forall>q \<in> set (children t p). has_replied (node_stage s q) \<Longrightarrow>
    net_step t s (HandleReply p (map (\<lambda>q. reply_count (node_stage s q)) (children t p)) s)"

inductive_cases net_stepE: "net_step t s s'"

section \<open>The nodes of a tree\<close>

definition nodes :: "rtree \<Rightarrow> path set" where
  "nodes t = {p. subtree t p \<noteq> None}"

lemma subtree_append: "subtree t (p @ q) = Option.bind (subtree t p) (\<lambda>u. subtree u q)"
  by (induction t p rule: subtree.induct) auto

lemma Nil_in_nodes [simp]: "[] \<in> nodes t"
  by (simp add: nodes_def)

lemma children_node: "q \<in> set (children t p) \<Longrightarrow> p \<in> nodes t \<and> q \<in> nodes t \<and> q \<noteq> [] \<and> butlast q = p"
  by (cases "subtree t p") (auto simp: children_def nodes_def subtree_append)

lemma node_child: "q \<in> nodes t \<Longrightarrow> q \<noteq> [] \<Longrightarrow> q \<in> set (children t (butlast q))"
proof -
  assume q: "q \<in> nodes t" "q \<noteq> []"
  then have "subtree t (butlast q @ [last q]) \<noteq> None" by (simp add: nodes_def)
  then obtain u where "subtree t (butlast q) = Some u" "last q < length (subs u)"
    by (auto simp: subtree_append split: if_splits bind_splits)
  moreover have "q = butlast q @ [last q]" using q(2) by simp
  ultimately show ?thesis by (force simp: children_def)
qed

lemma nodes_RNode: "nodes (RNode ts) = insert [] (\<Union>i < length ts. (Cons i) ` nodes (ts ! i))"
proof (rule set_eqI)
  fix p show "p \<in> nodes (RNode ts) \<longleftrightarrow> p \<in> insert [] (\<Union>i < length ts. (Cons i) ` nodes (ts ! i))"
    by (cases p) (auto simp: nodes_def)
qed

lemma finite_card_nodes: "finite (nodes t) \<and> card (nodes t) = rsize t"
proof (induction t rule: rsize.induct)
  case (1 ts)
  have IH: "finite (nodes (ts ! i))" "card (nodes (ts ! i)) = rsize (ts ! i)" if "i < length ts" for i
    using 1 that by auto
  have "card (\<Union>i < length ts. (Cons i) ` nodes (ts ! i)) = (\<Sum>i < length ts. card ((Cons i) ` nodes (ts ! i)))"
    by (rule card_UN_disjoint) (auto simp: IH)
  also have "\<dots> = (\<Sum>i < length ts. rsize (ts ! i))"
    by (rule sum.cong) (simp_all add: card_image IH)
  also have "\<dots> = sum_list (map rsize ts)"
    by (simp add: sum_list_sum_nth atLeast0LessThan)
  finally show ?case
    using IH by (auto simp: nodes_RNode card_insert_if)
qed

definition node_size :: "rtree \<Rightarrow> path \<Rightarrow> nat" where
  "node_size t p = (case subtree t p of None \<Rightarrow> 0 | Some u \<Rightarrow> rsize u)"

lemma node_size_children:
  "p \<in> nodes t \<Longrightarrow> node_size t p = 1 + sum_list (map (node_size t) (children t p))"
proof -
  assume "p \<in> nodes t"
  then obtain u where u: "subtree t p = Some u" by (auto simp: nodes_def)
  have "map (node_size t) (children t p) = map rsize (subs u)"
    using u by (auto simp: children_def node_size_def subtree_append comp_def intro: nth_equalityI)
  with u show ?thesis by (cases u) (simp add: node_size_def)
qed

lemma foldl_plus: "foldl (+) (a :: int) xs = a + sum_list xs"
  by (induction xs arbitrary: a) auto

lemma int_sum_list: "int (sum_list (map f xs)) = sum_list (map (\<lambda>x. int (f x)) xs)"
  by (induction xs) auto

section \<open>The invariant\<close>

text \<open>The counts that were sent are the sizes of the subtrees, a node has been sent the announce
  exactly when its parent has passed it on, a node that has replied has heard all its children,
  and the root has answered on the channel exactly when it has replied.\<close>

definition pinv :: "rtree \<Rightarrow> pstate \<Rightarrow> bool" where
  "pinv t s \<longleftrightarrow>
     (\<forall>p \<in> nodes t. \<forall>n. node_stage s p = Replied n \<longrightarrow> n = int (node_size t p)) \<and>
     (\<forall>p \<in> nodes t. \<forall>q \<in> set (children t p).
        node_stage s q = Idle \<longleftrightarrow> node_stage s p \<in> {Idle, Announced}) \<and>
     (\<forall>p. p \<notin> nodes t \<longrightarrow> node_stage s p = Idle) \<and>
     node_stage s [] \<noteq> Idle \<and>
     ChildCount s = (case node_stage s [] of Replied n \<Rightarrow> Some n | _ \<Rightarrow> None)"

lemma pinv_Replied: "pinv t s \<Longrightarrow> p \<in> nodes t \<Longrightarrow> node_stage s p = Replied n \<Longrightarrow> n = int (node_size t p)"
  by (simp add: pinv_def)

lemma pinv_child:
  "pinv t s \<Longrightarrow> q \<in> set (children t p) \<Longrightarrow> node_stage s q = Idle \<longleftrightarrow> node_stage s p \<in> {Idle, Announced}"
  using children_node [of q t p] unfolding pinv_def by blast

lemma pinv_node: "pinv t s \<Longrightarrow> node_stage s p \<noteq> Idle \<Longrightarrow> p \<in> nodes t"
  unfolding pinv_def by blast

lemma pinv_root:
  "pinv t s \<Longrightarrow> node_stage s [] \<noteq> Idle"
  "pinv t s \<Longrightarrow> ChildCount s = (case node_stage s [] of Replied n \<Rightarrow> Some n | _ \<Rightarrow> None)"
  unfolding pinv_def by blast+

lemma HandleReply_stage:
  "node_stage (HandleReply p reply s) = (node_stage s)(p := Replied (1 + sum_list reply))"
  "ChildCount (HandleReply p reply s) = (if p = [] then Some (1 + sum_list reply) else ChildCount s)"
  by (simp_all add: HandleReply_def Let_def IsRoot_def foldl_plus)

lemma pinv_HandleReply:
  assumes inv: "pinv t s" and p: "node_stage s p \<noteq> Idle" "children t p = [] \<or> node_stage s p = Waiting"
    and n: "1 + sum_list reply = int (node_size t p)"
  shows "pinv t (HandleReply p reply s)"
  unfolding pinv_def HandleReply_stage n
proof (intro conjI ballI allI impI)
  fix q m assume "q \<in> nodes t" "((node_stage s)(p := Replied (int (node_size t p)))) q = Replied m"
  with pinv_Replied [OF inv] show "m = int (node_size t q)" by (auto split: if_splits)
next
  fix q r assume q: "q \<in> nodes t" "r \<in> set (children t q)"
  let ?st = "(node_stage s)(p := Replied (int (node_size t p)))"
  from children_node [OF q(2)] have "r \<noteq> q" by (metis append_butlast_last_id not_Cons_self2 self_append_conv)
  with q p pinv_child [OF inv q(2)] show "?st r = Idle \<longleftrightarrow> ?st q \<in> {Idle, Announced}" by auto
next
  fix q assume "q \<notin> nodes t"
  with pinv_node [OF inv] p(1) show "((node_stage s)(p := Replied (int (node_size t p)))) q = Idle" by auto
qed (use pinv_root [OF inv] in auto)

lemma pinv_HandleAnnounce:
  assumes inv: "pinv t s" and p: "node_stage s p = Announced"
  shows "pinv t (HandleAnnounce t p s)"
proof (cases "IsLeaf t p")
  case True
  from pinv_node [OF inv] p have "p \<in> nodes t" by simp
  with node_size_children [of p t] True have "node_size t p = 1" by (simp add: IsLeaf_def)
  with pinv_HandleReply [OF inv, of p "[]"] p True show ?thesis
    by (simp add: HandleAnnounce_def IsLeaf_def)
next
  case False
  let ?C = "set (children t p)"
  let ?st = "\<lambda>q. if q \<in> ?C then Announced else if q = p then Waiting else node_stage s q"
  have pC: "p \<notin> ?C" using children_node [of p t p] by (metis append_butlast_last_id not_Cons_self2 self_append_conv)
  have idle: "node_stage s q = Idle" if "q \<in> ?C" for q using pinv_child [OF inv that] p by simp
  have upd: "node_stage (s\<lparr>node_stage := f\<rparr>) = f" "ChildCount (s\<lparr>node_stage := f\<rparr>) = ChildCount s" for f
    by simp_all
  have "pinv t (s\<lparr>node_stage := ?st\<rparr>)"
    unfolding pinv_def upd
  proof (intro conjI ballI allI impI)
    fix q m assume "q \<in> nodes t" "?st q = Replied m"
    with pinv_Replied [OF inv] show "m = int (node_size t q)" by (auto split: if_splits)
  next
    fix q r assume q: "q \<in> nodes t" "r \<in> set (children t q)"
    note rq = children_node [OF q(2)]
    show "?st r = Idle \<longleftrightarrow> ?st q \<in> {Idle, Announced}"
    proof (cases "r \<in> ?C")
      case True
      with rq children_node [OF True] have "q = p" by simp
      with True pC show ?thesis by simp
    next
      case rC: False
      with q(2) have "q \<noteq> p" by auto
      show ?thesis
      proof (cases "q \<in> ?C")
        case True
        with idle pinv_child [OF inv q(2)] rC p show ?thesis by auto
      next
        case False
        with \<open>q \<noteq> p\<close> rC pinv_child [OF inv q(2)] p show ?thesis by auto
      qed
    qed
  next
    fix q assume "q \<notin> nodes t"
    with pinv_node [OF inv, of q] pinv_node [OF inv, of p] children_node [of q t p] p
    show "?st q = Idle" by auto
  next
    show "(if [] \<in> ?C then Announced else if [] = p then Waiting else node_stage s []) \<noteq> Idle"
      using pinv_root(1) [OF inv] children_node [of "[]" t p] by auto
  next
    show "ChildCount s = (case ?st [] of Replied n \<Rightarrow> Some n | _ \<Rightarrow> None)"
      using pinv_root(2) [OF inv] children_node [of "[]" t p] p by (auto split: stage.split)
  qed
  with False show ?thesis by (simp add: HandleAnnounce_def)
qed

lemma pinv_reply_sum:
  assumes "pinv t s" and "node_stage s p = Waiting" and "\<forall>q \<in> set (children t p). has_replied (node_stage s q)"
  shows "1 + sum_list (map (\<lambda>q. reply_count (node_stage s q)) (children t p)) = int (node_size t p)"
proof -
  have "reply_count (node_stage s q) = int (node_size t q)" if "q \<in> set (children t p)" for q
    using assms(3) that children_node [OF that] pinv_Replied [OF assms(1)]
    by (auto simp: has_replied_def reply_count_def split: stage.splits)
  then have "sum_list (map (\<lambda>q. reply_count (node_stage s q)) (children t p)) =
      sum_list (map (\<lambda>q. int (node_size t q)) (children t p))"
    by (simp cong: map_cong)
  moreover have "p \<in> nodes t" using pinv_node [OF assms(1)] assms(2) by simp
  ultimately show ?thesis
    by (simp add: node_size_children int_sum_list)
qed

lemma pinv_step: "pinv t s \<Longrightarrow> net_step t s s' \<Longrightarrow> pinv t s'"
  by (erule net_stepE) (auto intro!: pinv_HandleAnnounce pinv_HandleReply pinv_reply_sum)

text \<open>\<open>Start\<close> is the delivery of an announce to the root.\<close>

definition announced_root :: pstate where
  "announced_root = \<lparr>node_stage = (\<lambda>_. Idle)([] := Announced), ChildCount = None\<rparr>"

lemma Start_announce: "Start t = HandleAnnounce t [] announced_root"
  using children_node [of "[]" t "[]"]
  by (auto simp: Start_def NewProtocol_def announced_root_def HandleAnnounce_def HandleReply_def Let_def
      IsRoot_def fun_eq_iff)

lemma pinv_announced_root: "pinv t announced_root"
  unfolding pinv_def announced_root_def using children_node by auto

lemma pinv_Start: "pinv t (Start t)"
  unfolding Start_announce by (rule pinv_HandleAnnounce [OF pinv_announced_root]) (simp add: announced_root_def)

lemma pinv_reachable: "(net_step t)\<^sup>*\<^sup>* (Start t) s \<Longrightarrow> pinv t s"
  by (induction rule: rtranclp_induct) (auto intro: pinv_Start pinv_step)

section \<open>Progress and termination\<close>

text \<open>A waiting node has a step below it, as long as no announce is on its way.\<close>

lemma waiting_progress:
  assumes "pinv t s" and "p \<in> nodes t" and "node_stage s p = Waiting"
  shows "\<exists>s'. net_step t s s'"
  using assms(2,3)
proof (induction "node_size t p" arbitrary: p rule: less_induct)
  case less
  show ?case
  proof (cases "\<forall>q \<in> set (children t p). has_replied (node_stage s q)")
    case True
    with less.prems show ?thesis using net_step.reply by blast
  next
    case False
    then obtain q where q: "q \<in> set (children t p)" "\<not> has_replied (node_stage s q)" by blast
    then have "node_stage s q = Announced \<or> node_stage s q = Waiting"
      using pinv_child [OF assms(1) q(1)] less.prems
      by (cases "node_stage s q") (auto simp: has_replied_def)
    moreover have "node_size t q < node_size t p"
    proof -
      have "node_size t q \<le> sum_list (map (node_size t) (children t p))"
        using q(1) by (intro member_le_sum_list) auto
      with node_size_children [OF less.prems(1)] show ?thesis by simp
    qed
    ultimately show ?thesis
      using less.hyps [of q] children_node [OF q(1)] net_step.announce by blast
  qed
qed

lemma stuck_is_done:
  assumes "pinv t s" and "\<And>s'. \<not> net_step t s s'"
  shows "ChildCount s = Some (int (rsize t))"
proof -
  have "node_stage s [] \<noteq> Announced" using assms(2) net_step.announce by blast
  moreover have "node_stage s [] \<noteq> Waiting"
    using assms(2) waiting_progress [OF assms(1) Nil_in_nodes] by blast
  ultimately obtain n where n: "node_stage s [] = Replied n"
    using pinv_root(1) [OF assms(1)] by (cases "node_stage s []") auto
  with pinv_Replied [OF assms(1) Nil_in_nodes] pinv_root(2) [OF assms(1)] show ?thesis
    by (simp add: node_size_def)
qed

text \<open>Every step uses up some of the work that is left.\<close>

definition stage_work :: "stage \<Rightarrow> nat" where
  "stage_work x = (case x of Idle \<Rightarrow> 3 | Announced \<Rightarrow> 2 | Waiting \<Rightarrow> 1 | Replied _ \<Rightarrow> 0)"

definition work :: "rtree \<Rightarrow> pstate \<Rightarrow> nat" where
  "work t s = (\<Sum>p \<in> nodes t. stage_work (node_stage s p))"

lemma work_less:
  assumes "p \<in> nodes t" and "stage_work (node_stage s' p) < stage_work (node_stage s p)"
    and "\<And>q. q \<in> nodes t \<Longrightarrow> stage_work (node_stage s' q) \<le> stage_work (node_stage s q)"
  shows "work t s' < work t s"
  unfolding work_def using finite_card_nodes assms by (intro sum_strict_mono_ex1) auto

lemma work_HandleReply:
  assumes "p \<in> nodes t" and "node_stage s p \<in> {Announced, Waiting}"
  shows "work t (HandleReply p reply s) < work t s"
  using assms by (intro work_less [of p]) (auto simp: HandleReply_stage stage_work_def)

lemma work_step:
  assumes inv: "pinv t s" and "net_step t s s'"
  shows "work t s' < work t s"
  using assms(2)
proof cases
  case (announce p)
  then have p: "p \<in> nodes t" using pinv_node [OF inv] by simp
  show ?thesis
  proof (cases "IsLeaf t p")
    case True
    with announce p work_HandleReply [of p t s "[]"] show ?thesis by (simp add: HandleAnnounce_def)
  next
    case False
    have "p \<notin> set (children t p)"
      using children_node [of p t p] by (metis append_butlast_last_id not_Cons_self2 self_append_conv)
    moreover have "node_stage s q = Idle" if "q \<in> set (children t p)" for q
      using pinv_child [OF inv that] announce(2) by simp
    ultimately show ?thesis
      unfolding announce(1) using p False announce(2)
      by (intro work_less [of p]) (auto simp: HandleAnnounce_def stage_work_def)
  qed
next
  case (reply p)
  then have "p \<in> nodes t" using pinv_node [OF inv] by simp
  with reply work_HandleReply show ?thesis by auto
qed

lemma work_run:
  assumes "pinv t s" and "(net_step t ^^ n) s s'"
  shows "n + work t s' \<le> work t s"
  using assms(2)
proof (induction n arbitrary: s')
  case (Suc n)
  then obtain s1 where s1: "(net_step t ^^ n) s s1" "net_step t s1 s'" by auto
  have "pinv t s1" using assms(1) s1(1)
    by (induction n arbitrary: s1) (auto intro: pinv_step)
  with Suc.IH [OF s1(1)] work_step [OF _ s1(2)] show ?case by fastforce
qed simp

lemma work_Start: "work t (Start t) < 3 * rsize t"
proof -
  have "work t (Start t) < work t announced_root"
    using work_step [OF pinv_announced_root net_step.announce [of announced_root "[]" t]]
    by (simp add: Start_announce) (simp add: announced_root_def)
  also have "\<dots> \<le> (\<Sum>p \<in> nodes t. 3)"
    unfolding work_def by (rule sum_mono) (auto simp: stage_work_def split: stage.split)
  also have "\<dots> = 3 * rsize t" using finite_card_nodes [of t] by simp
  finally show ?thesis .
qed

section \<open>An executable network\<close>

text \<open>The network that always takes the first node, in the order of a walk through the tree, that has
  something to do.\<close>

fun walk :: "nat \<Rightarrow> rtree \<Rightarrow> path \<Rightarrow> path list" where
  "walk 0 t p = []"
| "walk (Suc n) t p = p # concat (map (walk n t) (children t p))"

definition enabled :: "rtree \<Rightarrow> pstate \<Rightarrow> path \<Rightarrow> bool" where
  "enabled t s p \<longleftrightarrow> node_stage s p = Announced \<or>
     (node_stage s p = Waiting \<and> list_all (\<lambda>q. has_replied (node_stage s q)) (children t p))"

definition net_do :: "rtree \<Rightarrow> pstate \<Rightarrow> path \<Rightarrow> pstate" where
  "net_do t s p =
     (if node_stage s p = Announced then HandleAnnounce t p s
      else HandleReply p (map (\<lambda>q. reply_count (node_stage s q)) (children t p)) s)"

fun net_run :: "nat \<Rightarrow> rtree \<Rightarrow> pstate \<Rightarrow> pstate" where
  "net_run 0 t s = s"
| "net_run (Suc n) t s =
     (case find (enabled t s) (walk (rsize t) t []) of None \<Rightarrow> s | Some p \<Rightarrow> net_run n t (net_do t s p))"

lemma enabled_step: "enabled t s p \<Longrightarrow> net_step t s (net_do t s p)"
  by (auto simp: enabled_def net_do_def list_all_iff intro: net_step.intros)

lemma step_enabled: "net_step t s s' \<Longrightarrow> \<exists>p. enabled t s p"
  by (erule net_stepE) (auto simp: enabled_def list_all_iff)

lemma walk_complete:
  assumes "subtree t p = Some u" and "q \<in> nodes u" and "rsize u \<le> n"
  shows "p @ q \<in> set (walk n t p)"
  using assms
proof (induction q arbitrary: p u n)
  case Nil
  then show ?case by (cases n; cases u) auto
next
  case (Cons i q)
  from Cons.prems(2) have i: "i < length (subs u)" "q \<in> nodes (subs u ! i)"
    by (auto simp: nodes_def split: if_splits)
  have sub: "subtree t (p @ [i]) = Some (subs u ! i)"
    using Cons.prems(1) i by (simp add: subtree_append)
  have "rsize (subs u ! i) \<le> sum_list (map rsize (subs u))"
    using i by (intro member_le_sum_list) auto
  with Cons.prems(3) obtain m where m: "n = Suc m" "rsize (subs u ! i) \<le> m"
    by (cases n; cases u) auto
  have "(p @ [i]) @ q \<in> set (walk m t (p @ [i]))" by (rule Cons.IH [OF sub i(2) m(2)])
  moreover have "p @ [i] \<in> set (children t p)" using Cons.prems(1) i by (simp add: children_def)
  ultimately show ?case using m(1) by auto
qed

lemma net_run_steps:
  assumes "pinv t s" and "work t s \<le> n"
  shows "(net_step t)\<^sup>*\<^sup>* s (net_run n t s) \<and> (\<forall>s'. \<not> net_step t (net_run n t s) s')"
  using assms
proof (induction n arbitrary: s)
  case 0
  then have "\<not> net_step t s s'" for s' using work_step [OF 0(1), of s'] by auto
  then show ?case by simp
next
  case (Suc n)
  show ?case
  proof (cases "find (enabled t s) (walk (rsize t) t [])")
    case None
    have "\<not> net_step t s s'" for s'
    proof
      assume "net_step t s s'"
      then obtain p where p: "enabled t s p" using step_enabled by blast
      then have "p \<in> nodes t" using pinv_node [OF Suc.prems(1)] by (auto simp: enabled_def)
      then have "p \<in> set (walk (rsize t) t [])" using walk_complete [of t "[]" t p "rsize t"] by simp
      with None p show False by (auto simp: find_None_iff)
    qed
    with None show ?thesis by simp
  next
    case (Some p)
    then have "enabled t s p" by (auto simp: find_Some_iff)
    then have step: "net_step t s (net_do t s p)" by (rule enabled_step)
    with Suc.IH [OF pinv_step [OF Suc.prems(1) step]] work_step [OF Suc.prems(1) step] Suc.prems(2) Some
    show ?thesis by (auto intro: converse_rtranclp_into_rtranclp)
  qed
qed

end
