(* ===== verification/Template_Service.thy ===== *)
theory Template_Service
  imports Tree_Protocol Onet_Client
begin

text \<open>
  \<open>src/service/service.go\<close>: the service that runs the counting protocol and counts its calls, with
  its client \<open>src/api.go\<close>, and the simulation \<open>src/simulation/protocol.go\<close>. The tree that onet makes
  from a roster, the creation of a protocol, the storage of the context and the network are
  parameters (\<open>onet_env\<close>).
\<close>

section \<open>State and environment\<close>

text \<open>\<open>storage.Count\<close> is a 64-bit \<open>int\<close>; \<open>ts_disk\<close> is what the context stores.\<close>

record 'disk TService =
  ts_Count :: "64 word"
  ts_disk :: 'disk

text \<open>\<open>ctx_Load\<close> gives nil (\<open>None\<close>), data of another type (\<open>Some None\<close>) or a storage. \<open>net_final\<close> is the
  state in which the network leaves a protocol that was started.\<close>

record ('si, 'disk) onet_env =
  GenerateNaryTreeWithRoot :: "'si list \<Rightarrow> 'si \<Rightarrow> rtree option"
  CreateProtocol :: "rtree \<Rightarrow> unit go"
  ctx_Save :: "64 word \<Rightarrow> 'disk \<Rightarrow> unit go \<times> 'disk"
  ctx_Load :: "'disk \<Rightarrow> 64 word option option go"
  net_final :: "rtree \<Rightarrow> pstate \<Rightarrow> pstate"

text \<open>The network delivers until nothing is left to deliver.\<close>

definition net_complete :: "('si, 'disk) onet_env \<Rightarrow> bool" where
  "net_complete E \<longleftrightarrow>
     (\<forall>t. (net_step t)\<^sup>*\<^sup>* (Start t) (net_final E t (Start t)) \<and>
          (\<forall>s'. \<not> net_step t (net_final E t (Start t)) s'))"

text \<open>What was saved is loaded.\<close>

definition ctx_law :: "('si, 'disk) onet_env \<Rightarrow> bool" where
  "ctx_law E \<longleftrightarrow> (\<forall>c d. fst (ctx_Save E c d) = Ok () \<and> ctx_Load E (snd (ctx_Save E c d)) = Ok (Some (Some c)))"

section \<open>The handlers\<close>

text \<open>The error of \<open>Save\<close> is only logged.\<close>

definition ts_save :: "('si, 'disk) onet_env \<Rightarrow> 'disk TService \<Rightarrow> 'disk TService" where
  "ts_save E s = s\<lparr>ts_disk := snd (ctx_Save E (ts_Count s) (ts_disk s))\<rparr>"

text \<open>
  \<open>Clock\<close>; \<open>None\<close> is a call that never returns. The service calls \<open>pi.Start()\<close> itself and reads the
  channel afterwards. The channel has no buffer: when \<open>Start\<close> already sends on it, nobody can
  read and the call blocks; else it waits for what the network makes of the started protocol.
\<close>

definition Clock ::
    "('si, 'disk) onet_env \<Rightarrow> 'si \<Rightarrow> 'disk TService \<Rightarrow> 'si list \<Rightarrow> int go option \<times> 'disk TService" where
  "Clock E self s roster =
     (let s1 = ts_save E (s\<lparr>ts_Count := ts_Count s + 1\<rparr>) in
      case GenerateNaryTreeWithRoot E roster self of
        None \<Rightarrow> (Some (Err (Error ''couldn't create tree'')), s1)
      | Some tree \<Rightarrow>
      (case CreateProtocol E tree of
         Err e \<Rightarrow> (Some (Err e), s1)
       | Panic p \<Rightarrow> (Some (Panic p), s1)
       | Ok _ \<Rightarrow>
           if ChildCount (Start tree) \<noteq> None then (None, s1)
           else (map_option Ok (ChildCount (net_final E tree (Start tree))), s1)))"

definition Count :: "'disk TService \<Rightarrow> 64 word go" where
  "Count s = Ok (ts_Count s)"

definition ts_NewProtocol :: "unit option go" where
  "ts_NewProtocol = Ok None"

definition ts_tryLoad :: "('si, 'disk) onet_env \<Rightarrow> 'disk \<Rightarrow> 'disk TService go" where
  "ts_tryLoad E disk =
     bindG (ctx_Load E disk) (\<lambda>msg.
       case msg of
         None \<Rightarrow> Ok \<lparr>ts_Count = 0, ts_disk = disk\<rparr>
       | Some None \<Rightarrow> Err (Error ''Data of wrong type'')
       | Some (Some c) \<Rightarrow> Ok \<lparr>ts_Count = c, ts_disk = disk\<rparr>)"

text \<open>\<open>reg\<close> is the result of \<open>RegisterHandlers\<close>.\<close>

definition newService :: "('si, 'disk) onet_env \<Rightarrow> unit go \<Rightarrow> 'disk \<Rightarrow> 'disk TService go" where
  "newService E reg disk =
     bindG (map_err (\<lambda>_. Error ''Couldn't register messages'') reg) (\<lambda>_. ts_tryLoad E disk)"

section \<open>The simulation of the protocol\<close>

text \<open>The simulation starts the protocol in a goroutine of its own, so that a send inside \<open>Start\<close> meets
  the reader. \<open>None\<close> is a round that never ends.\<close>

fun sim_protocol_Run :: "('si, 'disk) onet_env \<Rightarrow> rtree \<Rightarrow> nat \<Rightarrow> unit go option" where
  "sim_protocol_Run E tree 0 = Some (Ok ())"
| "sim_protocol_Run E tree (Suc rounds) =
     (case CreateProtocol E tree of
        Err e \<Rightarrow> Some (Err e)
      | Panic p \<Rightarrow> Some (Panic p)
      | Ok _ \<Rightarrow>
          (case ChildCount (net_final E tree (Start tree)) of
             None \<Rightarrow> None
           | Some n \<Rightarrow>
               if n \<noteq> int (rsize tree)
               then Some (Err (Error (''Didn't get '' @ Itoa (rsize tree) @ '' children'')))
               else sim_protocol_Run E tree rounds))"

section \<open>Facts\<close>

lemma net_final_count:
  assumes "net_complete E"
  shows "ChildCount (net_final E t (Start t)) = Some (int (rsize t))"
  using assms pinv_reachable stuck_is_done unfolding net_complete_def by blast

lemma Start_sends_iff: "ChildCount (Start t) \<noteq> None \<longleftrightarrow> subs t = []"
  by (auto simp: Start_def HandleAnnounce_def HandleReply_def NewProtocol_def IsLeaf_def children_def
      IsRoot_def Let_def)

lemma rsize_1_iff: "rsize t = 1 \<longleftrightarrow> subs t = []"
proof (cases t)
  case (RNode ts)
  have "0 < rsize u" for u by (cases u) simp
  then have "sum_list (map rsize ts) = 0 \<longleftrightarrow> ts = []" by (cases ts) auto
  with RNode show ?thesis by simp
qed

lemma Clock_state:
  "snd (Clock E self s roster) = ts_save E (s\<lparr>ts_Count := ts_Count s + 1\<rparr>)"
  by (simp add: Clock_def Let_def split: option.split go.split)

text \<open>A sequence of calls of \<open>Clock\<close>, each with its roster.\<close>

definition Clock_all :: "('si, 'disk) onet_env \<Rightarrow> 'si \<Rightarrow> 'disk TService \<Rightarrow> 'si list list \<Rightarrow> 'disk TService" where
  "Clock_all E self s rosters = foldl (\<lambda>s roster. snd (Clock E self s roster)) s rosters"

lemma Clock_all_Count: "ts_Count (Clock_all E self s rs) = ts_Count s + word_of_nat (length rs)"
  by (induction rs arbitrary: s) (simp_all add: Clock_all_def Clock_state ts_save_def)

lemma Clock_all_saved:
  assumes "ctx_law E" and "rs \<noteq> []"
  shows "ctx_Load E (ts_disk (Clock_all E self s rs)) = Ok (Some (Some (ts_Count (Clock_all E self s rs))))"
  using assms(2)
proof (induction rs arbitrary: s)
  case (Cons r rs)
  show ?case
  proof (cases "rs = []")
    case True
    with assms(1) show ?thesis by (simp add: Clock_all_def Clock_state ts_save_def ctx_law_def)
  next
    case False
    then show ?thesis using Cons.IH [OF False, of "snd (Clock E self s r)"] by (simp add: Clock_all_def)
  qed
qed simp

section \<open>A concrete environment for the witnesses\<close>

text \<open>The tree has the root and all others of the roster as its children; the network is the one of
  \<open>Tree_Protocol\<close>.\<close>

definition tree_env :: "(nat, 64 word option) onet_env" where
  "tree_env =
     \<lparr>GenerateNaryTreeWithRoot = (\<lambda>roster self. Some (RNode (map (\<lambda>_. RNode []) (tl roster)))),
      CreateProtocol = (\<lambda>_. Ok ()), ctx_Save = (\<lambda>c d. (Ok (), Some c)), ctx_Load = (\<lambda>d. Ok (map_option Some d)),
      net_final = (\<lambda>t s. net_run (3 * rsize t) t s)\<rparr>"

lemma tree_env_complete: "net_complete tree_env"
  unfolding net_complete_def tree_env_def
  using net_run_steps [OF pinv_Start less_imp_le [OF work_Start]] by simp

lemma tree_env_ctx: "ctx_law tree_env"
  by (simp add: ctx_law_def tree_env_def)

section \<open>Properties\<close>

text \<open>C25. The counting protocol, in every order in which the network delivers: a run from \<open>Start\<close> has
  fewer than three times as many steps as the tree has nodes; the root never announces another
  number than the size of the tree; and as long as it has announced none, some message is still to
  be delivered, so that every run that is not stopped ends with the size of the tree on the
  channel.\<close>

theorem tree_protocol_counts:
  assumes "(net_step t ^^ n) (Start t) s"
  shows "n < 3 * rsize t \<and> (\<forall>c. ChildCount s = Some c \<longrightarrow> c = int (rsize t)) \<and>
    ((\<exists>s'. net_step t s s') \<or> ChildCount s = Some (int (rsize t)))"
proof -
  have inv: "pinv t s" using assms pinv_reachable relpowp_imp_rtranclp by metis
  have "n < 3 * rsize t" using work_run [OF pinv_Start assms] work_Start [of t] by linarith
  moreover have "c = int (rsize t)" if "ChildCount s = Some c" for c
    using that pinv_root(2) [OF inv] pinv_Replied [OF inv Nil_in_nodes]
    by (simp add: node_size_def split: stage.splits)
  ultimately show ?thesis using stuck_is_done [OF inv] by blast
qed

theorem tree_protocol_counts_witness:
  "(\<exists>s'. net_step (RNode [RNode [], RNode []]) (Start (RNode [RNode [], RNode []])) s') \<or>
     ChildCount (Start (RNode [RNode [], RNode []])) = Some 3"
  using tree_protocol_counts [of 0 "RNode [RNode [], RNode []]" "Start (RNode [RNode [], RNode []])"]
  by simp

text \<open>C26. \<open>Clock\<close>: when the tree and the protocol can be made and the network delivers, the call counts
  itself, saves the count, and returns the number of nodes, unless the tree has a single node; then
  it never returns, because \<open>Start\<close> sends on the channel before the service reads it.\<close>

theorem clock_counts_or_blocks:
  assumes "net_complete E" and "GenerateNaryTreeWithRoot E roster self = Some t" and "CreateProtocol E t = Ok ()"
  shows "fst (Clock E self s roster) = (if rsize t = 1 then None else Some (Ok (int (rsize t)))) \<and>
    ts_Count (snd (Clock E self s roster)) = ts_Count s + 1 \<and>
    ts_disk (snd (Clock E self s roster)) = snd (ctx_Save E (ts_Count s + 1) (ts_disk s))"
proof -
  have "fst (Clock E self s roster) = (if rsize t = 1 then None else Some (Ok (int (rsize t))))"
    using assms Start_sends_iff [of t] unfolding rsize_1_iff
    by (simp add: Clock_def Let_def net_final_count)
  then show ?thesis by (simp add: Clock_state ts_save_def)
qed

theorem clock_counts_or_blocks_witness:
  "fst (Clock tree_env 0 \<lparr>ts_Count = 0, ts_disk = None\<rparr> [0]) = None \<and>
   fst (Clock tree_env 0 \<lparr>ts_Count = 0, ts_disk = None\<rparr> [0, 1, 2]) = Some (Ok 3)"
  using clock_counts_or_blocks [OF tree_env_complete, of "[0]" 0 "RNode []" "\<lparr>ts_Count = 0, ts_disk = None\<rparr>"]
    clock_counts_or_blocks [OF tree_env_complete, of "[0, 1, 2]" 0 "RNode [RNode [], RNode []]"
      "\<lparr>ts_Count = 0, ts_disk = None\<rparr>"]
  by (simp add: tree_env_def [THEN arg_cong [of _ _ CreateProtocol]]
      tree_env_def [THEN arg_cong [of _ _ GenerateNaryTreeWithRoot]])

text \<open>The counter survives a restart: on a fresh node, after any number of calls of \<open>Clock\<close> and a
  restart of the service from what was saved, \<open>Count\<close> returns the number of calls (modulo the width
  of a Go int).\<close>

lemma count_survives_restart:
  assumes "ctx_law E" and "rosters \<noteq> []" and "newService E (Ok ()) disk = Ok s" and "ts_Count s = 0"
  shows "\<exists>s'. newService E (Ok ()) (ts_disk (Clock_all E self s rosters)) = Ok s' \<and>
    Count s' = Ok (word_of_nat (length rosters))"
  using Clock_all_saved [OF assms(1,2), of self s] Clock_all_Count [of E self s rosters] assms(4)
  by (simp add: newService_def ts_tryLoad_def Count_def)

text \<open>The simulation of the protocol ends without an error: for every tree, a single node
  included, and every number of rounds, the number on the channel is the size of the tree.\<close>

lemma protocol_simulation_succeeds:
  assumes "net_complete E" and "CreateProtocol E tree = Ok ()"
  shows "sim_protocol_Run E tree rounds = Some (Ok ())"
  using assms(2) by (induction rounds) (simp_all add: net_final_count [OF assms(1)])

end
