(* ===== verification/Template_Client.thy ===== *)
theory Template_Client
  imports Template_Service
begin

text \<open>
  The client of the template service (\<open>src/api.go\<close>), the simulation that calls it
  (\<open>src/simulation/service.go\<close>) and the two commands of the application (\<open>src/app/app.go\<close>). A call of
  \<open>Clock\<close> may never return (\<open>None\<close>). \<open>log.Fatal\<close> ends the process; \<open>log.ErrFatal\<close> and \<open>log.ErrFatalf\<close>
  do so when the error they get is not nil, and else do nothing.
\<close>

section \<open>The client\<close>

text \<open>\<open>r.RandomServerIdentity()\<close> is an argument: the server that was chosen, or nil on an empty roster.
  What the transport makes of a request to no server is \<open>toNil\<close>.\<close>

definition Client_Clock ::
    "('si, 'disk) onet_env \<Rightarrow> error + panic \<Rightarrow> delivery \<Rightarrow> 'si option \<Rightarrow> 'si list \<Rightarrow> ('si \<Rightarrow> 'disk TService)
      \<Rightarrow> (int go \<times> ('si \<Rightarrow> 'disk TService)) option" where
  "Client_Clock E toNil d dst roster sv =
     (case dst of
        None \<Rightarrow> Some (fail_with toNil, sv)
      | Some si \<Rightarrow>
          (case Clock E si (sv si) roster of
             (res, s') \<Rightarrow>
               (case d of
                  RequestLost e \<Rightarrow> Some (Err e, sv)
                | ReplyLost e \<Rightarrow> Some (Err e, sv(si := s'))
                | Delivered wrap \<Rightarrow> map_option (\<lambda>r. (map_err wrap r, sv(si := s'))) res)))"

text \<open>The number that comes with an error is -1.\<close>

definition Client_Count ::
    "error + panic \<Rightarrow> delivery \<Rightarrow> 'si option \<Rightarrow> ('si \<Rightarrow> 'disk TService) \<Rightarrow> 64 word go \<times> ('si \<Rightarrow> 'disk TService)" where
  "Client_Count toNil d dst sv =
     (case dst of
        None \<Rightarrow> (fail_with toNil, sv)
      | Some si \<Rightarrow> SendProtobuf d (\<lambda>s (_ :: unit). (Count s, s)) sv si ())"

section \<open>The simulation\<close>

text \<open>The rounds; \<open>dst r\<close>, \<open>d r\<close> and \<open>elapsed r\<close> are the server, the fate of the request and the time in
  the reply of round \<open>r\<close>.\<close>

fun template_Run ::
    "('si, 'disk) onet_env \<Rightarrow> error + panic \<Rightarrow> (nat \<Rightarrow> delivery) \<Rightarrow> (nat \<Rightarrow> 'si option) \<Rightarrow> (nat \<Rightarrow> int) \<Rightarrow> 'si list \<Rightarrow> nat list
      \<Rightarrow> ('si \<Rightarrow> 'disk TService) \<Rightarrow> (unit process \<times> ('si \<Rightarrow> 'disk TService)) option" where
  "template_Run E toNil d dst elapsed roster [] sv = Some (Returns (Ok ()), sv)"
| "template_Run E toNil d dst elapsed roster (r # rs) sv =
     (case Client_Clock E toNil (d r) (dst r) roster sv of
        None \<Rightarrow> None
      | Some (Panic p, sv') \<Rightarrow> Some (Returns (Panic p), sv')
      | Some (Err e, sv') \<Rightarrow> Some (Exits (err_msg e), sv')
      | Some (Ok n, sv') \<Rightarrow>
          if elapsed r \<le> 0 then Some (Exits ''0 time elapsed'', sv')
          else template_Run E toNil d dst elapsed roster rs sv')"

section \<open>The application\<close>

text \<open>The arguments of the command line, the result of \<open>os.Open\<close> on the first one, and the roster that
  \<open>ReadGroupDescToml\<close> makes of the file. In the last check \<open>err\<close> is nil, so that \<open>log.ErrFatalf\<close> does
  nothing and an empty roster is returned.\<close>

definition ErrFatalf :: "error option \<Rightarrow> string \<Rightarrow> 'a process \<Rightarrow> 'a process" where
  "ErrFatalf err msg k = (case err of None \<Rightarrow> k | Some e \<Rightarrow> Exits (msg @ err_msg e))"

definition readGroup ::
    "string list \<Rightarrow> (string \<Rightarrow> 'file go) \<Rightarrow> ('file \<Rightarrow> 'si list go) \<Rightarrow> 'si list process" where
  "readGroup args open_file ReadGroupDescToml =
     (if length args \<noteq> 1 then Exits ''Please give the group-file as argument''
      else
        (case open_file (hd args) of
           Panic p \<Rightarrow> Returns (Panic p)
         | Err e \<Rightarrow> ErrFatalf (Some e) ''Couldn't open group definition file'' (Returns (Err e))
         | Ok f \<Rightarrow>
             (case ReadGroupDescToml f of
                Panic p \<Rightarrow> Returns (Panic p)
              | Err e \<Rightarrow> ErrFatalf (Some e) ''Error while reading group definition file'' (Returns (Err e))
              | Ok roster \<Rightarrow>
                  (if roster = [] then ErrFatalf None ''Empty entity or invalid group defintion in: '' (Returns (Ok roster))
                   else Returns (Ok roster)))))"

text \<open>The commands; the result is what they print.\<close>

definition cmdTime ::
    "('si, 'disk) onet_env \<Rightarrow> error + panic \<Rightarrow> delivery \<Rightarrow> ('si list \<Rightarrow> 'si option) \<Rightarrow> 'si list process
      \<Rightarrow> ('si \<Rightarrow> 'disk TService) \<Rightarrow> (int process \<times> ('si \<Rightarrow> 'disk TService)) option" where
  "cmdTime E toNil d pick grp sv =
     (case grp of
        Exits msg \<Rightarrow> Some (Exits msg, sv)
      | Returns (Panic p) \<Rightarrow> Some (Returns (Panic p), sv)
      | Returns (Err e) \<Rightarrow> Some (Returns (Err e), sv)
      | Returns (Ok roster) \<Rightarrow>
          map_option (\<lambda>(r, sv'). (Returns (map_err (\<lambda>e. Error (''When asking the time: '' @ err_msg e)) r), sv'))
            (Client_Clock E toNil d (pick roster) roster sv))"

definition cmdCounter ::
    "error + panic \<Rightarrow> delivery \<Rightarrow> ('si list \<Rightarrow> 'si option) \<Rightarrow> 'si list process
      \<Rightarrow> ('si \<Rightarrow> 'disk TService) \<Rightarrow> 64 word process \<times> ('si \<Rightarrow> 'disk TService)" where
  "cmdCounter toNil d pick grp sv =
     (case grp of
        Exits msg \<Rightarrow> (Exits msg, sv)
      | Returns (Panic p) \<Rightarrow> (Returns (Panic p), sv)
      | Returns (Err e) \<Rightarrow> (Returns (Err e), sv)
      | Returns (Ok roster) \<Rightarrow>
          (case Client_Count toNil d (pick roster) sv of
             (r, sv') \<Rightarrow> (Returns (map_err (\<lambda>e. Error (''When asking for counter: '' @ err_msg e)) r), sv')))"

text \<open>\<open>main\<close> on a command line that names a command: the error of the command ends the process. The result is
  what the command prints.\<close>

datatype app_command = TimeCommand | CounterCommand

datatype app_output = ChildrenPrinted int | CountPrinted "64 word"

definition app_main ::
    "('si, 'disk) onet_env \<Rightarrow> error + panic \<Rightarrow> delivery \<Rightarrow> ('si list \<Rightarrow> 'si option) \<Rightarrow> 'si list process
      \<Rightarrow> app_command \<Rightarrow> ('si \<Rightarrow> 'disk TService) \<Rightarrow> (app_output process \<times> ('si \<Rightarrow> 'disk TService)) option" where
  "app_main E toNil d pick grp cmd sv =
     (case cmd of
        TimeCommand \<Rightarrow>
          map_option (apfst (\<lambda>r. err_fatal (map_process ChildrenPrinted r))) (cmdTime E toNil d pick grp sv)
      | CounterCommand \<Rightarrow>
          Some (apfst (\<lambda>r. err_fatal (map_process CountPrinted r)) (cmdCounter toNil d pick grp sv)))"

section \<open>Facts\<close>

text \<open>A round that is delivered to a server that makes a tree of more than one node.\<close>

lemma Client_Clock_counts:
  assumes "net_complete E" and "GenerateNaryTreeWithRoot E roster si = Some t" and "CreateProtocol E t = Ok ()"
    and "rsize t \<noteq> 1"
  shows "Client_Clock E toNil (Delivered w) (Some si) roster sv =
    Some (Ok (int (rsize t)), sv(si := ts_save E ((sv si)\<lparr>ts_Count := ts_Count (sv si) + 1\<rparr>)))"
proof -
  have "subs t \<noteq> []" using assms(4) unfolding rsize_1_iff .
  then have "Clock E si (sv si) roster = (Some (Ok (int (rsize t))), ts_save E ((sv si)\<lparr>ts_Count := ts_Count (sv si) + 1\<rparr>))"
    using assms(1-3) Start_sends_iff [of t] by (simp add: Clock_def Let_def net_final_count)
  then show ?thesis by (simp add: Client_Clock_def)
qed

text \<open>The application on a group file with an empty list of servers: \<open>readGroup\<close> does not exit but returns
  the empty roster, because the error that \<open>log.ErrFatalf\<close> gets is nil there, and the command then asks no
  server at all.\<close>

lemma app_accepts_empty_group:
  assumes "open_file name = Ok f" and "ReadGroupDescToml f = Ok []" and "pick [] = None"
  shows "readGroup [name] open_file ReadGroupDescToml = Returns (Ok []) \<and>
    cmdTime E toNil d pick (readGroup [name] open_file ReadGroupDescToml) sv =
      Some (Returns (map_err (\<lambda>e. Error (''When asking the time: '' @ err_msg e)) (fail_with toNil)), sv)"
  using assms by (simp add: readGroup_def ErrFatalf_def cmdTime_def Client_Clock_def)

text \<open>The counter command prints what the server has counted, and an error of the transport ends the process.\<close>

lemma app_main_counter:
  "app_main E toNil (Delivered w) (\<lambda>_. Some si) (Returns (Ok roster)) CounterCommand sv =
     Some (Returns (Ok (CountPrinted (ts_Count (sv si)))), sv)"
  "app_main E toNil (RequestLost e) (\<lambda>_. Some si) (Returns (Ok roster)) CounterCommand sv =
     Some (Exits (''When asking for counter: '' @ err_msg e), sv)"
  by (simp_all add: app_main_def cmdCounter_def Client_Count_def SendProtobuf_def Count_def err_fatal_def or_exit_def)

section \<open>Properties\<close>

text \<open>C39. The template system as a whole: when the requests are delivered, the network delivers and every
  chosen server makes a tree of more than one node, the simulation returns without an error after all its
  rounds, and afterwards \<open>Count\<close> answers on every server with the number of rounds that chose it, added to
  what it had counted before (modulo the width of a Go int).\<close>

theorem template_rounds_counted:
  assumes "net_complete E" and "\<And>r. r \<in> set rs \<Longrightarrow> \<exists>w. d r = Delivered w" and "\<And>r. r \<in> set rs \<Longrightarrow> 0 < elapsed r"
    and "\<And>r. r \<in> set rs \<Longrightarrow> \<exists>t. GenerateNaryTreeWithRoot E roster (chosen r) = Some t \<and>
      CreateProtocol E t = Ok () \<and> rsize t \<noteq> 1"
  shows "\<exists>sv'. template_Run E toNil d (Some \<circ> chosen) elapsed roster rs sv = Some (Returns (Ok ()), sv') \<and>
    (\<forall>si w. fst (Client_Count toNil (Delivered w) (Some si) sv') =
       Ok (ts_Count (sv si) + word_of_nat (count_list (map chosen rs) si)))"
  using assms(2-)
proof (induction rs arbitrary: sv)
  case Nil
  then show ?case by (simp add: Client_Count_def SendProtobuf_def Count_def)
next
  case (Cons r rs)
  obtain w where w: "d r = Delivered w" using Cons.prems(1) [of r] by auto
  obtain t where t: "GenerateNaryTreeWithRoot E roster (chosen r) = Some t" "CreateProtocol E t = Ok ()" "rsize t \<noteq> 1"
    using Cons.prems(3) [of r] by auto
  let ?s = "ts_save E ((sv (chosen r))\<lparr>ts_Count := ts_Count (sv (chosen r)) + 1\<rparr>)"
  have "\<exists>sv'. template_Run E toNil d (Some \<circ> chosen) elapsed roster rs (sv(chosen r := ?s)) =
      Some (Returns (Ok ()), sv') \<and> (\<forall>si w. fst (Client_Count toNil (Delivered w) (Some si) sv') =
       Ok (ts_Count ((sv(chosen r := ?s)) si) + word_of_nat (count_list (map chosen rs) si)))"
    by (rule Cons.IH) (use Cons.prems in auto)
  then obtain sv' where sv': "template_Run E toNil d (Some \<circ> chosen) elapsed roster rs (sv(chosen r := ?s)) =
      Some (Returns (Ok ()), sv')"
    "\<And>si w. fst (Client_Count toNil (Delivered w) (Some si) sv') =
       Ok (ts_Count ((sv(chosen r := ?s)) si) + word_of_nat (count_list (map chosen rs) si))" by blast
  have "0 < elapsed r" using Cons.prems(2) [of r] by simp
  then have run: "template_Run E toNil d (Some \<circ> chosen) elapsed roster (r # rs) sv = Some (Returns (Ok ()), sv')"
    using Client_Clock_counts [OF assms(1) t, of toNil w sv] w sv'(1) by simp
  have cnt: "ts_Count ((sv(chosen r := ?s)) si) + word_of_nat (count_list (map chosen rs) si) =
      ts_Count (sv si) + word_of_nat (count_list (map chosen (r # rs)) si)" for si
    by (simp add: ts_save_def)
  show ?case using run sv'(2) unfolding cnt by blast
qed

theorem template_rounds_counted_witness:
  "\<exists>sv'. template_Run tree_env (Inl (Error ''no server'')) (\<lambda>_. Delivered id) (Some \<circ> (\<lambda>r. r mod 2)) (\<lambda>_. 1) [0, 1] [0, 1, 2]
     (\<lambda>_. \<lparr>ts_Count = 4, ts_disk = None\<rparr>) = Some (Returns (Ok ()), sv') \<and>
   fst (Client_Count (Inl (Error ''no server'')) (Delivered id) (Some 0) sv') = Ok 6"
proof -
  have tree: "\<exists>t. GenerateNaryTreeWithRoot tree_env [0, 1] ((\<lambda>r. r mod 2) r) = Some t \<and> CreateProtocol tree_env t = Ok () \<and>
      rsize t \<noteq> 1" for r :: nat by (simp add: tree_env_def)
  let ?sv = "\<lambda>_ :: nat. \<lparr>ts_Count = 4, ts_disk = None\<rparr> :: 64 word option TService"
  have "\<exists>sv'. template_Run tree_env (Inl (Error ''no server'')) (\<lambda>_. Delivered id) (Some \<circ> (\<lambda>r. r mod 2)) (\<lambda>_. 1) [0, 1]
        [0, 1, 2] ?sv = Some (Returns (Ok ()), sv') \<and>
      (\<forall>si w. fst (Client_Count (Inl (Error ''no server'')) (Delivered w) (Some si) sv') =
         Ok (ts_Count (?sv si) + word_of_nat (count_list (map (\<lambda>r. r mod 2) [0, 1, 2]) si)))"
    by (rule template_rounds_counted [OF tree_env_complete _ _ tree]) simp_all
  then obtain sv' where "template_Run tree_env (Inl (Error ''no server'')) (\<lambda>_. Delivered id) (Some \<circ> (\<lambda>r. r mod 2)) (\<lambda>_. 1)
      [0, 1] [0, 1, 2] ?sv = Some (Returns (Ok ()), sv')"
    "\<forall>si w. fst (Client_Count (Inl (Error ''no server'')) (Delivered w) (Some si) sv') =
       Ok (ts_Count (?sv si) + word_of_nat (count_list (map (\<lambda>r. r mod 2) [0, 1, 2]) si))" by blast
  then show ?thesis by (intro exI [of _ sv']) (simp del: template_Run.simps)
qed

end
