(* ===== verification/Clock_Calls.thy ===== *)
theory Clock_Calls
  imports Template_Service Goroutines
begin

text \<open>
  Calls of \<open>Clock\<close> (\<open>src/service/service.go\<close>) at the same time: onet runs each request in a goroutine of its
  own. The storage is locked twice in a call, once around \<open>Count++\<close> and once in \<open>save\<close>, so the calls can
  interleave between these parts; under the lock a part is one step. The rest of a call does not touch
  the storage.
\<close>

section \<open>A call in steps\<close>

text \<open>\<open>Answered None\<close> is a call that waits for the channel for ever.\<close>

datatype 'si clock_call =
    Counting "'si list"
  | Saving "'si list"
  | Running "'si list"
  | Answered "int go option"

definition clock_answer :: "('si, 'disk) onet_env \<Rightarrow> 'si \<Rightarrow> 'si list \<Rightarrow> int go option" where
  "clock_answer E self roster =
     (case GenerateNaryTreeWithRoot E roster self of
        None \<Rightarrow> Some (Err (Error ''couldn't create tree''))
      | Some tree \<Rightarrow>
          (case CreateProtocol E tree of
             Err e \<Rightarrow> Some (Err e)
           | Panic p \<Rightarrow> Some (Panic p)
           | Ok _ \<Rightarrow> if ChildCount (Start tree) \<noteq> None then None
                     else map_option Ok (ChildCount (net_final E tree (Start tree)))))"

primrec clock_step ::
    "('si, 'disk) onet_env \<Rightarrow> 'si \<Rightarrow> 'si clock_call \<Rightarrow> 'disk TService \<Rightarrow> 'si clock_call \<times> 'disk TService" where
  "clock_step E self (Counting roster) s = (Saving roster, s\<lparr>ts_Count := ts_Count s + 1\<rparr>)"
| "clock_step E self (Saving roster) s = (Running roster, ts_save E s)"
| "clock_step E self (Running roster) s = (Answered (clock_answer E self roster), s)"
| "clock_step E self (Answered a) s = (Answered a, s)"

primrec clock_rank :: "'si clock_call \<Rightarrow> nat" where
  "clock_rank (Counting roster) = 3"
| "clock_rank (Saving roster) = 2"
| "clock_rank (Running roster) = 1"
| "clock_rank (Answered a) = 0"

lemma clock_rank_0_iff: "clock_rank g = 0 \<longleftrightarrow> (\<exists>a. g = Answered a)"
  by (cases g) simp_all

interpretation clocks: goroutine_pool "\<lambda>_. clock_step E self" clock_rank for E self
proof
  fix g :: "'a clock_call" and i :: nat and s
  show "clock_rank g = 0 \<Longrightarrow> clock_step E self g s = (g, s)" by (cases g) simp_all
  show "0 < clock_rank g \<Longrightarrow> clock_rank (fst (clock_step E self g s)) < clock_rank g" by (cases g) simp_all
qed

text \<open>A call that nothing interrupts is \<open>Clock\<close>.\<close>

lemma Clock_answer: "fst (Clock E self s roster) = clock_answer E self roster"
  by (auto simp: Clock_def clock_answer_def Let_def split: option.split go.split)

lemma Clock_steps:
  "run_sched (\<lambda>_. clock_step E self) [0, 0, 0] ([Counting roster], s) =
     ([Answered (fst (Clock E self s roster))], snd (Clock E self s roster))"
  by (simp add: sched_step_def Clock_answer Clock_state)

section \<open>Counting and saving\<close>

text \<open>The calls that have not counted themselves yet, and those that have but have not saved the count.\<close>

primrec to_count :: "'si clock_call \<Rightarrow> nat" where
  "to_count (Counting roster) = 1"
| "to_count (Saving roster) = 0"
| "to_count (Running roster) = 0"
| "to_count (Answered a) = 0"

definition uncounted :: "'si clock_call list \<Rightarrow> nat" where
  "uncounted gs = sum_list (map to_count gs)"

primrec is_saving :: "'si clock_call \<Rightarrow> bool" where
  "is_saving (Counting roster) = False"
| "is_saving (Saving roster) = True"
| "is_saving (Running roster) = False"
| "is_saving (Answered a) = False"

definition saved :: "('si, 'disk) onet_env \<Rightarrow> 'disk TService \<Rightarrow> bool" where
  "saved E s \<longleftrightarrow> ctx_Load E (ts_disk s) = Ok (Some (Some (ts_Count s)))"

text \<open>Every call is counted once, and the last count is saved or about to be.\<close>

definition clocks_inv :: "('si, 'disk) onet_env \<Rightarrow> 64 word \<Rightarrow> 'si clock_call list \<times> 'disk TService \<Rightarrow> bool" where
  "clocks_inv E c st \<longleftrightarrow>
     (case st of (gs, s) \<Rightarrow>
        ts_Count s + word_of_nat (uncounted gs) = c \<and>
        (uncounted gs = length gs \<or> saved E s \<or> (\<exists>i < length gs. is_saving (gs ! i))))"

lemma uncounted_update:
  "i < length gs \<Longrightarrow> uncounted (gs[i := g]) + to_count (gs ! i) = uncounted gs + to_count g"
proof -
  assume i: "i < length gs"
  then have "to_count (gs ! i) \<le> sum_list (map to_count gs)" by (intro member_le_sum_list) auto
  with i show ?thesis by (simp add: uncounted_def map_update sum_list_update)
qed

lemma uncounted_le: "uncounted gs \<le> length gs"
proof -
  have "to_count g \<le> 1" for g :: "'a clock_call" by (cases g) simp_all
  then show ?thesis using sum_list_mono [of gs to_count "\<lambda>_. 1"] by (simp add: uncounted_def sum_list_triv)
qed

lemma saving_kept:
  "is_saving (gs ! j) \<Longrightarrow> j < length gs \<Longrightarrow> \<not> is_saving (gs ! i) \<Longrightarrow> \<exists>k < length gs. is_saving (gs[i := g] ! k)"
  by (cases "i = j") (auto intro: exI [of _ j])

lemma clocks_inv_step:
  assumes "ctx_law E" and inv: "clocks_inv E c (gs, s)"
  shows "clocks_inv E c (sched_step (\<lambda>_. clock_step E self) i (gs, s))"
proof (cases "i < length gs")
  case i: True
  note upd = uncounted_update [OF i]
  show ?thesis
  proof (cases "gs ! i")
    case (Counting roster)
    with upd [of "Saving roster"] have "uncounted gs = Suc (uncounted (gs[i := Saving roster]))" by simp
    moreover have "\<exists>k < length gs. is_saving (gs[i := Saving roster] ! k)" using i by (intro exI [of _ i]) simp
    ultimately show ?thesis using i inv Counting by (simp add: sched_step_def clocks_inv_def algebra_simps)
  next
    case (Saving roster)
    have "saved E (ts_save E s)" using assms(1) by (simp add: saved_def ts_save_def ctx_law_def)
    moreover have "ts_Count (ts_save E s) = ts_Count s" by (simp add: ts_save_def)
    ultimately show ?thesis using i inv Saving upd [of "Running roster"]
      by (simp add: sched_step_def clocks_inv_def)
  next
    case (Running roster)
    let ?gs = "gs[i := Answered (clock_answer E self roster)]"
    have "uncounted ?gs = uncounted gs" using upd [of "Answered (clock_answer E self roster)"] Running by simp
    moreover have "\<exists>k < length gs. is_saving (?gs ! k)" if "is_saving (gs ! j)" "j < length gs" for j
      using saving_kept [OF that] Running by simp
    ultimately have "clocks_inv E c (?gs, s)" using inv by (fastforce simp: clocks_inv_def)
    with i Running show ?thesis by (simp add: sched_step_def)
  next
    case (Answered a)
    then have "gs[i := Answered a] = gs" using list_update_id [of gs i] by simp
    with i inv Answered show ?thesis by (simp add: sched_step_def)
  qed
qed (use inv in \<open>simp add: sched_step_def\<close>)

lemma clocks_inv_run:
  "ctx_law E \<Longrightarrow> clocks_inv E c st \<Longrightarrow> clocks_inv E c (run_sched (\<lambda>_. clock_step E self) is st)"
proof (induction "is" arbitrary: st)
  case (Cons i "is")
  with clocks_inv_step [OF Cons.prems(1), of c "fst st" "snd st" self i] show ?case by simp
qed simp

text \<open>What each call answers.\<close>

definition clock_call_ok :: "('si, 'disk) onet_env \<Rightarrow> 'si \<Rightarrow> 'si list list \<Rightarrow> nat \<Rightarrow> 'si clock_call \<Rightarrow> bool" where
  "clock_call_ok E self rosters i g \<longleftrightarrow>
     (case g of
        Answered a \<Rightarrow> a = clock_answer E self (rosters ! i)
      | Counting r \<Rightarrow> r = rosters ! i | Saving r \<Rightarrow> r = rosters ! i | Running r \<Rightarrow> r = rosters ! i)"

lemma clock_step_ok:
  "clock_call_ok E self rosters i g \<Longrightarrow> clock_call_ok E self rosters i (fst (clock_step E self g s))"
  by (cases g) (simp_all add: clock_call_ok_def)

lemma all_clocks:
  assumes ctx: "ctx_law E" and fair: "\<And>i. i < length rosters \<Longrightarrow> 3 \<le> count_list sched i"
    and run: "run_sched (\<lambda>_. clock_step E self) sched (map Counting rosters, s) = (gs, s')"
  shows "gs = map (\<lambda>r. Answered (clock_answer E self r)) rosters"
    and "ts_Count s' = ts_Count s + word_of_nat (length rosters)"
    and "rosters \<noteq> [] \<Longrightarrow> saved E s'"
proof -
  have len: "length gs = length rosters"
    using clocks.sched_length [of E self sched "(map Counting rosters, s)"] run by simp
  have "gs ! j = Answered (clock_answer E self (rosters ! j))" if "j < length rosters" for j
  proof -
    have "clock_call_ok E self rosters j (gs ! j)"
      by (rule clocks.sched_invariant [OF _ _ _ _ run that, where P = "\<lambda>i g s. clock_call_ok E self rosters i g"])
        (assumption | erule clock_step_ok | simp add: clock_call_ok_def)+
    moreover have "clock_rank (gs ! j) = 0"
      using clocks.fair_sched_ends [of "map Counting rosters" sched j E self s] fair that run by simp
    ultimately show ?thesis by (auto simp: clock_rank_0_iff clock_call_ok_def)
  qed
  then show gs: "gs = map (\<lambda>r. Answered (clock_answer E self r)) rosters"
    using len by (intro nth_equalityI) simp_all
  have "uncounted (map Counting rosters) = length rosters" "uncounted gs = 0"
    by (simp_all add: uncounted_def gs comp_def sum_list_triv)
  moreover from this(1) have "clocks_inv E (ts_Count s + word_of_nat (length rosters)) (gs, s')"
    using clocks_inv_run [OF ctx, of _ "(map Counting rosters, s)" self sched] run by (simp add: clocks_inv_def)
  ultimately show "ts_Count s' = ts_Count s + word_of_nat (length rosters)" "rosters \<noteq> [] \<Longrightarrow> saved E s'"
    by (auto simp: clocks_inv_def gs)
qed

section \<open>Properties\<close>

text \<open>C27. Calls of \<open>Clock\<close> at the same time do not lose counts: under every interleaving of the locked parts
  in which all calls get through, each call answers what it answers alone, and after a restart of the
  service from what was saved last, \<open>Count\<close> returns the number of calls (modulo the width of a Go int).\<close>

theorem concurrent_clocks_counted:
  assumes "ctx_law E" and "newService E (Ok ()) disk = Ok s" and "ts_Count s = 0" and "rosters \<noteq> []"
    and "\<And>i. i < length rosters \<Longrightarrow> 3 \<le> count_list sched i"
    and "run_sched (\<lambda>_. clock_step E self) sched (map Counting rosters, s) = (gs, s')"
  shows "gs = map (\<lambda>r. Answered (fst (Clock E self s r))) rosters \<and>
    (\<exists>s''. newService E (Ok ()) (ts_disk s') = Ok s'' \<and> Count s'' = Ok (word_of_nat (length rosters)))"
  using all_clocks [OF assms(1,5,6)] assms(3,4)
  by (simp add: Clock_answer saved_def newService_def ts_tryLoad_def Count_def)

theorem concurrent_clocks_counted_witness:
  "(\<exists>s''. newService tree_env (Ok ()) (ts_disk (snd (run_sched (\<lambda>_. clock_step tree_env 0) [0, 1, 1, 0, 1, 0]
      (map Counting [[0, 1], [0, 2]], \<lparr>ts_Count = 0, ts_disk = None\<rparr>)))) = Ok s'' \<and> Count s'' = Ok 2)"
proof -
  have "3 \<le> count_list [0, 1, 1, 0, 1, 0 :: nat] i" if "i < length [[0, 1], [0, 2 :: nat]]" for i
    using that by (auto simp: less_Suc_eq)
  from concurrent_clocks_counted [where E = tree_env and self = 0 and disk = None and rosters = "[[0, 1], [0, 2]]" and
      s = "\<lparr>ts_Count = 0, ts_disk = None\<rparr>", OF tree_env_ctx _ _ _ this prod.collapse [symmetric]]
  show ?thesis by (simp add: newService_def ts_tryLoad_def tree_env_def [THEN arg_cong [of _ _ ctx_Load]])
qed

end
