(* ===== verification/Darc_Ledger.thy ===== *)
theory Darc_Ledger
  imports Semi_Centralized
begin

text \<open>
  The access control of ByzCoin, on which the client of the semi-centralised system relies: the rules of
  a darc say who may spawn which contract, every instance of a ledger is governed by a darc, and a
  transaction is accepted when the darc of the instance it goes to allows it. Neither ByzCoin nor the darc
  package is under \<open>src/\<close>: what the laws say of them is read off their values by the functions of the
  record \<open>darc_view\<close>. With these laws instead of a ledger that accepts everything, the client succeeds only because of
  the rules and the transaction with which \<open>SetupByzcoin\<close>, \<open>SetupDarcs\<close> and \<open>SpawnDarc\<close> of
  \<open>src/semi_centralized/api.go\<close> set it up.
\<close>

section \<open>What ByzCoin checks\<close>

record ('darc, 'signer, 'id, 'led) darc_view =
  identity_of :: "'signer \<Rightarrow> 'id" \<comment> \<open>\<open>Signer.Identity()\<close>\<close>
  rule_of :: "'darc \<Rightarrow> string \<Rightarrow> 'id option" \<comment> \<open>the identity that has an action\<close>
  signed_by :: "Instruction \<Rightarrow> bytes \<Rightarrow> 'id \<Rightarrow> bool" \<comment> \<open>under the base ID of a darc\<close>
  instance_at :: "'led \<Rightarrow> bytes \<Rightarrow> (string \<times> 'darc) option" \<comment> \<open>the contract of an instance, and the darc that governs it\<close>

text \<open>The darc package: a new darc has no rule to spawn; a rule is added unless its action has one; the ID of a
  darc that was not evolved is its base ID; a darc can be encoded.\<close>

definition darc_law ::
    "('darc, 'signer, 'rnd, 'si, 'gmsg, 'led) darc_api \<Rightarrow> ('darc, 'signer, 'id, 'led) darc_view \<Rightarrow> bool" where
  "darc_law A V \<longleftrightarrow>
     (\<forall>os ss desc c. rule_of V (NewDarc A os ss desc) (''spawn:'' @ c) = None) \<and>
     (\<forall>os ss desc. GetID A (NewDarc A os ss desc) = GetBaseID A (NewDarc A os ss desc)) \<and>
     (\<forall>a sg d. rule_of V d a = None \<longrightarrow>
        (\<exists>d'. AddRule A a sg d = Ok d' \<and> rule_of V d' = (rule_of V d)(a \<mapsto> identity_of V sg) \<and>
              (GetID A d = GetBaseID A d \<longrightarrow> GetID A d' = GetBaseID A d'))) \<and>
     (\<forall>d. \<exists>buf. ToProto A d = Ok buf)"

text \<open>A new ledger holds the genesis darc, in which the signer has the actions that \<open>DefaultGenesisMsg\<close> is given, when
  there is a server and no action is named twice.\<close>

definition genesis_law ::
    "('darc, 'signer, 'rnd, 'si, 'gmsg, 'led) darc_api \<Rightarrow> ('led, 'proof, 'signer, 'scid) ledger
      \<Rightarrow> ('darc, 'signer, 'id, 'led) darc_view \<Rightarrow> bool" where
  "genesis_law A L V \<longleftrightarrow>
     (\<forall>roster rules sg interval. roster \<noteq> [] \<longrightarrow> distinct rules \<longrightarrow> (\<exists>g led. DefaultGenesisMsg A roster rules sg = Ok g \<and>
        NewLedger A (SetBlockInterval A interval g) = Ok led \<and>
        (let d = GenesisDarc A (SetBlockInterval A interval g) in
           (\<forall>a \<in> set rules. rule_of V d a = Some (identity_of V sg)) \<and>
           instance_at V led (NewInstanceID L (GetBaseID A d)) = Some (ContractDarcID A, d))))"

text \<open>The instruction goes to an instance with contract \<open>c\<close> and darc \<open>d\<close>, and is signed under \<open>d\<close> by the identity
  that may spawn its contract there.\<close>

definition authorised ::
    "('darc, 'signer, 'rnd, 'si, 'gmsg, 'led) darc_api \<Rightarrow> ('darc, 'signer, 'id, 'led) darc_view \<Rightarrow> 'led
      \<Rightarrow> Instruction \<Rightarrow> string \<Rightarrow> 'darc \<Rightarrow> string \<Rightarrow> bool" where
  "authorised A V led ins c d cid \<longleftrightarrow>
     instance_at V led (in_InstanceID ins) = Some (c, d) \<and>
     (\<exists>i. rule_of V d (''spawn:'' @ cid) = Some i \<and> signed_by V ins (GetBaseID A d) i)"

text \<open>
  The ledger accepts what is authorised, and later transactions find its effect (the transactions of a client
  are executed in their order, also those it does not wait for). A darc is spawned on a darc, under its own
  base ID, and governs itself; a write is spawned on a darc, and a read on the write it names, under the
  derived ID, and are governed by the darc of the instance they are spawned on. The IDs are hashes, and taken
  as new. Of instructions that are not authorised nothing is said.
\<close>

definition darc_ledger_law ::
    "('darc, 'signer, 'rnd, 'si, 'gmsg, 'led) darc_api \<Rightarrow> ('led, 'proof, 'signer, 'scid) ledger \<Rightarrow> 'pt calypso
      \<Rightarrow> ('darc, 'signer, 'id, 'led) darc_view \<Rightarrow> bool" where
  "darc_ledger_law A L P V \<longleftrightarrow>
     (\<forall>dID sg ins. \<exists>ins'. SignBy L dID sg ins = Ok ins' \<and> in_InstanceID ins' = in_InstanceID ins \<and>
        signed_by V ins' dID (identity_of V sg)) \<and>
     (\<forall>ins. NewInstanceID L (DeriveID L ins []) = DeriveID L ins []) \<and>
     (\<forall>ins w led d d' buf.
        authorised A V led ins (ContractDarcID A) d (ContractDarcID A) \<longrightarrow> ToProto A d' = Ok buf \<longrightarrow>
        in_Spawn ins = Some \<lparr>sp_ContractID = ContractDarcID A, sp_Args = [\<lparr>arg_Name = ''darc'', arg_Value = buf\<rparr>]\<rparr> \<longrightarrow>
        (\<exists>led'. AddTransactionAndWait L [ins] w led = (Ok (), led') \<and>
           instance_at V led' (NewInstanceID L (GetBaseID A d')) = Some (ContractDarcID A, d'))) \<and>
     (\<forall>ins w led d wr val.
        authorised A V led ins (ContractDarcID A) d (ContractSemiWriteID P) \<longrightarrow> decode_SemiWrite P val = Ok wr \<longrightarrow>
        in_Spawn ins = Some \<lparr>sp_ContractID = ContractSemiWriteID P, sp_Args = [\<lparr>arg_Name = ''write'', arg_Value = val\<rparr>]\<rparr> \<longrightarrow>
        (\<exists>led'. AddTransactionAndWait L [ins] w led = (Ok (), led') \<and>
           instance_at V led' (DeriveID L ins []) = Some (ContractSemiWriteID P, d))) \<and>
     (\<forall>ins w led d rd val.
        authorised A V led ins (ContractSemiWriteID P) d (ContractReadID P) \<longrightarrow> decode_Read P val = Ok rd \<longrightarrow>
        rd_Write rd = in_InstanceID ins \<longrightarrow>
        in_Spawn ins = Some \<lparr>sp_ContractID = ContractReadID P, sp_Args = [\<lparr>arg_Name = ''read'', arg_Value = val\<rparr>]\<rparr> \<longrightarrow>
        (\<exists>led'. AddTransactionAndWait L [ins] w led = (Ok (), led') \<and>
           instance_at V led' (DeriveID L ins []) = Some (ContractReadID P, d)))"

lemma darc_ledger_lawD:
  assumes "darc_ledger_law A L P V"
  shows "\<exists>ins'. SignBy L dID sg ins = Ok ins' \<and> in_InstanceID ins' = in_InstanceID ins \<and>
        signed_by V ins' dID (identity_of V sg)"
    and "NewInstanceID L (DeriveID L ins []) = DeriveID L ins []"
    and "authorised A V led ins (ContractDarcID A) d (ContractDarcID A) \<Longrightarrow> ToProto A d' = Ok buf \<Longrightarrow>
        in_Spawn ins = Some \<lparr>sp_ContractID = ContractDarcID A, sp_Args = [\<lparr>arg_Name = ''darc'', arg_Value = buf\<rparr>]\<rparr> \<Longrightarrow>
        \<exists>led'. AddTransactionAndWait L [ins] w led = (Ok (), led') \<and>
           instance_at V led' (NewInstanceID L (GetBaseID A d')) = Some (ContractDarcID A, d')"
    and "authorised A V led ins (ContractDarcID A) d (ContractSemiWriteID P) \<Longrightarrow> decode_SemiWrite P val = Ok wr \<Longrightarrow>
        in_Spawn ins = Some \<lparr>sp_ContractID = ContractSemiWriteID P, sp_Args = [\<lparr>arg_Name = ''write'', arg_Value = val\<rparr>]\<rparr> \<Longrightarrow>
        \<exists>led'. AddTransactionAndWait L [ins] w led = (Ok (), led') \<and>
           instance_at V led' (DeriveID L ins []) = Some (ContractSemiWriteID P, d)"
    and "authorised A V led ins (ContractSemiWriteID P) d (ContractReadID P) \<Longrightarrow> decode_Read P val = Ok rd \<Longrightarrow>
        rd_Write rd = in_InstanceID ins \<Longrightarrow>
        in_Spawn ins = Some \<lparr>sp_ContractID = ContractReadID P, sp_Args = [\<lparr>arg_Name = ''read'', arg_Value = val\<rparr>]\<rparr> \<Longrightarrow>
        \<exists>led'. AddTransactionAndWait L [ins] w led = (Ok (), led') \<and>
           instance_at V led' (DeriveID L ins []) = Some (ContractReadID P, d)"
  using assms unfolding darc_ledger_law_def by metis+

section \<open>The set-up\<close>

text \<open>The ledger of \<open>SetupByzcoin\<close> holds a darc in which the admin may spawn darcs.\<close>

lemma sc_SetupByzcoin_governed:
  assumes "genesis_law A L V" and "roster \<noteq> []"
    and "distinct [ContractDarcID A, ContractSemiWriteID P, ContractReadID P]"
  shows "\<exists>led d. sc_SetupByzcoin A P rnd roster interval = Ok (led, NewSignerEd25519 A rnd, d) \<and>
    instance_at V led (NewInstanceID L (GetBaseID A d)) = Some (ContractDarcID A, d) \<and>
    rule_of V d (''spawn:'' @ ContractDarcID A) = Some (identity_of V (NewSignerEd25519 A rnd))"
proof -
  let ?rules = "[''spawn:'' @ ContractDarcID A, ''spawn:'' @ ContractSemiWriteID P, ''spawn:'' @ ContractReadID P]"
    and ?sg = "NewSignerEd25519 A rnd"
  have "distinct ?rules" using assms(3) by simp
  then obtain g led where "DefaultGenesisMsg A roster ?rules ?sg = Ok g"
    "NewLedger A (SetBlockInterval A (block_interval interval) g) = Ok led"
    "\<forall>a \<in> set ?rules. rule_of V (GenesisDarc A (SetBlockInterval A (block_interval interval) g)) a = Some (identity_of V ?sg)"
    "instance_at V led (NewInstanceID L (GetBaseID A (GenesisDarc A (SetBlockInterval A (block_interval interval) g)))) =
      Some (ContractDarcID A, GenesisDarc A (SetBlockInterval A (block_interval interval) g))"
    using assms(1,2) unfolding genesis_law_def Let_def by blast
  then show ?thesis by (simp add: sc_SetupByzcoin_def setup_ledger_def)
qed

text \<open>The darc of \<open>SetupDarcs\<close> lets the writer spawn writes and the reader spawn reads.\<close>

definition share_rules ::
    "('darc, 'signer, 'rnd, 'si, 'gmsg, 'led) darc_api \<Rightarrow> 'pt calypso \<Rightarrow> ('darc, 'signer, 'id, 'led) darc_view
      \<Rightarrow> 'signer \<Rightarrow> 'signer \<Rightarrow> 'darc \<Rightarrow> bool" where
  "share_rules A P V writer reader d \<longleftrightarrow>
     rule_of V d (''spawn:'' @ ContractSemiWriteID P) = Some (identity_of V writer) \<and>
     rule_of V d (''spawn:'' @ ContractReadID P) = Some (identity_of V reader) \<and> GetID A d = GetBaseID A d"

lemma sc_SetupDarcs_rules:
  assumes "darc_law A V" and "ContractSemiWriteID P \<noteq> ContractReadID P"
  shows "\<exists>d. sc_SetupDarcs A P rndW rndR = Ok (NewSignerEd25519 A rndW, NewSignerEd25519 A rndR, d) \<and>
    share_rules A P V (NewSignerEd25519 A rndW) (NewSignerEd25519 A rndR) d"
proof -
  let ?w = "NewSignerEd25519 A rndW" and ?r = "NewSignerEd25519 A rndR"
  let ?d0 = "NewDarc A [?w] [?w] ''Writer''"
  from assms(1) have add: "rule_of V d a = None \<Longrightarrow>
      \<exists>d'. AddRule A a sg d = Ok d' \<and> rule_of V d' = (rule_of V d)(a \<mapsto> identity_of V sg) \<and>
        (GetID A d = GetBaseID A d \<longrightarrow> GetID A d' = GetBaseID A d')" for d a sg
    unfolding darc_law_def by blast
  have d0: "rule_of V ?d0 (''spawn:'' @ c) = None" "GetID A ?d0 = GetBaseID A ?d0" for c
    using assms(1) unfolding darc_law_def by blast+
  from add [OF d0(1), of "ContractSemiWriteID P" ?w] d0(2) obtain d1 where
    d1: "AddRule A (''spawn:'' @ ContractSemiWriteID P) ?w ?d0 = Ok d1" "GetID A d1 = GetBaseID A d1"
      "rule_of V d1 = (rule_of V ?d0)(''spawn:'' @ ContractSemiWriteID P \<mapsto> identity_of V ?w)" by blast
  with assms(2) d0(1) have "rule_of V d1 (''spawn:'' @ ContractReadID P) = None" by simp
  from add [OF this, of ?r] d1(2) obtain d2 where
    "AddRule A (''spawn:'' @ ContractReadID P) ?r d1 = Ok d2" "GetID A d2 = GetBaseID A d2"
    "rule_of V d2 = (rule_of V d1)(''spawn:'' @ ContractReadID P \<mapsto> identity_of V ?r)" by blast
  with d1(1,3) assms(2) show ?thesis by (simp add: sc_SetupDarcs_def Let_def share_rules_def)
qed

lemma authorised_spawn:
  assumes "ledger_law L" and "darc_ledger_law A L P V"
    and "instance_at V led iid = Some (c, d)" and "rule_of V d (''spawn:'' @ cid) = Some (identity_of V sg)"
  shows "\<exists>ins. SignBy L (GetBaseID A d) sg (spawn_instruction iid nonce cid name val) = Ok ins \<and>
    authorised A V led ins c d cid \<and> in_InstanceID ins = iid \<and>
    in_Spawn ins = Some \<lparr>sp_ContractID = cid, sp_Args = [\<lparr>arg_Name = name, arg_Value = val\<rparr>]\<rparr>"
proof -
  obtain ins where ins: "SignBy L (GetBaseID A d) sg (spawn_instruction iid nonce cid name val) = Ok ins"
    "in_InstanceID ins = iid" "signed_by V ins (GetBaseID A d) (identity_of V sg)"
    using darc_ledger_lawD(1) [OF assms(2), of "GetBaseID A d" sg "spawn_instruction iid nonce cid name val"]
    by (auto simp: spawn_instruction_def)
  moreover have "in_Spawn ins = Some \<lparr>sp_ContractID = cid, sp_Args = [\<lparr>arg_Name = name, arg_Value = val\<rparr>]\<rparr>"
    using assms(1) ins(1) by (metis ledger_law_def in_Spawn_spawn_instruction)
  ultimately show ?thesis using assms(3,4) by (auto simp: authorised_def)
qed

text \<open>\<open>SpawnDarc\<close> puts the darc into the ledger.\<close>

lemma sc_SpawnDarc_governs:
  assumes "ledger_law L" and "darc_law A V" and "darc_ledger_law A L P V"
    and "instance_at V led (NewInstanceID L (GetBaseID A g)) = Some (ContractDarcID A, g)"
    and "rule_of V g (''spawn:'' @ ContractDarcID A) = Some (identity_of V admin)"
  shows "\<exists>led'. sc_SpawnDarc A L nonce admin d g w led = (Ok (), led') \<and>
    instance_at V led' (NewInstanceID L (GetBaseID A d)) = Some (ContractDarcID A, d)"
proof -
  obtain buf where buf: "ToProto A d = Ok buf" using assms(2) unfolding darc_law_def by blast
  obtain ins where ins: "SignBy L (GetBaseID A g) admin (spawn_instruction (NewInstanceID L (GetBaseID A g)) nonce
      (ContractDarcID A) ''darc'' buf) = Ok ins" "authorised A V led ins (ContractDarcID A) g (ContractDarcID A)"
    "in_Spawn ins = Some \<lparr>sp_ContractID = ContractDarcID A, sp_Args = [\<lparr>arg_Name = ''darc'', arg_Value = buf\<rparr>]\<rparr>"
    using authorised_spawn [OF assms(1,3-5), of nonce "''darc''" buf] by blast
  from darc_ledger_lawD(3) [OF assms(3) ins(2) buf ins(3), of w] buf ins(1)
  show ?thesis by (auto simp: sc_SpawnDarc_def spawn_darc_def)
qed

section \<open>The write and the read\<close>

lemma authorised_write_and_read:
  assumes laws: "ledger_law L" "darc_ledger_law A L P V" "calypso_law P"
    and d: "instance_at V led (NewInstanceID L (GetBaseID A d)) = Some (ContractDarcID A, d)"
    and rules: "share_rules A P V writer reader d"
  shows "\<exists>t1 led1 wp wb t2 led2 rp rbuf rd.
    AddWriteTransaction A L P wd writer d 5 led = (Ok t1, led1) \<and>
    checked_proof L msgW (tr_InstanceID t1) led1 = Ok wp \<and>
    AddReadTransaction A L P wp reader d 5 led1 = (Ok t2, led2) \<and>
    checked_proof L msgR (tr_InstanceID t2) led2 = Ok rp \<and>
    ContractValue L wp (ContractSemiWriteID P) = Ok wb \<and>
    decode_SemiWrite P wb = Ok (semi_write_of wd) \<and>
    ContractValue L rp (ContractReadID P) = Ok rbuf \<and> decode_Read P rbuf = Ok rd \<and>
    rd_Write rd = NewInstanceID L (InclusionKey L wp) \<and>
    Proof_Verify L wp (LedgerID L led2) = Ok () \<and> Proof_Verify L rp (LedgerID L led2) = Ok ()"
proof -
  note r = rules [unfolded share_rules_def]
  obtain wb where wb: "encode_SemiWrite P (semi_write_of wd) = Ok wb" "decode_SemiWrite P wb = Ok (semi_write_of wd)"
    using laws(3) by (auto simp: calypso_law_def)
  obtain wi where wi: "SignBy L (GetBaseID A d) writer (spawn_instruction (NewInstanceID L (GetBaseID A d)) zero_nonce
      (ContractSemiWriteID P) ''write'' wb) = Ok wi" "authorised A V led wi (ContractDarcID A) d (ContractSemiWriteID P)"
    "in_Spawn wi = Some \<lparr>sp_ContractID = ContractSemiWriteID P, sp_Args = [\<lparr>arg_Name = ''write'', arg_Value = wb\<rparr>]\<rparr>"
    using authorised_spawn [OF laws(1,2) d conjunct1 [OF r], of zero_nonce "''write''" wb] by blast
  obtain led1 where led1: "AddTransactionAndWait L [wi] 5 led = (Ok (), led1)"
    "instance_at V led1 (DeriveID L wi []) = Some (ContractSemiWriteID P, d)"
    using darc_ledger_lawD(4) [OF laws(2) wi(2) wb(2) wi(3), of 5] by blast
  obtain wp where wp: "GetProof L (DeriveID L wi []) led1 = Ok wp" "Match L wp" "InclusionKey L wp = DeriveID L wi []"
    "ContractValue L wp (ContractSemiWriteID P) = Ok wb" "Proof_Verify L wp (LedgerID L led1) = Ok ()"
    using ledger_law_proof [OF laws(1) _ wi(1) led1(1)] by auto
  let ?w = "NewInstanceID L (InclusionKey L wp)"
  have at: "instance_at V led1 ?w = Some (ContractSemiWriteID P, d)"
    using led1(2) wp(3) darc_ledger_lawD(2) [OF laws(2), of wi] by simp
  let ?rd = "\<lparr>rd_Write = ?w, rd_Xc = sg_Point reader\<rparr>"
  obtain rb where rb: "encode_Read P ?rd = Ok rb" "decode_Read P rb = Ok ?rd"
    using laws(3) by (auto simp: calypso_law_def)
  obtain ri where ri: "SignBy L (GetBaseID A d) reader (spawn_instruction ?w zero_nonce (ContractReadID P) ''read'' rb) = Ok ri"
    "authorised A V led1 ri (ContractSemiWriteID P) d (ContractReadID P)" "in_InstanceID ri = ?w"
    "in_Spawn ri = Some \<lparr>sp_ContractID = ContractReadID P, sp_Args = [\<lparr>arg_Name = ''read'', arg_Value = rb\<rparr>]\<rparr>"
    using authorised_spawn [OF laws(1,2) at, of "ContractReadID P" reader zero_nonce "''read''" rb] r by blast
  obtain led2 where led2: "AddTransactionAndWait L [ri] 5 led1 = (Ok (), led2)"
    using darc_ledger_lawD(5) [OF laws(2) ri(2) rb(2) _ ri(4), of 5] ri(3) by auto
  obtain rp where rp: "GetProof L (DeriveID L ri []) led2 = Ok rp" "Match L rp"
    "ContractValue L rp (ContractReadID P) = Ok rb" "Proof_Verify L rp (LedgerID L led2) = Ok ()"
    using ledger_law_proof [OF laws(1) _ ri(1) led2] by auto
  have id: "LedgerID L led2 = LedgerID L led1" by (rule ledger_law_ID [OF laws(1) led2])
  have "AddWriteTransaction A L P wd writer d 5 led = (Ok \<lparr>tr_InstanceID = DeriveID L wi []\<rparr>, led1)"
    using wb(1) wi(1) led1(1) r by (simp add: AddWriteTransaction_def)
  moreover have "AddReadTransaction A L P wp reader d 5 led1 = (Ok \<lparr>tr_InstanceID = DeriveID L ri []\<rparr>, led2)"
    using rb(1) ri(1) led2 r by (simp add: AddReadTransaction_def Let_def)
  moreover have "checked_proof L msgW (DeriveID L wi []) led1 = Ok wp" "checked_proof L msgR (DeriveID L ri []) led2 = Ok rp"
    using wp(1,2) rp(1,2) by (simp_all add: checked_proof_def api_GetProof_def)
  ultimately show ?thesis using wb(2) wp(4,5) rb(2) rp(3,4) id
    by (intro exI [of _ "\<lparr>tr_InstanceID = DeriveID L wi []\<rparr>"] exI [of _ led1] exI [of _ wp] exI [of _ wb]
        exI [of _ "\<lparr>tr_InstanceID = DeriveID L ri []\<rparr>"] exI [of _ led2] exI [of _ rp] exI [of _ rb] exI [of _ ?rd]) simp
qed

section \<open>A concrete ledger with darcs for the witnesses\<close>

text \<open>An identity is the point of a signer, a darc is the list of its rules, its ID is its encoding, and a
  signature names the darc and the identity. The ledger is the list of its instances, the newest first, each
  with its contract, its darc and its value; an instruction that its darc does not allow changes nothing, and
  is refused when it is waited for.\<close>

type_synonym rule_list = "(string \<times> int) list"

type_synonym darc_led = "(bytes \<times> string \<times> rule_list \<times> bytes) list"

definition put_string :: "string \<Rightarrow> bytes" where
  "put_string a = put_bytes (map (\<lambda>c. word_of_nat (of_char c)) a)"

fun put_rules :: "rule_list \<Rightarrow> bytes" where
  "put_rules [] = [0]"
| "put_rules ((a, i) # rs) = 1 # put_string a @ put_int i @ put_rules rs"

fun get_rules :: "nat \<Rightarrow> bytes \<Rightarrow> rule_list option" where
  "get_rules (Suc n) (t # s) =
     (if t = 0 then Some []
      else Option.bind (get_bytes s) (\<lambda>(a, s).
           Option.bind (get_int s) (\<lambda>(i, s).
           Option.bind (get_rules n s) (\<lambda>rs. Some ((map (\<lambda>b. char_of (unat b)) a, i) # rs)))))"
| "get_rules _ _ = None"

lemma get_put_string: "get_bytes (put_string a @ s) = Some (map (\<lambda>c. word_of_nat (of_char c)) a, s)"
  by (simp add: put_string_def)

lemma char_of_byte: "char_of (unat (word_of_nat (of_char c) :: byte)) = c"
  by (simp add: unat_of_nat take_bit_nat_eq_self)

lemma get_put_rules: "length rs < n \<Longrightarrow> get_rules n (put_rules rs) = Some rs"
proof (induction rs arbitrary: n rule: put_rules.induct)
  case (2 a i rs)
  then obtain m where "n = Suc m" "length rs < m" by (cases n) auto
  with 2 show ?case by (simp add: get_put_string char_of_byte comp_def)
qed (simp add: gr0_conv_Suc, auto)

definition darc_of :: "bytes \<Rightarrow> rule_list option" where
  "darc_of buf = get_rules (length buf) buf"

lemma darc_of_rules [simp]: "darc_of (put_rules rs) = Some rs"
proof -
  have "length rs < length (put_rules rs)" by (induction rs rule: put_rules.induct) auto
  then show ?thesis by (simp add: darc_of_def get_put_rules)
qed

definition rule_sig :: "bytes \<Rightarrow> int \<Rightarrow> bytes" where
  "rule_sig dID i = put_bytes dID @ put_int i"

definition led_at :: "darc_led \<Rightarrow> bytes \<Rightarrow> (string \<times> rule_list \<times> bytes) option" where
  "led_at led iid = map_of led iid"

definition rule_ID :: "Instruction \<Rightarrow> string \<Rightarrow> bytes" where
  "rule_ID ins what = 5 # in_InstanceID ins @ concat (in_Signatures ins)"

text \<open>Whether the darc \<open>d\<close> allows the instruction, and what the three contracts make of it.\<close>

definition rule_allows :: "rule_list \<Rightarrow> Instruction \<Rightarrow> string \<Rightarrow> bool" where
  "rule_allows d ins cid \<longleftrightarrow>
     (case map_of d (''spawn:'' @ cid) of None \<Rightarrow> False
      | Some i \<Rightarrow> in_Signatures ins = [rule_sig (put_rules d) i])"

definition contract_entries ::
    "string \<Rightarrow> rule_list \<Rightarrow> Instruction \<Rightarrow> string \<Rightarrow> string \<Rightarrow> bytes \<Rightarrow> darc_led option" where
  "contract_entries c d ins cid name val =
     (if c = ''darc'' \<and> cid = ''darc'' \<and> name = ''darc'' then
        (case darc_of val of None \<Rightarrow> None | Some d' \<Rightarrow> Some [(val, cid, d', val), (rule_ID ins [], cid, d', val)])
      else if c = ''darc'' \<and> cid = ''semiwrite'' \<and> name = ''write'' \<or> c = ''semiwrite'' \<and> cid = ''read'' \<and> name = ''read''
      then Some [(rule_ID ins [], cid, d, val)] else None)"

definition led_execute :: "Instruction \<Rightarrow> darc_led \<Rightarrow> darc_led option" where
  "led_execute ins led =
     (case (in_Spawn ins, led_at led (in_InstanceID ins)) of
        (Some sp, Some (c, d, _)) \<Rightarrow>
          (case sp_Args sp of
             [a] \<Rightarrow> if rule_allows d ins (sp_ContractID sp)
                    then map_option (\<lambda>es. es @ led)
                           (contract_entries c d ins (sp_ContractID sp) (arg_Name a) (arg_Value a))
                    else None
           | _ \<Rightarrow> None)
      | _ \<Rightarrow> None)"

definition led_add :: "Instruction list \<Rightarrow> int \<Rightarrow> darc_led \<Rightarrow> unit go \<times> darc_led" where
  "led_add inss w led =
     (case inss of
        [ins] \<Rightarrow> (case led_execute ins led of
                    Some led' \<Rightarrow> (Ok (), led')
                  | None \<Rightarrow> (if w = 0 then Ok () else Err (Error ''transaction refused''), led))
      | _ \<Rightarrow> (Err (Error ''one instruction expected''), led))"

definition led_sign :: "bytes \<Rightarrow> (int, int) key_signer \<Rightarrow> Instruction \<Rightarrow> Instruction go" where
  "led_sign dID sg ins = Ok (ins\<lparr>in_Signatures := [rule_sig dID (sg_Point sg)]\<rparr>)"

definition rule_ledger :: "(darc_led, example_proof, (int, int) key_signer, unit) ledger" where
  "rule_ledger =
     \<lparr>SignBy = led_sign, SignInstruction = led_sign, DeriveID = rule_ID, NewInstanceID = (\<lambda>k. k),
      AddTransaction = (\<lambda>inss. led_add inss 0), AddTransactionAndWait = led_add,
      GetProof = (\<lambda>iid led. case led_at led iid of None \<Rightarrow> Err (Error ''no proof'') | Some (c, d, v) \<Rightarrow> Ok (iid, c, v)),
      LedgerID = (\<lambda>_. ()), Match = (\<lambda>_. True), InclusionKey = fst,
      ContractValue = (\<lambda>p cid. if fst (snd p) = cid then Ok (snd (snd p)) else Err (Error ''wrong contract'')),
      Proof_Verify = (\<lambda>_ _. Ok ())\<rparr>"

definition rule_darcs ::
    "(rule_list, (int, int) key_signer, int, unit, rule_list, darc_led) darc_api" where
  "rule_darcs =
     \<lparr>NewSignerEd25519 = (\<lambda>r. \<lparr>sg_Point = r, sg_Secret = r\<rparr>), NewDarc = (\<lambda>os ss desc. map (\<lambda>s. (''_sign'', sg_Point s)) ss),
      AddRule = (\<lambda>a s d. if map_of d a = None then Ok ((a, sg_Point s) # d) else Err (Error ''rule already exists'')),
      ToProto = (\<lambda>d. Ok (put_rules d)), GetBaseID = put_rules, GetID = put_rules, ContractDarcID = ''darc'',
      DefaultGenesisMsg = (\<lambda>_ rules s. Ok (map (\<lambda>a. (a, sg_Point s)) rules)), SetBlockInterval = (\<lambda>_ g. g),
      GenesisDarc = (\<lambda>g. g), NewLedger = (\<lambda>g. Ok [(put_rules g, ''darc'', g, put_rules g)])\<rparr>"

definition rule_view :: "(rule_list, (int, int) key_signer, int, darc_led) darc_view" where
  "rule_view =
     \<lparr>identity_of = sg_Point, rule_of = map_of, signed_by = (\<lambda>ins dID i. in_Signatures ins = [rule_sig dID i]),
      instance_at = (\<lambda>led iid. map_option (\<lambda>(c, d, _). (c, d)) (led_at led iid))\<rparr>"

lemma led_executeD:
  assumes "led_execute ins led = Some led'"
    and "in_Spawn ins = Some \<lparr>sp_ContractID = cid, sp_Args = [\<lparr>arg_Name = name, arg_Value = val\<rparr>]\<rparr>"
  shows "\<exists>d. led_at led' (rule_ID ins []) = Some (cid, d, val)"
  using assms by (auto simp: led_execute_def led_at_def contract_entries_def split: option.splits if_splits)

lemma rule_ledger_law [simp]: "ledger_law rule_ledger"
proof -
  have "\<exists>p. GetProof rule_ledger (DeriveID rule_ledger ins []) led' = Ok p \<and> Match rule_ledger p \<and>
      InclusionKey rule_ledger p = DeriveID rule_ledger ins [] \<and> ContractValue rule_ledger p cid = Ok val \<and>
      Proof_Verify rule_ledger p (LedgerID rule_ledger led') = Ok ()"
    if "0 < w" "AddTransactionAndWait rule_ledger [ins] w led = (Ok (), led')"
      "in_Spawn ins = Some \<lparr>sp_ContractID = cid, sp_Args = [\<lparr>arg_Name = name, arg_Value = val\<rparr>]\<rparr>"
    for ins w led led' cid name val
  proof -
    from that(1,2) have "led_execute ins led = Some led'"
      by (auto simp: rule_ledger_def led_add_def split: option.splits if_splits)
    from led_executeD [OF this that(3)] show ?thesis by (auto simp: rule_ledger_def)
  qed
  moreover have "SignBy rule_ledger dID sg ins = Ok ins' \<Longrightarrow> in_Spawn ins' = in_Spawn ins" for dID sg ins ins'
    by (auto simp: rule_ledger_def led_sign_def)
  ultimately show ?thesis unfolding ledger_law_def by (intro conjI allI impI) (blast | simp add: rule_ledger_def)+
qed

lemma rule_darcs_law: "darc_law rule_darcs rule_view"
proof -
  have "map_of (map (\<lambda>s :: (int, int) key_signer. (''_sign'', sg_Point s)) ss) (''spawn:'' @ c) = None" for ss c
    by (induction ss) auto
  then show ?thesis by (simp add: darc_law_def rule_darcs_def rule_view_def)
qed

lemma rule_genesis_law: "genesis_law rule_darcs rule_ledger rule_view"
proof -
  have "map_of (map (\<lambda>a. (a, i :: int)) rules) a = Some i" if "a \<in> set rules" for a :: string and i rules
    using that by (induction rules) auto
  then show ?thesis by (simp add: genesis_law_def rule_darcs_def rule_ledger_def rule_view_def led_at_def Let_def)
qed

lemma rule_authorised:
  "authorised rule_darcs rule_view led ins c d cid \<longleftrightarrow>
     rule_allows d ins cid \<and> (\<exists>v. led_at led (in_InstanceID ins) = Some (c, d, v))"
  by (auto simp: authorised_def rule_darcs_def rule_view_def rule_allows_def split: option.splits)

lemma rule_ledger_darcs: "darc_ledger_law rule_darcs rule_ledger example_calypso rule_view"
proof -
  have add: "\<exists>es. led_add [ins] w led = (Ok (), es @ led) \<and> contract_entries c d ins cid name val = Some es"
    if "authorised rule_darcs rule_view led ins c d cid" "contract_entries c d ins cid name val \<noteq> None"
      "in_Spawn ins = Some \<lparr>sp_ContractID = cid, sp_Args = [\<lparr>arg_Name = name, arg_Value = val\<rparr>]\<rparr>"
    for led ins w c d cid name val
    using that by (auto simp: rule_authorised led_add_def led_execute_def)
  show ?thesis
    unfolding darc_ledger_law_def
  proof (intro conjI allI impI)
    fix ins w led d d' buf
    assume "authorised rule_darcs rule_view led ins (ContractDarcID rule_darcs) d (ContractDarcID rule_darcs)"
      "ToProto rule_darcs d' = Ok buf" "in_Spawn ins = Some \<lparr>sp_ContractID = ContractDarcID rule_darcs,
        sp_Args = [\<lparr>arg_Name = ''darc'', arg_Value = buf\<rparr>]\<rparr>"
    with add [of led ins "''darc''" d "''darc''" "''darc''" buf w]
    show "\<exists>led'. AddTransactionAndWait rule_ledger [ins] w led = (Ok (), led') \<and>
        instance_at rule_view led' (NewInstanceID rule_ledger (GetBaseID rule_darcs d')) = Some (ContractDarcID rule_darcs, d')"
      by (auto simp: rule_ledger_def rule_darcs_def rule_view_def led_at_def contract_entries_def)
  next
    fix ins w led d wr val
    assume "authorised rule_darcs rule_view led ins (ContractDarcID rule_darcs) d (ContractSemiWriteID example_calypso)"
      "in_Spawn ins = Some \<lparr>sp_ContractID = ContractSemiWriteID example_calypso,
        sp_Args = [\<lparr>arg_Name = ''write'', arg_Value = val\<rparr>]\<rparr>"
    with add [of led ins "''darc''" d "''semiwrite''" "''write''" val w]
    show "\<exists>led'. AddTransactionAndWait rule_ledger [ins] w led = (Ok (), led') \<and>
        instance_at rule_view led' (DeriveID rule_ledger ins []) = Some (ContractSemiWriteID example_calypso, d)"
      by (auto simp: rule_ledger_def rule_darcs_def rule_view_def led_at_def contract_entries_def example_calypso_def)
  next
    fix ins w led d rd val
    assume "authorised rule_darcs rule_view led ins (ContractSemiWriteID example_calypso) d (ContractReadID example_calypso)"
      "in_Spawn ins = Some \<lparr>sp_ContractID = ContractReadID example_calypso,
        sp_Args = [\<lparr>arg_Name = ''read'', arg_Value = val\<rparr>]\<rparr>"
    with add [of led ins "''semiwrite''" d "''read''" "''read''" val w]
    show "\<exists>led'. AddTransactionAndWait rule_ledger [ins] w led = (Ok (), led') \<and>
        instance_at rule_view led' (DeriveID rule_ledger ins []) = Some (ContractReadID example_calypso, d)"
      by (auto simp: rule_ledger_def rule_darcs_def rule_view_def led_at_def contract_entries_def example_calypso_def)
  qed (simp_all add: rule_ledger_def rule_view_def led_sign_def)
qed

text \<open>This ledger does check: a write on a darc that was not spawned is refused, and so is one by a signer
  that the darc does not name.\<close>

lemma rule_ledger_refuses:
  assumes "led_at led (put_rules d) = None \<or>
    led_at led (put_rules d) = Some (''darc'', d, v) \<and> map_of d ''spawn:semiwrite'' \<noteq> Some (sg_Point sg)"
  shows "AddWriteTransaction rule_darcs rule_ledger example_calypso wd sg d 5 led =
    (Err (Error ''transaction refused''), led)"
proof -
  have sig: "rule_sig a i = rule_sig a j \<Longrightarrow> i = j" for a i j
    using get_put_int [of i "[]"] get_put_int [of j "[]"] by (simp add: rule_sig_def)
  let ?ins = "\<lambda>val. (spawn_instruction (put_rules d) zero_nonce ''semiwrite'' ''write'' val)
    \<lparr>in_Signatures := [rule_sig (put_rules d) (sg_Point sg)]\<rparr>"
  have no: "map_of d ''spawn:semiwrite'' \<noteq> Some (sg_Point sg) \<Longrightarrow> \<not> rule_allows d (?ins val) ''semiwrite''" for val
    by (auto simp: rule_allows_def split: option.splits dest: sig)
  have "led_execute (?ins val) led = None" for val
    using assms no [of val] by (auto simp: led_execute_def spawn_instruction_def)
  then show ?thesis
    by (simp add: AddWriteTransaction_def Let_def rule_darcs_def rule_ledger_def example_calypso_def led_sign_def led_add_def)
qed

end
