(* ===== verification/Client_Mains.thy ===== *)
theory Client_Mains
  imports Fully_Centralized Darc_Ledger
begin

text \<open>
  The command-line clients from their configuration files on:
  \<open>main\<close> of \<open>src/fully_centralized/client/main.go\<close>, which writes and reads 70 pieces of data, and
  \<open>main\<close> of \<open>src/semi_centralized/client/main.go\<close>. The flags are arguments: the result of opening the
  roster file with \<open>ReadGroupDescToml\<close> (\<open>rd\<close>), the lines of the key file, and the block interval.
  A roster that \<open>ReadRoster\<close> gives as nil without an error is used all the same.
\<close>

section \<open>The fully centralised client\<close>

definition main_data :: "nat \<Rightarrow> bytes" where
  "main_data i = map of_char (''On Wisconsin! -- '' @ Itoa (i + 1))"

text \<open>A run with the roster that \<open>main\<close> has. On a nil roster the client panics at \<open>r.List[0]\<close>, once the
  write data is made.\<close>

definition run_on_roster ::
    "('pt, 'sc, 'rnd) suite \<Rightarrow> ('db, 'pt WriteRequest) store_env \<Rightarrow> 'rnd \<Rightarrow> 'rnd entropy \<Rightarrow> 'rnd \<Rightarrow> 'rnd
      \<Rightarrow> delivery \<Rightarrow> delivery \<Rightarrow> 'si list option \<Rightarrow> ('si \<Rightarrow> ('sc, 'db) FService) \<Rightarrow> 'pt \<Rightarrow> bytes
      \<Rightarrow> bytes process \<times> ('si \<Rightarrow> ('sc, 'db) FService)" where
  "run_on_roster S E rs e r1 r2 d1 d2 roster sv serverKey data =
     (case roster of
        Some r \<Rightarrow> runFullyCentralizedCalypso S E rs e r1 r2 d1 d2 r sv serverKey data
      | None \<Rightarrow>
          (case CreateWriteData S e data (Mul S (Pick S rs) None) serverKey False of
             Err er \<Rightarrow> (os_Exit, sv) | Panic pa \<Rightarrow> (Returns (Panic pa), sv)
           | Ok _ \<Rightarrow> (Returns (Panic NilDereference), sv)))"

text \<open>The loop; the draws and the fates of the requests are those of iteration \<open>i\<close>. The data that is printed
  comes first in the result. An error that is returned is logged, and the loop goes on.\<close>

fun fc_main_loop ::
    "('pt, 'sc, 'rnd) suite \<Rightarrow> ('db, 'pt WriteRequest) store_env \<Rightarrow> (nat \<Rightarrow> 'rnd) \<Rightarrow> (nat \<Rightarrow> 'rnd entropy)
      \<Rightarrow> (nat \<Rightarrow> 'rnd) \<Rightarrow> (nat \<Rightarrow> 'rnd) \<Rightarrow> (nat \<Rightarrow> delivery) \<Rightarrow> (nat \<Rightarrow> delivery) \<Rightarrow> 'si list option \<Rightarrow> 'pt \<Rightarrow> nat list
      \<Rightarrow> ('si \<Rightarrow> ('sc, 'db) FService) \<Rightarrow> bytes list \<times> unit process \<times> ('si \<Rightarrow> ('sc, 'db) FService)" where
  "fc_main_loop S E rs e r1 r2 d1 d2 roster serverKey [] sv = ([], Returns (Ok ()), sv)"
| "fc_main_loop S E rs e r1 r2 d1 d2 roster serverKey (i # is) sv =
     (case run_on_roster S E (rs i) (e i) (r1 i) (r2 i) (d1 i) (d2 i) roster sv serverKey (main_data i) of
        (Exits msg, sv') \<Rightarrow> ([], Exits msg, sv')
      | (Returns (Panic p), sv') \<Rightarrow> ([], Returns (Panic p), sv')
      | (Returns (Err _), sv') \<Rightarrow> fc_main_loop S E rs e r1 r2 d1 d2 roster serverKey is sv'
      | (Returns (Ok d), sv') \<Rightarrow> apfst ((#) d) (fc_main_loop S E rs e r1 r2 d1 d2 roster serverKey is sv'))"

definition fc_main ::
    "('pt, 'sc, 'rnd) suite \<Rightarrow> ('db, 'pt WriteRequest) store_env \<Rightarrow> (nat \<Rightarrow> 'rnd) \<Rightarrow> (nat \<Rightarrow> 'rnd entropy)
      \<Rightarrow> (nat \<Rightarrow> 'rnd) \<Rightarrow> (nat \<Rightarrow> 'rnd) \<Rightarrow> (nat \<Rightarrow> delivery) \<Rightarrow> (nat \<Rightarrow> delivery) \<Rightarrow> 'file go \<Rightarrow> ('file \<Rightarrow> 'si list go)
      \<Rightarrow> string list go \<Rightarrow> ('si \<Rightarrow> ('sc, 'db) FService) \<Rightarrow> bytes list \<times> unit process \<times> ('si \<Rightarrow> ('sc, 'db) FService)" where
  "fc_main S E rs e r1 r2 d1 d2 rosterFile rd keyFile sv =
     (case ReadRoster rosterFile rd of
        Err _ \<Rightarrow> ([], os_Exit, sv) | Panic p \<Rightarrow> ([], Returns (Panic p), sv)
      | Ok roster \<Rightarrow>
     (case GetServerKey S keyFile of
        Err _ \<Rightarrow> ([], os_Exit, sv) | Panic p \<Rightarrow> ([], Returns (Panic p), sv)
      | Ok serverKey \<Rightarrow> fc_main_loop S E rs e r1 r2 d1 d2 roster serverKey [0..<70] sv))"

section \<open>The semi-centralised client\<close>

text \<open>An error of \<open>runSemiCentralized\<close> is logged, and the process then ends as usual; the result is the data
  that is printed. What cothority's \<open>DefaultGenesisMsg\<close> makes of a nil roster is \<open>onNil\<close>.\<close>

definition sc_main ::
    "('pt, 'sc, 'rnd) suite \<Rightarrow> ('darc, ('pt, 'sc) key_signer, 'rnd, 'si, 'gmsg, 'led) darc_api
      \<Rightarrow> ('led, 'proof, ('pt, 'sc) key_signer, 'scid) ledger \<Rightarrow> 'pt calypso
      \<Rightarrow> ('db, StoreRequest) store_env \<Rightarrow> error + panic \<Rightarrow> 'rnd \<Rightarrow> 'rnd \<Rightarrow> 'rnd \<Rightarrow> bytes \<Rightarrow> 'rnd entropy \<Rightarrow> 'rnd \<Rightarrow> 'rnd
      \<Rightarrow> delivery \<Rightarrow> delivery \<Rightarrow> 'file go \<Rightarrow> ('file \<Rightarrow> 'si list go) \<Rightarrow> string list go \<Rightarrow> int
      \<Rightarrow> ('si \<Rightarrow> ('sc, 'db) SService) \<Rightarrow> bytes process \<times> ('si \<Rightarrow> ('sc, 'db) SService) \<times> 'led option" where
  "sc_main S A L P E onNil rndA rndW rndR nonce e r1 r2 d1 d2 rosterFile rd keyFile interval sv =
     (case ReadRoster rosterFile rd of
        Err er \<Rightarrow> (Exits (''Reading roster failed: '' @ err_msg er), sv, None)
      | Panic p \<Rightarrow> (Returns (Panic p), sv, None)
      | Ok roster \<Rightarrow>
     (case GetServerKey S keyFile of
        Err er \<Rightarrow> (Exits (''Get server key failed: '' @ err_msg er), sv, None)
      | Panic p \<Rightarrow> (Returns (Panic p), sv, None)
      | Ok serverKey \<Rightarrow>
     (case roster of
        None \<Rightarrow> (Returns (fail_with onNil), sv, None)
      | Some r \<Rightarrow>
          apfst Returns (runSemiCentralized S A L P E rndA rndW rndR nonce e r1 r2 d1 d2 r sv serverKey interval))))"

section \<open>Facts\<close>

lemma main_keys:
  "mapG (StringHexToPoint S) ls = Ok (k # ks) \<Longrightarrow> GetServerKey S (Ok ls) = Ok k"
  by (simp add: get_server_key_first)

text \<open>The loop prints what it wrote, while the ciphertexts of its iterations are new to the server and have
  different hashes.\<close>

lemma fc_main_loop_ok:
  assumes laws: "group_law S" "aead_law S" "sign_law S" "store_law E" "store_up E" and hash: "hash256 E = Sum256 S"
    and key: "serverKey = Mul S sk None"
    and draws: "\<And>i. i \<in> set is \<Longrightarrow> entropy_ok (e i) \<and> nonceDraw (e i) = Ok (n i)"
    and tr: "\<And>i. i \<in> set is \<Longrightarrow> \<exists>w1 w2. d1 i = Delivered w1 \<and> d2 i = Delivered w2"
    and new: "distinct is" "inj_on h (set is)"
      "\<And>i. i \<in> set is \<Longrightarrow> h i = Sum256 S (gcm_Seal S (symKeyDraw (e i)) (n i) (main_data i) @ n i)"
    and fresh: "\<And>i. i \<in> set is \<Longrightarrow> bGet E (fs_db (sv srv)) (fs_bucket (sv srv)) (h i) = None" and priv: "fs_priv (sv srv) = sk"
  shows "\<exists>sv'. fc_main_loop S E rs e r1 r2 d1 d2 (Some (srv # rest)) serverKey is sv =
    (map main_data is, Returns (Ok ()), sv')"
  using draws tr new fresh priv
proof (induction "is" arbitrary: sv)
  case (Cons i "is")
  obtain w1 w2 where w: "d1 i = Delivered w1" "d2 i = Delivered w2" using Cons.prems(2) [of i] by auto
  have "entropy_ok (e i)" "nonceDraw (e i) = Ok (n i)" using Cons.prems(1) [of i] by simp_all
  moreover have "bGet E (fs_db (sv srv)) (fs_bucket (sv srv))
      (Sum256 S (gcm_Seal S (symKeyDraw (e i)) (n i) (main_data i) @ n i)) = None"
    using Cons.prems(5) [of i] Cons.prems(6) [of i] by simp
  ultimately obtain db' v where
    run: "run_on_roster S E (rs i) (e i) (r1 i) (r2 i) (d1 i) (d2 i) (Some (srv # rest)) sv serverKey (main_data i) =
      (Returns (Ok (main_data i)), sv(srv := (sv srv)\<lparr>fs_db := db'\<rparr>))"
    and db': "bGet E db' = (bGet E (fs_db (sv srv)))(fs_bucket (sv srv) :=
      (bGet E (fs_db (sv srv)) (fs_bucket (sv srv)))(h i \<mapsto> v))"
    using run_fully_ok [where sv = sv and srv = srv and serverKey = serverKey and e = "e i" and n = "n i" and
        data = "main_data i", OF laws hash, of "rs i" "r1 i" "r2 i" w1 w2 rest] key Cons.prems(5) [of i] Cons.prems(7) w
    by (auto simp: run_on_roster_def)
  have "h j \<noteq> h i" if "j \<in> set is" for j
    using Cons.prems(3,4) that by (auto simp: inj_on_def)
  then have "\<exists>sv'. fc_main_loop S E rs e r1 r2 d1 d2 (Some (srv # rest)) serverKey is (sv(srv := (sv srv)\<lparr>fs_db := db'\<rparr>)) =
      (map main_data is, Returns (Ok ()), sv')"
    using Cons.prems by (intro Cons.IH) (auto simp: db')
  with run show ?case by auto
qed simp

text \<open>On a roster file without servers \<open>ReadRoster\<close> reports no error, and the first iteration panics.\<close>

lemma fc_main_empty_roster:
  assumes "rosterFile = Ok f" and "rd f = Ok []" and "GetServerKey S keyFile = Ok serverKey"
    and "entropy_ok (e 0)" and "nonceDraw (e 0) = Ok n"
  shows "fc_main S E rs e r1 r2 d1 d2 rosterFile rd keyFile sv = ([], Returns (Panic NilDereference), sv)"
proof -
  obtain wd where "CreateWriteData S (e 0) (main_data 0) (Mul S (Pick S (rs 0)) None) serverKey False = Ok wd"
    using CreateWriteData_plain [OF assms(4,5), of S "main_data 0" "Mul S (Pick S (rs 0)) None" serverKey] by auto
  then have "fc_main_loop S E rs e r1 r2 d1 d2 None serverKey (0 # [1..<70]) sv = ([], Returns (Panic NilDereference), sv)"
    by (simp add: run_on_roster_def)
  moreover have "[0..<70] = 0 # [1..<70 :: nat]" by (simp add: upt_conv_Cons)
  ultimately show ?thesis using assms(1-3) by (simp add: fc_main_def ReadRoster_def)
qed

section \<open>Properties\<close>

text \<open>C9. The fully centralised program from its configuration files on: when the roster file names the server,
  the first line of the key file is its key and the other lines are keys too, and the 70 ciphertexts are
  new to the server and have different hashes, \<open>main\<close> prints the 70 data in order and ends.\<close>

theorem fully_main_prints:
  assumes laws: "group_law S" "aead_law S" "sign_law S" "store_law E" "store_up E" and hash: "hash256 E = Sum256 S"
    and files: "rosterFile = Ok f" "rd f = Ok (srv # rest)" "keyFile = Ok ls"
      "mapG (StringHexToPoint S) ls = Ok (Mul S (fs_priv (sv srv)) None # ks)"
    and draws: "\<And>i. i < 70 \<Longrightarrow> entropy_ok (e i) \<and> nonceDraw (e i) = Ok (n i)"
    and tr: "\<And>i. i < 70 \<Longrightarrow> \<exists>w1 w2. d1 i = Delivered w1 \<and> d2 i = Delivered w2"
    and h: "\<And>i. h i = Sum256 S (gcm_Seal S (symKeyDraw (e i)) (n i) (main_data i) @ n i)"
    and new: "inj_on h {..<70}" "\<And>i. i < 70 \<Longrightarrow> bGet E (fs_db (sv srv)) (fs_bucket (sv srv)) (h i) = None"
  shows "\<exists>sv'. fc_main S E rs e r1 r2 d1 d2 rosterFile rd keyFile sv = (map main_data [0..<70], Returns (Ok ()), sv')"
proof -
  have "\<exists>sv'. fc_main_loop S E rs e r1 r2 d1 d2 (Some (srv # rest)) (Mul S (fs_priv (sv srv)) None) [0..<70] sv =
      (map main_data [0..<70], Returns (Ok ()), sv')"
    using draws tr h new
    by (intro fc_main_loop_ok [where n = n and h = h and sv = sv and srv = srv, OF laws hash refl]) (auto simp: inj_on_def)
  then show ?thesis using files main_keys [OF files(4)] by (simp add: fc_main_def ReadRoster_def)
qed

theorem fully_main_prints_witness:
  "\<exists>sv'. fc_main example_suite fc_env (\<lambda>_. 3)
      (\<lambda>i. example_entropy\<lparr>nonceDraw := Ok (replicate 11 9 @ [word_of_nat i])\<rparr>) (\<lambda>_. 1) (\<lambda>_. 2)
      (\<lambda>_. Delivered id) (\<lambda>_. Delivered id) (Ok ()) (\<lambda>_. Ok [()]) (Ok [''07'']) (\<lambda>_. fc_server\<lparr>fs_priv := 263\<rparr>) =
    (map main_data [0..<70], Returns (Ok ()), sv')"
proof -
  let ?n = "\<lambda>i. replicate 11 9 @ [word_of_nat i :: byte]"
  let ?h = "\<lambda>i. Sum256 example_suite (gcm_Seal example_suite (replicate 16 5) (?n i) (main_data i) @ ?n i)"
  have "unat (word_of_nat i :: byte) = i" if "i < 70" for i using that by (simp add: unat_of_nat take_bit_nat_eq_self)
  then have inj: "inj_on ?h {..<70}"
    by (intro inj_onI) (simp add: example_suite_def, metis)
  have keys: "mapG (StringHexToPoint example_suite) [''07''] =
      Ok (Mul example_suite (fs_priv ((\<lambda>_. fc_server\<lparr>fs_priv := 263\<rparr>) ())) None # [])"
    by (simp add: example_suite_def fromHexChar_def)
  show ?thesis
    by (rule fully_main_prints [where S = example_suite and h = ?h and n = ?n and srv = "()" and
        rest = "[]" and ls = "[''07'']" and ks = "[]" and sv = "\<lambda>_. fc_server\<lparr>fs_priv := 263\<rparr>", OF _ _ _ _ _ _ _ _ _ keys _ _ _ inj])
      (simp_all add: entropy_ok_def)
qed

text \<open>C10. The semi-centralised program from its configuration files on: when the roster file names the server,
  the first line of the key file is its key, and the transport and the server are up, \<open>main\<close> prints exactly its
  data. The ledger accepts only what a darc in it allows, so this is about the set-up too: the genesis darc
  lets the admin spawn the darc of \<open>SetupDarcs\<close>, and that one lets the writer spawn the write and the reader the
  read of it.\<close>

theorem semi_main_recovers:
  assumes laws: "group_law S" "aead_law S" "sign_law S" "store_law E" "store_up E" "ledger_law L" "calypso_law P"
    and darcs: "darc_law A V" "genesis_law A L V" "darc_ledger_law A L P V"
      "distinct [ContractDarcID A, ContractSemiWriteID P, ContractReadID P]"
    and hash: "hash256 E = Sum256 S"
    and files: "rosterFile = Ok f" "rd f = Ok (srv # rest)" "keyFile = Ok ls"
      "mapG (StringHexToPoint S) ls = Ok (Mul S (ss_priv (sv srv)) None # ks)"
    and draws: "entropy_ok e" "nonceDraw e = Ok n" "readerNonceDraw e = Ok n'"
    and reader: "sg_Point (NewSignerEd25519 A rndR) = Mul S (sg_Secret (NewSignerEd25519 A rndR)) None"
      "MarshalBinary S (sg_Point (NewSignerEd25519 A rndR)) = Ok rb"
    and fresh: "bGet E (ss_db (sv srv)) (ss_bucket (sv srv))
      (Sum256 S (gcm_Seal S (symKeyDraw e) n (map of_char ''On Wisconsin!'') @ n)) = None"
  shows "fst (sc_main S A L P E onNil rndA rndW rndR nonce e r1 r2 (Delivered w1) (Delivered w2) rosterFile rd keyFile
      interval sv) = Returns (Ok (map of_char ''On Wisconsin!''))"
proof -
  let ?admin = "NewSignerEd25519 A rndA" and ?writer = "NewSignerEd25519 A rndW" and ?reader = "NewSignerEd25519 A rndR"
  obtain led gDarc where led: "sc_SetupByzcoin A P rndA (srv # rest) interval = Ok (led, ?admin, gDarc)"
    "instance_at V led (NewInstanceID L (GetBaseID A gDarc)) = Some (ContractDarcID A, gDarc)"
    "rule_of V gDarc (''spawn:'' @ ContractDarcID A) = Some (identity_of V ?admin)"
    using sc_SetupByzcoin_governed [OF darcs(2) _ darcs(4)] by blast
  obtain wDarc where wDarc: "sc_SetupDarcs A P rndW rndR = Ok (?writer, ?reader, wDarc)"
    "share_rules A P V ?writer ?reader wDarc"
    using sc_SetupDarcs_rules [OF darcs(1), of P rndW rndR] darcs(4) by auto
  obtain led' where spawn: "sc_SpawnDarc A L nonce ?admin wDarc gDarc 0 led = (Ok (), led')"
    "instance_at V led' (NewInstanceID L (GetBaseID A wDarc)) = Some (ContractDarcID A, wDarc)"
    using sc_SpawnDarc_governs [OF laws(6) darcs(1,3) led(2,3)] by blast
  have "fst (sc_share S A L P E e r1 r2 (Delivered w1) (Delivered w2) (srv # rest) sv (Mul S (ss_priv (sv srv)) None)
      (map of_char ''On Wisconsin!'') ?writer ?reader wDarc led') = Ok (map of_char ''On Wisconsin!'')"
    by (rule sc_share_on_ledger [where sv = sv and srv = srv and n = n and n' = n' and rb = rb, OF laws(1-5)
        authorised_write_and_read [OF laws(6) darcs(3) laws(7) spawn(2) wDarc(2)] hash draws refl reader fresh])
  then show ?thesis
    using files main_keys [OF files(4)] led(1) wDarc(1) spawn(1)
    by (simp add: sc_main_def ReadRoster_def runSemiCentralized_def split_def)
qed

theorem semi_main_recovers_witness:
  "fst (sc_main example_suite rule_darcs rule_ledger example_calypso sc_env (Inl (Error ''no roster'')) 1 2 3 [] sc_entropy 1 2
      (Delivered id) (Delivered id) (Ok ()) (\<lambda>_. Ok [()]) (Ok [''07'']) 10 (\<lambda>_. sc_server\<lparr>ss_priv := 263\<rparr>)) =
    Returns (Ok (map of_char ''On Wisconsin!''))"
proof -
  have keys: "mapG (StringHexToPoint example_suite) [''07''] =
      Ok (Mul example_suite (ss_priv ((\<lambda>_. sc_server\<lparr>ss_priv := 263\<rparr>) ())) None # [])"
    by (simp add: example_suite_def fromHexChar_def)
  have "distinct [ContractDarcID rule_darcs, ContractSemiWriteID example_calypso, ContractReadID example_calypso]"
    by (simp add: rule_darcs_def example_calypso_def)
  from semi_main_recovers [where n = "replicate 12 9" and n' = "replicate 12 3" and rb = "[3, 0]" and srv = "()" and rest = "[]" and
      sv = "\<lambda>_. sc_server\<lparr>ss_priv := 263\<rparr>" and ls = "[''07'']" and ks = "[]" and e = sc_entropy and rndR = 3 and
      keyFile = "Ok [''07'']" and rosterFile = "Ok ()" and rd = "\<lambda>_. Ok [()]",
      OF example_group_law example_aead_law example_sign_law sc_env_law map_env_up rule_ledger_law example_calypso_law
        rule_darcs_law rule_genesis_law rule_ledger_darcs this _ _ _ _ keys]
  show ?thesis
    by (simp add: example_suite_def rule_darcs_def)
qed

end
