(* ===== verification/Server_Specs.thy ===== *)
theory Server_Specs
  imports Fully_Centralized Semi_Centralized
begin

text \<open>
  What the two servers promise their clients, as abstract servers: a map from hashes to requests
  (\<open>blobs\<close>) and the private key, with no database transactions, no encoding and no bucket. Each server
  gives, call by call, the replies of its abstract server, errors included. The locale
  \<open>service_refinement\<close> lifts the refinement of single calls to sequences of calls; both servers
  interpret it.
\<close>

section \<open>Sequences of calls\<close>

fun serve_run :: "('s \<Rightarrow> 'c \<Rightarrow> 'a \<times> 's) \<Rightarrow> 's \<Rightarrow> 'c list \<Rightarrow> 'a list \<times> 's" where
  "serve_run step s [] = ([], s)"
| "serve_run step s (c # cs) =
     (let (a, s1) = step s c; (as, s2) = serve_run step s1 cs in (a # as, s2))"

locale service_refinement =
  fixes step :: "'s \<Rightarrow> 'c \<Rightarrow> 'a \<times> 's"
    and spec :: "'m \<Rightarrow> 'c \<Rightarrow> 'a \<times> 'm"
    and abst :: "'s \<Rightarrow> 'm"
    and inv :: "'s \<Rightarrow> bool"
  assumes step_refines: "inv s \<Longrightarrow> step s c = (a, s') \<Longrightarrow> spec (abst s) c = (a, abst s') \<and> inv s'"
begin

lemma run_refines:
  "inv s \<Longrightarrow> serve_run step s cs = (as, s') \<Longrightarrow> serve_run spec (abst s) cs = (as, abst s') \<and> inv s'"
proof (induction cs arbitrary: s as s')
  case (Cons c cs)
  obtain a s1 where step: "step s c = (a, s1)" by (cases "step s c")
  obtain as1 s2 where run: "serve_run step s1 cs = (as1, s2)" by (cases "serve_run step s1 cs")
  from step_refines [OF Cons.prems(1) step] have "spec (abst s) c = (a, abst s1)" and "inv s1" by simp_all
  moreover from Cons.IH [OF \<open>inv s1\<close> run] have "serve_run spec (abst s1) cs = (as1, abst s2)" and "inv s2"
    by simp_all
  ultimately show ?case using Cons.prems(2) step run by (auto simp: Let_def)
qed simp

end

section \<open>The fully centralised server\<close>

datatype 'pt fc_reply = WriteAnswer "WriteReply go" | ReadAnswer "'pt ReadReply go"

primrec fc_answer ::
    "('pt, 'sc, 'rnd) suite \<Rightarrow> ('db, 'pt WriteRequest) store_env \<Rightarrow> ('sc, 'db) FService
      \<Rightarrow> ('pt, 'rnd) fc_call \<Rightarrow> 'pt fc_reply \<times> ('sc, 'db) FService" where
  "fc_answer S E s (CallWrite req) = apfst WriteAnswer (Write E s req)"
| "fc_answer S E s (CallRead r1 r2 req) = apfst ReadAnswer (Read S E r1 r2 s req)"

primrec fc_spec ::
    "('pt, 'sc, 'rnd) suite \<Rightarrow> (bytes \<Rightarrow> bytes) \<Rightarrow> 'sc \<Rightarrow> 'pt WriteRequest blobs
      \<Rightarrow> ('pt, 'rnd) fc_call \<Rightarrow> 'pt fc_reply \<times> 'pt WriteRequest blobs" where
  "fc_spec S H sk m (CallWrite req) =
     apfst (\<lambda>res. WriteAnswer (bindG res (\<lambda>k. Ok \<lparr>WriteID = k\<rparr>))) (spec_store wr_EncData wr_DataHash H m req)"
| "fc_spec S H sk m (CallRead r1 r2 req) =
     (ReadAnswer (bindG (spec_fetch m (rr_WriteID req)) (\<lambda>w.
        bindG (fc_reencryptData S r1 r2 req w sk) (\<lambda>(k, c). Ok \<lparr>rp_K = k, rp_C = c\<rparr>))), m)"

definition fc_blobs :: "('db, 'pt WriteRequest) store_env \<Rightarrow> ('sc, 'db) FService \<Rightarrow> 'pt WriteRequest blobs" where
  "fc_blobs E s = blobs_of E (fs_bucket s) (fs_db s)"

definition fc_inv :: "('db, 'pt WriteRequest) store_env \<Rightarrow> 'sc \<Rightarrow> ('sc, 'db) FService \<Rightarrow> bool" where
  "fc_inv E sk s \<longleftrightarrow> store_law E \<and> store_up E \<and> decodable E (fs_bucket s) (fs_db s) \<and> fs_priv s = sk"

lemma fc_answer_refines:
  assumes "fc_inv E sk s" and "fc_answer S E s c = (a, s')"
  shows "fc_spec S (hash256 E) sk (fc_blobs E s) c = (a, fc_blobs E s') \<and> fc_inv E sk s'"
proof (cases c)
  case (CallWrite req)
  obtain res db' where st: "StoreWrite E (fs_bucket s) (fs_db s) req = (res, db')"
    by (cases "StoreWrite E (fs_bucket s) (fs_db s) req")
  from fc_db.store_refines [OF _ _ _ st] assms(1) have
    "spec_store wr_EncData wr_DataHash (hash256 E) (fc_blobs E s) req = (res, blobs_of E (fs_bucket s) db')"
    "decodable E (fs_bucket s) db'"
    by (simp_all add: fc_inv_def fc_blobs_def)
  with assms st show ?thesis by (auto simp: CallWrite Write_def fc_inv_def fc_blobs_def)
next
  case (CallRead r1 r2 req)
  with assms fc_db.fetch_refines [of E "fs_bucket s" "fs_db s" "rr_WriteID req"] show ?thesis
    by (auto simp: Read_def fc_inv_def fc_blobs_def)
qed

interpretation fc_ref: service_refinement "fc_answer S E" "fc_spec S (hash256 E) sk" "fc_blobs E" "fc_inv E sk"
  for S E sk
  by unfold_locales (rule fc_answer_refines)

section \<open>The semi-centralised server\<close>

datatype 'pt sc_reply = StoreAnswer "StoreReply go" | DecryptAnswer "'pt DecryptReply go"

primrec sc_answer ::
    "('pt, 'sc, 'rnd) suite \<Rightarrow> ('led, 'proof, 'signer, 'scid) ledger \<Rightarrow> 'pt calypso
      \<Rightarrow> ('db, StoreRequest) store_env \<Rightarrow> ('sc, 'db) SService \<Rightarrow> ('proof, 'scid, 'rnd) sc_call
      \<Rightarrow> 'pt sc_reply \<times> ('sc, 'db) SService" where
  "sc_answer S L P E s (CallStoreData req) = apfst StoreAnswer (StoreData E s req)"
| "sc_answer S L P E s (CallDecrypt r1 r2 req) = apfst DecryptAnswer (Decrypt S L P E r1 r2 s req)"

primrec sc_spec ::
    "('pt, 'sc, 'rnd) suite \<Rightarrow> ('led, 'proof, 'signer, 'scid) ledger \<Rightarrow> 'pt calypso
      \<Rightarrow> (bytes \<Rightarrow> bytes) \<Rightarrow> 'sc \<Rightarrow> StoreRequest blobs \<Rightarrow> ('proof, 'scid, 'rnd) sc_call
      \<Rightarrow> 'pt sc_reply \<times> StoreRequest blobs" where
  "sc_spec S L P H sk m (CallStoreData req) =
     apfst (\<lambda>res. StoreAnswer (bindG res (\<lambda>k. Ok \<lparr>sr_StoredKey = k\<rparr>))) (spec_store sr_Data sr_DataHash H m req)"
| "sc_spec S L P H sk m (CallDecrypt r1 r2 req) =
     (DecryptAnswer (bindG (spec_fetch m (dr_Key req)) (\<lambda>sd.
        bindG (verifyDecryptRequest S L P req sd) (\<lambda>w.
        bindG (sc_reencryptData S r1 r2 () w sk) (\<lambda>(k, c).
        Ok \<lparr>dp_Data = sr_Data sd, dp_DataHash = sr_DataHash sd, dp_K = k, dp_C = c\<rparr>)))), m)"

definition sc_blobs :: "('db, StoreRequest) store_env \<Rightarrow> ('sc, 'db) SService \<Rightarrow> StoreRequest blobs" where
  "sc_blobs E s = blobs_of E (ss_bucket s) (ss_db s)"

definition sc_inv :: "('db, StoreRequest) store_env \<Rightarrow> 'sc \<Rightarrow> ('sc, 'db) SService \<Rightarrow> bool" where
  "sc_inv E sk s \<longleftrightarrow> store_law E \<and> store_up E \<and> decodable E (ss_bucket s) (ss_db s) \<and> ss_priv s = sk"

lemma sc_answer_refines:
  assumes "sc_inv E sk s" and "sc_answer S L P E s c = (a, s')"
  shows "sc_spec S L P (hash256 E) sk (sc_blobs E s) c = (a, sc_blobs E s') \<and> sc_inv E sk s'"
proof (cases c)
  case (CallStoreData req)
  obtain res db' where st: "db_StoreData E (ss_bucket s) (ss_db s) req = (res, db')"
    by (cases "db_StoreData E (ss_bucket s) (ss_db s) req")
  from sc_db.store_refines [OF _ _ _ st] assms(1) have
    "spec_store sr_Data sr_DataHash (hash256 E) (sc_blobs E s) req = (res, blobs_of E (ss_bucket s) db')"
    "decodable E (ss_bucket s) db'"
    by (simp_all add: sc_inv_def sc_blobs_def)
  with assms st show ?thesis by (auto simp: CallStoreData StoreData_def sc_inv_def sc_blobs_def)
next
  case (CallDecrypt r1 r2 req)
  with assms sc_db.fetch_refines [of E "ss_bucket s" "ss_db s" "dr_Key req"] show ?thesis
    by (auto simp: Decrypt_def sc_inv_def sc_blobs_def)
qed

interpretation sc_ref: service_refinement "sc_answer S L P E" "sc_spec S L P (hash256 E) sk" "sc_blobs E" "sc_inv E sk"
  for S L P E sk
  by unfold_locales (rule sc_answer_refines)

section \<open>Properties\<close>

text \<open>C5. The fully centralised server is a content-addressed store that re-encrypts: started on any bucket
  of decodable requests, it gives on every sequence of writes and reads exactly the replies of the
  abstract server, the errors included, and keeps holding the requests that the abstract server holds.
  (A write is refused when its hash is wrong, and else when its key exists; a read answers from the
  request its key names.)\<close>

theorem fully_server_refines_store:
  assumes "store_law E" and "store_up E" and "decodable E (fs_bucket s) (fs_db s)"
    and "serve_run (fc_answer S E) s calls = (replies, s')"
  shows "serve_run (fc_spec S (hash256 E) (fs_priv s)) (fc_blobs E s) calls = (replies, fc_blobs E s')"
  using fc_ref.run_refines [OF _ assms(4), of "fs_priv s"] assms(1-3) by (simp add: fc_inv_def)

theorem fully_server_refines_store_witness:
  "serve_run (fc_spec example_suite (hash256 fc_env) 7) Map.empty
     [CallWrite fc_req, CallRead 0 5 \<lparr>rr_WriteID = fc_wid, rr_Sig = [3, 1, 1, 2]\<rparr>] =
   ([WriteAnswer (Ok \<lparr>WriteID = fc_wid\<rparr>), ReadAnswer (Ok \<lparr>rp_K = 5, rp_C = 276\<rparr>)], fc_blobs fc_env fc_server1)"
proof -
  have "fc_blobs fc_env fc_server = Map.empty" "decodable fc_env (fs_bucket fc_server) (fs_db fc_server)"
    using blobs_of_empty [of fc_env "fs_db fc_server" "fs_bucket fc_server"] by (simp_all add: fc_blobs_def)
  moreover have "serve_run (fc_answer example_suite fc_env) fc_server
     [CallWrite fc_req, CallRead 0 5 \<lparr>rr_WriteID = fc_wid, rr_Sig = [3, 1, 1, 2]\<rparr>] =
   ([WriteAnswer (Ok \<lparr>WriteID = fc_wid\<rparr>), ReadAnswer (Ok \<lparr>rp_K = 5, rp_C = 276\<rparr>)], fc_server1)"
    by (simp add: fc_server1_Write fc_server1_Read del: EncodeToString.simps)
  ultimately show ?thesis using fully_server_refines_store [of fc_env fc_server example_suite] by fastforce
qed

text \<open>C6. The semi-centralised server in the same way: on every sequence of stores and decryptions its
  replies are those of the abstract server, which stores by hash and decrypts what the request
  names once the proofs and the signature verify.\<close>

theorem semi_server_refines_store:
  assumes "store_law E" and "store_up E" and "decodable E (ss_bucket s) (ss_db s)"
    and "serve_run (sc_answer S L P E) s calls = (replies, s')"
  shows "serve_run (sc_spec S L P (hash256 E) (ss_priv s)) (sc_blobs E s) calls = (replies, sc_blobs E s')"
  using sc_ref.run_refines [OF _ assms(4), of "ss_priv s"] assms(1-3) by (simp add: sc_inv_def)

theorem semi_server_refines_store_witness:
  "serve_run (sc_spec example_suite sc_ledger example_calypso (hash256 sc_env) 7) Map.empty
     [CallStoreData \<lparr>sr_Data = [8, 8], sr_DataHash = [1, 8, 8]\<rparr>, CallDecrypt 0 5 sc_dreq] =
   ([StoreAnswer (Ok \<lparr>sr_StoredKey = EncodeToString [1, 8, 8]\<rparr>), DecryptAnswer (Ok sc_drep)], sc_blobs sc_env sc_server1)"
proof -
  have "sc_blobs sc_env sc_server = Map.empty" "decodable sc_env (ss_bucket sc_server) (ss_db sc_server)"
    using blobs_of_empty [of sc_env "ss_db sc_server" "ss_bucket sc_server"] by (simp_all add: sc_blobs_def)
  moreover have "serve_run (sc_answer example_suite sc_ledger example_calypso sc_env) sc_server
     [CallStoreData \<lparr>sr_Data = [8, 8], sr_DataHash = [1, 8, 8]\<rparr>, CallDecrypt 0 5 sc_dreq] =
   ([StoreAnswer (Ok \<lparr>sr_StoredKey = EncodeToString [1, 8, 8]\<rparr>), DecryptAnswer (Ok sc_drep)], sc_server1)"
    by (simp only: serve_run.simps sc_answer.simps sc_server1_StoreData sc_server1_Decrypt apfst_conv Let_def prod.case)
  ultimately show ?thesis
    using semi_server_refines_store [of sc_env sc_server example_suite sc_ledger example_calypso] by fastforce
qed

text \<open>C15. A write is not bound to the data it was made for: the reader of a write can name the key of any
  other stored ciphertext in a request with the proofs of his write, and the server answers with that
  ciphertext and the key of his write, re-encrypted to him. (\<open>verifyDecryptRequest\<close> compares the hash of the
  stored data with the key of the request, but not with the hash in the write.)\<close>

theorem semi_write_not_bound_to_data:
  assumes "group_law S" and "sign_law S"
    and stored: "GetStoredData E (ss_bucket (sv srv)) (ss_db (sv srv)) key = Ok sd" "DecodeString key = Ok (sr_DataHash sd)"
    and read: "ContractValue L rp (ContractReadID P) = Ok rb" "decode_Read P rb = Ok rd"
      "rd_Write rd = NewInstanceID L (InclusionKey L wp)"
    and wr: "ContractValue L wp (ContractSemiWriteID P) = Ok wb" "decode_SemiWrite P wb = Ok w"
    and proofs: "Proof_Verify L rp (LedgerID L led) = Ok ()" "Proof_Verify L wp (LedgerID L led) = Ok ()"
    and reader: "sw_Reader w = Mul S rsk None" "MarshalBinary S (sw_Reader w) = Ok mb"
    and symKey: "ElGamalDecrypt S (ss_priv (sv srv)) (sw_K w) (sw_C w) = Ok m" "AeadOpen S m (sw_EncReader w) = Ok mb"
    and other: "sw_DataHash w \<noteq> sr_DataHash sd"
  shows "\<exists>rep. api_Decrypt S L P E r1 r2 (Delivered wrap) (srv # rest) sv led wp rp key rsk = (Ok rep, sv) \<and>
    dp_Data rep = sr_Data sd \<and> ElGamalDecrypt S rsk (dp_K rep) (dp_C rep) = Ok m"
proof -
  obtain rep where rep: "api_Decrypt S L P E r1 r2 (Delivered wrap) (srv # rest) sv led wp rp key rsk = (Ok rep, sv)"
    "dp_Data rep = sr_Data sd" "sc_reencryptData S r1 r2 () w (ss_priv (sv srv)) = Ok (dp_K rep, dp_C rep)"
    using api_Decrypt_serves [where sv = sv and srv = srv and led = led,
        OF assms(2) stored read wr proofs reader(1) symKey(1) reader(2) symKey(2)] by blast
  with sc_relay.relay_same_key [OF assms(1) rep(3) reader(1)] symKey(1) show ?thesis by auto
qed

theorem semi_write_not_bound_to_data_witness:
  "\<exists>rep. api_Decrypt example_suite sc_ledger example_calypso sc_env 0 5 (Delivered id) [()] (\<lambda>_. sc_server1) []
      ([6], ''semiwrite'', sw_put (sc_write\<lparr>sw_DataHash := [1, 7]\<rparr>))
      ([6, 1], ''read'', rd_put \<lparr>rd_Write = [6], rd_Xc = 3\<rparr>) (EncodeToString [1, 8, 8]) 3 = (Ok rep, \<lambda>_. sc_server1) \<and>
    dp_Data rep = [8, 8] \<and> ElGamalDecrypt example_suite 3 (dp_K rep) (dp_C rep) = Ok sc_symKey"
proof -
  have "num_bytes 29 (bytes_num sc_symKey) = Ok sc_symKey"
    by (rule num_bytes_num) simp
  then have key: "ElGamalDecrypt example_suite (ss_priv ((\<lambda>_. sc_server1) ())) (sw_K (sc_write\<lparr>sw_DataHash := [1, 7]\<rparr>))
      (sw_C (sc_write\<lparr>sw_DataHash := [1, 7]\<rparr>)) = Ok sc_symKey"
    by (simp add: ElGamalDecrypt_def example_suite_def Let_def del: bytes_num.simps replicate.simps)
  have enc: "AeadOpen example_suite sc_symKey (sw_EncReader (sc_write\<lparr>sw_DataHash := [1, 7]\<rparr>)) = Ok [3, 0]"
    by (simp add: AeadOpen_Ok_iff example_suite_def example_Open_def Let_def)
  have "\<exists>rep. api_Decrypt example_suite sc_ledger example_calypso sc_env 0 5 (Delivered id) [()] (\<lambda>_. sc_server1) []
      ([6], ''semiwrite'', sw_put (sc_write\<lparr>sw_DataHash := [1, 7]\<rparr>))
      ([6, 1], ''read'', rd_put \<lparr>rd_Write = [6], rd_Xc = 3\<rparr>) (EncodeToString [1, 8, 8]) 3 = (Ok rep, \<lambda>_. sc_server1) \<and>
    dp_Data rep = sr_Data \<lparr>sr_Data = [8, 8], sr_DataHash = [1, 8, 8]\<rparr> \<and>
    ElGamalDecrypt example_suite 3 (dp_K rep) (dp_C rep) = Ok sc_symKey"
    by (rule semi_write_not_bound_to_data [where S = example_suite and E = sc_env and sv = "\<lambda>_. sc_server1" and srv = "()" and rest = "[]" and
          m = sc_symKey and P = example_calypso and L = sc_ledger and led = "[]" and w = "sc_write\<lparr>sw_DataHash := [1, 7]\<rparr>" and mb = "[3, 0]" and
          sd = "\<lparr>sr_Data = [8, 8], sr_DataHash = [1, 8, 8]\<rparr>" and rd = "\<lparr>rd_Write = [6], rd_Xc = 3\<rparr>" and
          wb = "sw_put (sc_write\<lparr>sw_DataHash := [1, 7]\<rparr>)" and rb = "rd_put \<lparr>rd_Write = [6], rd_Xc = 3\<rparr>",
          OF example_group_law example_sign_law _ _ _ _ _ _ _ _ _ _ _ key enc])
      (use sc_server1_GetStoredData in \<open>simp_all add: example_ledger_def example_calypso_def sw_get_put rd_get_put
         example_suite_def del: EncodeToString.simps bytes_num.simps replicate.simps\<close>)
  then show ?thesis by simp
qed

end
