(* ===== verification/Node_Services.thy ===== *)
theory Node_Services
  imports Server_Specs
begin

text \<open>
  A conode runs the two centralised services side by side (\<open>src/conode/conode.go\<close> imports both packages):
  their constructors get the private key of the conode from the same identity and a bucket each of the
  same database. Shown are what this composition keeps, the independence of the services and the data
  after a restart, and what it breaks, the access control of the semi-centralised system.
\<close>

section \<open>The services of a node\<close>

text \<open>\<open>onet.Context\<close>: the key of \<open>ServerIdentity()\<close>, the buckets of the database by service and name, the
  result of \<open>RegisterHandlers\<close> and that of \<open>Load\<close>, as in the constructors.\<close>

record ('sc, 'db) onet_context =
  GetPrivate :: 'sc
  GetAdditionalBucket :: "string \<Rightarrow> string \<Rightarrow> 'db \<Rightarrow> 'db \<times> bytes"
  RegisterHandlers :: "string \<Rightarrow> unit go"
  LoadStorage :: "string \<Rightarrow> string \<Rightarrow> bool option go"

definition fc_ServiceName :: string where "fc_ServiceName = ''CentralizedCalypsoService''"
definition sc_ServiceName :: string where "sc_ServiceName = ''SemiCentralizedService''"
definition fc_storageID :: string where "fc_storageID = ''CentralizedCalypso''"
definition sc_storageID :: string where "sc_storageID = ''SemiCentralized''"

definition NewCentralizedCalypsoDB :: "'db \<Rightarrow> bytes \<Rightarrow> 'db \<times> bytes" where
  "NewCentralizedCalypsoDB db bn = (db, bn)"

definition NewSemiCentralizedDB :: "'db \<Rightarrow> bytes \<Rightarrow> 'db \<times> bytes" where
  "NewSemiCentralizedDB db bn = (db, bn)"

definition fc_new :: "('sc, 'db) onet_context \<Rightarrow> 'db \<Rightarrow> ('sc, 'db) FService go" where
  "fc_new c db0 =
     (let (db, bucket) = GetAdditionalBucket c fc_ServiceName ''centralizedcalypsotransactions'' db0
      in newCentralizedCalypsoService (GetPrivate c) (NewCentralizedCalypsoDB db bucket)
           (RegisterHandlers c fc_ServiceName) (LoadStorage c fc_ServiceName fc_storageID))"

definition sc_new :: "('sc, 'db) onet_context \<Rightarrow> 'db \<Rightarrow> ('sc, 'db) SService go" where
  "sc_new c db0 =
     (let (db, bucket) = GetAdditionalBucket c sc_ServiceName ''semicentralizedtransactions'' db0
      in newSemiCentralizedService (GetPrivate c) (NewSemiCentralizedDB db bucket)
           (RegisterHandlers c sc_ServiceName) (LoadStorage c sc_ServiceName sc_storageID))"

text \<open>Both services hold a pointer to the one database: what a call to one of them does to the database,
  the other one sees.\<close>

record ('sc, 'db) node =
  nd_fully :: "('sc, 'db) FService"
  nd_semi :: "('sc, 'db) SService"

definition start_node :: "('sc, 'db) onet_context \<Rightarrow> 'db \<Rightarrow> ('sc, 'db) node go" where
  "start_node c db0 =
     bindG (fc_new c db0) (\<lambda>f.
     bindG (sc_new c (fs_db f)) (\<lambda>s.
     Ok \<lparr>nd_fully = f\<lparr>fs_db := ss_db s\<rparr>, nd_semi = s\<rparr>))"

primrec node_answer ::
    "('pt, 'sc, 'rnd) suite \<Rightarrow> ('led, 'proof, 'signer, 'scid) ledger \<Rightarrow> 'pt calypso
      \<Rightarrow> ('db, 'pt WriteRequest) store_env \<Rightarrow> ('db, StoreRequest) store_env \<Rightarrow> ('sc, 'db) node
      \<Rightarrow> ('pt, 'rnd) fc_call + ('proof, 'scid, 'rnd) sc_call
      \<Rightarrow> ('pt fc_reply + 'pt sc_reply) \<times> ('sc, 'db) node" where
  "node_answer S L P E F n (Inl call) =
     (case fc_answer S E (nd_fully n) call of
        (a, f) \<Rightarrow> (Inl a, \<lparr>nd_fully = f, nd_semi = (nd_semi n)\<lparr>ss_db := fs_db f\<rparr>\<rparr>))"
| "node_answer S L P E F n (Inr call) =
     (case sc_answer S L P F (nd_semi n) call of
        (a, s) \<Rightarrow> (Inr a, \<lparr>nd_fully = (nd_fully n)\<lparr>fs_db := ss_db s\<rparr>, nd_semi = s\<rparr>))"

text \<open>The life of a node: it is started on its database, answers some calls, stops, and is started again.\<close>

fun node_sessions ::
    "('pt, 'sc, 'rnd) suite \<Rightarrow> ('led, 'proof, 'signer, 'scid) ledger \<Rightarrow> 'pt calypso
      \<Rightarrow> ('db, 'pt WriteRequest) store_env \<Rightarrow> ('db, StoreRequest) store_env \<Rightarrow> ('sc, 'db) onet_context \<Rightarrow> 'db
      \<Rightarrow> (('pt, 'rnd) fc_call + ('proof, 'scid, 'rnd) sc_call) list list
      \<Rightarrow> (('pt fc_reply + 'pt sc_reply) list list \<times> 'db) go" where
  "node_sessions S L P E F c db [] = Ok ([], db)"
| "node_sessions S L P E F c db (calls # sessions) =
     bindG (start_node c db) (\<lambda>n.
     case serve_run (node_answer S L P E F) n calls of (as, n') \<Rightarrow>
     bindG (node_sessions S L P E F c (ss_db (nd_semi n')) sessions) (\<lambda>(ass, db').
     Ok (as # ass, db')))"

section \<open>What the constructors rely on\<close>

text \<open>\<open>[]byte(s)\<close>.\<close>

definition go_bytes :: "string \<Rightarrow> bytes" where
  "go_bytes s = map of_char s"

definition fully_bucket :: bytes where
  "fully_bucket = go_bytes (fc_ServiceName @ ''_'' @ ''centralizedcalypsotransactions'')"

definition semi_bucket :: bytes where
  "semi_bucket = go_bytes (sc_ServiceName @ ''_'' @ ''semicentralizedtransactions'')"

text \<open>As documented, a bucket is named after its service and the name that was asked for, and is made when it
  is not there; what is stored stays.\<close>

definition context_law :: "('db \<Rightarrow> bytes \<Rightarrow> bytes \<Rightarrow> bytes option) \<Rightarrow> ('sc, 'db) onet_context \<Rightarrow> bool" where
  "context_law get c \<longleftrightarrow>
     (\<forall>svc name db. get (fst (GetAdditionalBucket c svc name db)) = get db \<and>
        snd (GetAdditionalBucket c svc name db) = go_bytes (svc @ ''_'' @ name))"

definition services_start :: "('sc, 'db) onet_context \<Rightarrow> bool" where
  "services_start c \<longleftrightarrow>
     RegisterHandlers c fc_ServiceName = Ok () \<and> RegisterHandlers c sc_ServiceName = Ok () \<and>
     fc_tryLoad (LoadStorage c fc_ServiceName fc_storageID) = Ok () \<and>
     sc_tryLoad (LoadStorage c sc_ServiceName sc_storageID) = Ok ()"

lemma buckets_differ: "fully_bucket \<noteq> semi_bucket"
proof -
  have "length fully_bucket \<noteq> length semi_bucket"
    by (simp add: fully_bucket_def semi_bucket_def go_bytes_def fc_ServiceName_def sc_ServiceName_def)
  then show ?thesis by auto
qed

lemma start_node_Ok:
  assumes "context_law get c" and "services_start c"
  shows "\<exists>db1. get db1 = get db \<and>
    start_node c db = Ok \<lparr>nd_fully = \<lparr>fs_priv = GetPrivate c, fs_db = db1, fs_bucket = fully_bucket\<rparr>,
                           nd_semi = \<lparr>ss_priv = GetPrivate c, ss_db = db1, ss_bucket = semi_bucket\<rparr>\<rparr>"
  using assms
  by (auto simp: context_law_def services_start_def start_node_def fc_new_def sc_new_def split_def Let_def
      newCentralizedCalypsoService_def newSemiCentralizedService_def NewCentralizedCalypsoDB_def
      NewSemiCentralizedDB_def fully_bucket_def semi_bucket_def)

text \<open>Both services have the private key of the node, whatever the context does.\<close>

lemma start_node_key:
  "start_node c db = Ok n \<Longrightarrow> fs_priv (nd_fully n) = GetPrivate c \<and> ss_priv (nd_semi n) = GetPrivate c"
  by (auto simp: start_node_def fc_new_def sc_new_def split_def Let_def go_simps
      newCentralizedCalypsoService_def newSemiCentralizedService_def)

section \<open>Two servers side by side\<close>

fun lefts :: "('a + 'b) list \<Rightarrow> 'a list" where
  "lefts [] = []"
| "lefts (Inl x # xs) = x # lefts xs"
| "lefts (Inr y # xs) = lefts xs"

fun rights :: "('a + 'b) list \<Rightarrow> 'b list" where
  "rights [] = []"
| "rights (Inl x # xs) = rights xs"
| "rights (Inr y # xs) = y # rights xs"

lemma lefts_append [simp]: "lefts (xs @ ys) = lefts xs @ lefts ys"
  by (induction xs rule: lefts.induct) simp_all

lemma rights_append [simp]: "rights (xs @ ys) = rights xs @ rights ys"
  by (induction xs rule: rights.induct) simp_all

primrec beside ::
    "('m \<Rightarrow> 'c \<Rightarrow> 'a \<times> 'm) \<Rightarrow> ('n \<Rightarrow> 'd \<Rightarrow> 'b \<times> 'n) \<Rightarrow> 'm \<times> 'n \<Rightarrow> 'c + 'd \<Rightarrow> ('a + 'b) \<times> ('m \<times> 'n)" where
  "beside f g s (Inl c) = (case f (fst s) c of (a, m) \<Rightarrow> (Inl a, (m, snd s)))"
| "beside f g s (Inr d) = (case g (snd s) d of (b, n) \<Rightarrow> (Inr b, (fst s, n)))"

text \<open>A run of both is a run of each on its own calls.\<close>

lemma run_beside:
  "serve_run (beside f g) (m, n) cs = (as, (m', n')) \<Longrightarrow>
     serve_run f m (lefts cs) = (lefts as, m') \<and> serve_run g n (rights cs) = (rights as, n')"
proof (induction cs arbitrary: m n as)
  case (Cons c cs)
  obtain as1 s where run: "serve_run (beside f g) (snd (beside f g (m, n) c)) cs = (as1, s)"
    by (cases "serve_run (beside f g) (snd (beside f g (m, n) c)) cs")
  with Cons show ?case
    by (cases c; cases "beside f g (m, n) c") (force simp: Let_def split_def)+
qed simp

lemma serve_run_append:
  "serve_run f s (xs @ ys) =
     (let (as, s1) = serve_run f s xs; (bs, s2) = serve_run f s1 ys in (as @ bs, s2))"
  by (induction xs arbitrary: s) (simp_all add: Let_def split_def)

lemma serve_run_length: "serve_run f s xs = (as, s') \<Longrightarrow> length as = length xs"
  by (induction xs arbitrary: s as) (auto simp: Let_def split: prod.splits)

section \<open>The node refines its two abstract servers\<close>

text \<open>A call leaves the bucket of the other service alone.\<close>

lemma fc_answer_frame:
  assumes "store_law E" and "fc_answer S E s c = (a, s')" and "b \<noteq> fs_bucket s"
  shows "bGet E (fs_db s') b = bGet E (fs_db s) b \<and> fs_bucket s' = fs_bucket s"
  using assms(2,3) fc_db.store_frame [OF assms(1) prod.collapse [symmetric]]
  by (cases c) (auto simp: Write_def Read_def split_def)

lemma sc_answer_frame:
  assumes "store_law E" and "sc_answer S L P E s c = (a, s')" and "b \<noteq> ss_bucket s"
  shows "bGet E (ss_db s') b = bGet E (ss_db s) b \<and> ss_bucket s' = ss_bucket s"
  using assms(2,3) sc_db.store_frame [OF assms(1) prod.collapse [symmetric]]
  by (cases c) (auto simp: StoreData_def Decrypt_def split_def)

definition node_blobs ::
    "('db, 'pt WriteRequest) store_env \<Rightarrow> ('db, StoreRequest) store_env \<Rightarrow> ('sc, 'db) node
      \<Rightarrow> 'pt WriteRequest blobs \<times> StoreRequest blobs" where
  "node_blobs E F n = (fc_blobs E (nd_fully n), sc_blobs F (nd_semi n))"

definition node_inv ::
    "('db, 'pt WriteRequest) store_env \<Rightarrow> ('db, StoreRequest) store_env \<Rightarrow> 'sc \<Rightarrow> ('sc, 'db) node \<Rightarrow> bool" where
  "node_inv E F sk n \<longleftrightarrow> bGet F = bGet E \<and> fc_inv E sk (nd_fully n) \<and> sc_inv F sk (nd_semi n) \<and>
     fs_bucket (nd_fully n) = fully_bucket \<and> ss_bucket (nd_semi n) = semi_bucket \<and>
     fs_db (nd_fully n) = ss_db (nd_semi n)"

lemma node_answer_refines:
  assumes inv: "node_inv E F sk n" and ans: "node_answer S L P E F n c = (a, n')"
  shows "beside (fc_spec S (hash256 E) sk) (sc_spec S L P (hash256 F) sk) (node_blobs E F n) c =
      (a, node_blobs E F n') \<and> node_inv E F sk n'"
proof (cases c)
  case (Inl call)
  obtain r f where f: "fc_answer S E (nd_fully n) call = (r, f)" by (cases "fc_answer S E (nd_fully n) call")
  from inv have i: "fc_inv E sk (nd_fully n)" "store_law E" "semi_bucket \<noteq> fs_bucket (nd_fully n)"
    using buckets_differ by (auto simp: node_inv_def fc_inv_def)
  have "bGet F (fs_db f) semi_bucket = bGet F (ss_db (nd_semi n)) semi_bucket" "fs_bucket f = fully_bucket"
    using fc_answer_frame [OF i(2) f i(3)] inv by (simp_all add: node_inv_def)
  with blobs_of_same [OF this(1)] fc_answer_refines [OF i(1) f] inv ans f Inl show ?thesis
    by (auto simp: node_inv_def node_blobs_def sc_blobs_def sc_inv_def)
next
  case (Inr call)
  obtain r s where s: "sc_answer S L P F (nd_semi n) call = (r, s)" by (cases "sc_answer S L P F (nd_semi n) call")
  from inv have i: "sc_inv F sk (nd_semi n)" "store_law F" "fully_bucket \<noteq> ss_bucket (nd_semi n)"
    using buckets_differ by (auto simp: node_inv_def sc_inv_def)
  have "bGet E (ss_db s) fully_bucket = bGet E (fs_db (nd_fully n)) fully_bucket" "ss_bucket s = semi_bucket"
    using sc_answer_frame [OF i(2) s i(3)] inv by (simp_all add: node_inv_def)
  with blobs_of_same [OF this(1)] sc_answer_refines [OF i(1) s] inv ans s Inr show ?thesis
    by (auto simp: node_inv_def node_blobs_def fc_blobs_def fc_inv_def)
qed

interpretation node_ref: service_refinement "node_answer S L P E F"
    "beside (fc_spec S (hash256 E) sk) (sc_spec S L P (hash256 F) sk)" "node_blobs E F" "node_inv E F sk"
  for S L P E F sk
  by unfold_locales (rule node_answer_refines)

text \<open>What lasts in the database while the node is down.\<close>

definition db_inv ::
    "('db, 'pt WriteRequest) store_env \<Rightarrow> ('db, StoreRequest) store_env \<Rightarrow> 'db \<Rightarrow> bool" where
  "db_inv E F db \<longleftrightarrow> bGet F = bGet E \<and> store_law E \<and> store_up E \<and> store_law F \<and> store_up F \<and>
     decodable E fully_bucket db \<and> decodable F semi_bucket db"

lemma start_node_inv:
  assumes "context_law (bGet E) c" and "services_start c" and inv: "db_inv E F db"
  shows "\<exists>n. start_node c db = Ok n \<and> node_inv E F (GetPrivate c) n \<and>
    node_blobs E F n = (blobs_of E fully_bucket db, blobs_of F semi_bucket db)"
proof -
  from start_node_Ok [OF assms(1,2)] obtain db1 where
    db1: "bGet E db1 = bGet E db"
      "start_node c db = Ok \<lparr>nd_fully = \<lparr>fs_priv = GetPrivate c, fs_db = db1, fs_bucket = fully_bucket\<rparr>,
                              nd_semi = \<lparr>ss_priv = GetPrivate c, ss_db = db1, ss_bucket = semi_bucket\<rparr>\<rparr>" by blast
  with inv have "bGet F db1 = bGet F db" by (simp add: db_inv_def)
  with db1(1) have "blobs_of E fully_bucket db1 = blobs_of E fully_bucket db \<and>
      decodable E fully_bucket db1 = decodable E fully_bucket db"
    "blobs_of F semi_bucket db1 = blobs_of F semi_bucket db \<and> decodable F semi_bucket db1 = decodable F semi_bucket db"
    using blobs_of_same [of E db1 fully_bucket db] blobs_of_same [of F db1 semi_bucket db] by simp_all
  with db1(2) inv show ?thesis
    by (simp add: node_inv_def node_blobs_def fc_inv_def sc_inv_def fc_blobs_def sc_blobs_def db_inv_def)
qed

lemma node_sessions_refine:
  assumes ctx: "context_law (bGet E) c" "services_start c" and "db_inv E F db"
  shows "\<exists>replies db'. node_sessions S L P E F c db sessions = Ok (replies, db') \<and> db_inv E F db' \<and>
    map length replies = map length sessions \<and>
    serve_run (beside (fc_spec S (hash256 E) (GetPrivate c)) (sc_spec S L P (hash256 F) (GetPrivate c)))
        (blobs_of E fully_bucket db, blobs_of F semi_bucket db) (concat sessions) =
      (concat replies, (blobs_of E fully_bucket db', blobs_of F semi_bucket db'))"
  using assms(3)
proof (induction sessions arbitrary: db)
  case (Cons calls sessions)
  let ?spec = "beside (fc_spec S (hash256 E) (GetPrivate c)) (sc_spec S L P (hash256 F) (GetPrivate c))"
  obtain n where n: "start_node c db = Ok n" "node_inv E F (GetPrivate c) n"
    "node_blobs E F n = (blobs_of E fully_bucket db, blobs_of F semi_bucket db)"
    using start_node_inv [OF ctx Cons.prems] by blast
  obtain as n' where run: "serve_run (node_answer S L P E F) n calls = (as, n')"
    by (cases "serve_run (node_answer S L P E F) n calls")
  from node_ref.run_refines [OF n(2) run] have
    r: "serve_run ?spec (node_blobs E F n) calls = (as, node_blobs E F n')" "node_inv E F (GetPrivate c) n'" by simp_all
  let ?db = "ss_db (nd_semi n')"
  from r(2) have db: "db_inv E F ?db" "node_blobs E F n' = (blobs_of E fully_bucket ?db, blobs_of F semi_bucket ?db)"
    by (auto simp: node_inv_def db_inv_def fc_inv_def sc_inv_def node_blobs_def fc_blobs_def sc_blobs_def)
  obtain ass db' where s: "node_sessions S L P E F c ?db sessions = Ok (ass, db')" "db_inv E F db'"
    "map length ass = map length sessions"
    "serve_run ?spec (node_blobs E F n') (concat sessions) =
      (concat ass, (blobs_of E fully_bucket db', blobs_of F semi_bucket db'))"
    using Cons.IH [OF db(1)] by (auto simp: db(2))
  with n run r show ?case by (simp add: serve_run_append serve_run_length [OF run])
qed simp

section \<open>A shared key\<close>

text \<open>The requests of somebody with the secret \<open>x\<close>: a write of any data \<open>d\<close> with the encrypted key
  \<open>(K0, C0)\<close> of somebody else, and its read.\<close>

definition relay_write ::
    "('pt, 'sc, 'rnd) suite \<Rightarrow> (bytes \<Rightarrow> bytes) \<Rightarrow> 'sc \<Rightarrow> bytes \<Rightarrow> 'pt \<Rightarrow> 'pt \<Rightarrow> 'pt WriteRequest" where
  "relay_write S H x d K0 C0 =
     \<lparr>wr_EncData = d, wr_DataHash = H d, wr_K = K0, wr_C = C0, wr_Reader = Mul S x None, wr_EncReader = []\<rparr>"

lemma fc_spec_relay:
  assumes "group_law S" and "m (H d) = None" and "ElGamalDecrypt S sk K0 C0 = Ok key"
    and "schnorr_Verify S (Mul S x None) (H d) sig = Ok ()"
  shows "\<exists>rep. serve_run (fc_spec S H sk) m
        [CallWrite (relay_write S H x d K0 C0), CallRead r1 r2 \<lparr>rr_WriteID = EncodeToString (H d), rr_Sig = sig\<rparr>] =
      ([WriteAnswer (Ok \<lparr>WriteID = EncodeToString (H d)\<rparr>), ReadAnswer (Ok rep)],
       m(H d \<mapsto> relay_write S H x d K0 C0)) \<and>
    ElGamalDecrypt S x (rp_K rep) (rp_C rep) = Ok key"
proof -
  let ?w = "relay_write S H x d K0 C0" and ?rr = "\<lparr>rr_WriteID = EncodeToString (H d), rr_Sig = sig\<rparr>"
  obtain k c rem where "ElGamalEncrypt S r1 r2 (Mul S x None) key = (k, c, rem)" by (rule prod_cases3)
  with assms(3,4) have re: "fc_reencryptData S r1 r2 ?rr ?w sk = Ok (k, c)"
    by (simp add: fc_reencryptData_Ok_iff relay_write_def)
  have "serve_run (fc_spec S H sk) m [CallWrite ?w, CallRead r1 r2 ?rr] =
      ([WriteAnswer (Ok \<lparr>WriteID = EncodeToString (H d)\<rparr>), ReadAnswer (Ok \<lparr>rp_K = k, rp_C = c\<rparr>)], m(H d \<mapsto> ?w))"
    using assms(2) re by (simp add: spec_store_def spec_fetch_def relay_write_def)
  with fc_relay.relay_same_key [OF assms(1) re, of x] assms(3) show ?thesis by (fastforce simp: relay_write_def)
qed

lemma sc_spec_other_data:
  assumes "m (sr_DataHash sd) = Some sd"
    and read: "ContractValue L rp (ContractReadID P) = Ok rb" "decode_Read P rb = Ok rd"
      "rd_Write rd = NewInstanceID L (InclusionKey L wp)"
    and wr: "ContractValue L wp (ContractSemiWriteID P) = Ok wb" "decode_SemiWrite P wb = Ok w"
    and proofs: "Proof_Verify L rp scid = Ok ()" "Proof_Verify L wp scid = Ok ()"
    and key: "ElGamalDecrypt S sk (sw_K w) (sw_C w) = Ok k0" "MarshalBinary S (sw_Reader w) = Ok mb"
      "AeadOpen S k0 (sw_EncReader w) = Ok mb"
    and sig: "schnorr_Verify S (sw_Reader w) (sr_DataHash sd) sig = Ok ()"
  shows "\<exists>rep. serve_run (sc_spec S L P H sk) m [CallDecrypt r1 r2 \<lparr>dr_Write = wp, dr_Read = rp, dr_SCID = scid,
      dr_Key = EncodeToString (sr_DataHash sd), dr_Sig = sig\<rparr>] = ([DecryptAnswer (Ok rep)], m) \<and>
    dp_Data rep = sr_Data sd"
proof -
  let ?dr = "\<lparr>dr_Write = wp, dr_Read = rp, dr_SCID = scid, dr_Key = EncodeToString (sr_DataHash sd), dr_Sig = sig\<rparr>"
  have v: "verifyDecryptRequest S L P ?dr sd = Ok w"
    using read wr proofs sig by (simp add: verifyDecryptRequest_Ok_iff)
  obtain k c rem where "ElGamalEncrypt S r1 r2 (sw_Reader w) k0 = (k, c, rem)" by (rule prod_cases3)
  with key have "sc_reencryptData S r1 r2 () w sk = Ok (k, c)" by (auto simp: sc_reencryptData_Ok_iff)
  with v assms(1) show ?thesis by (simp add: spec_fetch_def)
qed

section \<open>A concrete node for the witnesses\<close>

definition example_context :: "(int, map_db) onet_context" where
  "example_context = \<lparr>GetPrivate = 7, GetAdditionalBucket = (\<lambda>svc name db. (db, go_bytes (svc @ ''_'' @ name))),
     RegisterHandlers = (\<lambda>_. Ok ()), LoadStorage = (\<lambda>_ _. Ok None)\<rparr>"

lemma example_context_laws: "context_law get example_context" "services_start example_context"
    "GetPrivate example_context = 7"
  by (simp_all add: context_law_def services_start_def fc_tryLoad_def sc_tryLoad_def example_context_def)

text \<open>A database with the ciphertext of the byte 9 in the bucket of the semi-centralised service: its key is
  \<open>replicate 16 6\<close>.\<close>

abbreviation victim_key :: bytes where
  "victim_key \<equiv> replicate 16 6"

definition victim_ct :: bytes where
  "victim_ct = ([9] @ victim_key @ replicate 12 4) @ replicate 12 4"

abbreviation victim_data :: StoreRequest where
  "victim_data \<equiv> \<lparr>sr_Data = victim_ct, sr_DataHash = 1 # victim_ct\<rparr>"

abbreviation victim_db :: map_db where
  "victim_db \<equiv> (\<lambda>_ _. None)(semi_bucket := [1 # victim_ct \<mapsto> sr_put victim_data])"

lemma victim_db_inv: "db_inv fc_env sc_env victim_db"
  using buckets_differ by (simp add: db_inv_def decodable_def fun_eq_iff) (simp add: map_env_def sr_get_put)

text \<open>The node on it; the write of the victim has the encrypted key \<open>(2, 14 + bytes_num victim_key)\<close>, and the
  attacker has the key 3 and the write and the read of the other witnesses.\<close>

abbreviation victim_node :: "(int, map_db) node" where
  "victim_node \<equiv> \<lparr>nd_fully = \<lparr>fs_priv = 7, fs_db = victim_db, fs_bucket = fully_bucket\<rparr>,
     nd_semi = \<lparr>ss_priv = 7, ss_db = victim_db, ss_bucket = semi_bucket\<rparr>\<rparr>"

lemma victim_node_starts: "start_node example_context victim_db = Ok victim_node"
  by (simp add: example_context_def start_node_def fc_new_def sc_new_def newCentralizedCalypsoService_def newSemiCentralizedService_def
      fc_tryLoad_def sc_tryLoad_def NewCentralizedCalypsoDB_def NewSemiCentralizedDB_def fully_bucket_def semi_bucket_def)

lemma victim_node_blobs:
  "blobs_of fc_env fully_bucket victim_db = Map.empty"
  "blobs_of sc_env semi_bucket victim_db = [1 # victim_ct \<mapsto> victim_data]"
  using buckets_differ by (auto simp: blobs_of_def decoded_def map_env_def sr_get_put fun_eq_iff)

lemma example_ElGamal:
  "length m \<le> 29 \<Longrightarrow> ElGamalDecrypt example_suite 7 2 (14 + bytes_num m) = Ok m"
  using num_bytes_num [of m 29] by (simp add: ElGamalDecrypt_def example_suite_def)

section \<open>Properties\<close>

text \<open>C7. The two services of a node do not see each other, and a restart loses nothing: over any number of
  sessions, with any mixture of calls to both services in each, every session starts, and the calls to
  each service get, errors included, the replies that its abstract server gives on these calls alone,
  in one run without a restart; its requests are in the database at the end.\<close>

theorem node_services_isolated:
  assumes "context_law (bGet E) c" and "services_start c" and "db_inv E F db"
  shows "\<exists>replies db'. node_sessions S L P E F c db sessions = Ok (replies, db') \<and>
    map length replies = map length sessions \<and>
    serve_run (fc_spec S (hash256 E) (GetPrivate c)) (blobs_of E fully_bucket db) (lefts (concat sessions)) =
      (lefts (concat replies), blobs_of E fully_bucket db') \<and>
    serve_run (sc_spec S L P (hash256 F) (GetPrivate c)) (blobs_of F semi_bucket db) (rights (concat sessions)) =
      (rights (concat replies), blobs_of F semi_bucket db')"
  using node_sessions_refine [OF assms, of S L P sessions] run_beside by metis

theorem node_services_isolated_witness:
  "\<exists>replies db'. node_sessions example_suite sc_ledger example_calypso fc_env sc_env example_context victim_db
      [[Inl (CallWrite fc_req), Inr (CallStoreData victim_data)], [Inl (CallWrite fc_req)]] = Ok (replies, db') \<and>
    map length replies = [2, 1] \<and>
    lefts (concat replies) = [WriteAnswer (Ok \<lparr>WriteID = fc_wid\<rparr>), WriteAnswer (Err (Error ''Key already exists''))] \<and>
    rights (concat replies) = [StoreAnswer (Err (Error ''Key already exists''))]"
  using node_services_isolated [OF example_context_laws(1,2) victim_db_inv, of example_suite sc_ledger example_calypso
      "[[Inl (CallWrite fc_req), Inr (CallStoreData victim_data)], [Inl (CallWrite fc_req)]]"]
  by (auto simp: victim_node_blobs spec_store_def example_suite_def simp del: EncodeToString.simps replicate.simps)

text \<open>C8. On a node that runs both services the ledger does not protect the data of the semi-centralised one.
  Whoever has one write of his own on the ledger (with reader key \<open>x\<close>, and a read of it) and sees the
  write of anybody else there, with its encrypted key \<open>(K0, C0)\<close> and hash, recovers that write's data
  with three requests, after any calls, in any order of the two services, and without a transaction on
  the ledger: the fully centralised service re-encrypts \<open>(K0, C0)\<close> to him, since both services decrypt
  with the key of the node, and the semi-centralised one hands out the ciphertext.\<close>

theorem semi_data_leaks_through_fully:
  assumes laws: "group_law S" "sign_law S" "context_law (bGet E) c" "services_start c" "db_inv E F db"
    and node: "start_node c db = Ok n0" "serve_run (node_answer S L P E F) n0 before = (as, n)"
    and victim: "sc_blobs F (nd_semi n) (sr_DataHash sd) = Some sd"
      "ElGamalDecrypt S (GetPrivate c) K0 C0 = Ok key" "AeadOpen S key (sr_Data sd) = Ok data"
    and read: "ContractValue L rp (ContractReadID P) = Ok rb" "decode_Read P rb = Ok rd"
      "rd_Write rd = NewInstanceID L (InclusionKey L wp)"
    and wr: "ContractValue L wp (ContractSemiWriteID P) = Ok wb" "decode_SemiWrite P wb = Ok w"
    and proofs: "Proof_Verify L rp scid = Ok ()" "Proof_Verify L wp scid = Ok ()"
    and own: "sw_Reader w = Mul S x None" "ElGamalDecrypt S (GetPrivate c) (sw_K w) (sw_C w) = Ok k0"
      "MarshalBinary S (sw_Reader w) = Ok mb" "AeadOpen S k0 (sw_EncReader w) = Ok mb"
    and fresh: "fc_blobs E (nd_fully n) (hash256 E d) = None"
    and sigs: "schnorr_Sign S x (hash256 E d) = Ok sig1" "schnorr_Sign S x (sr_DataHash sd) = Ok sig2"
    and calls: "lefts calls = [CallWrite (relay_write S (hash256 E) x d K0 C0),
        CallRead r1 r2 \<lparr>rr_WriteID = EncodeToString (hash256 E d), rr_Sig = sig1\<rparr>]"
      "rights calls = [CallDecrypt r3 r4 \<lparr>dr_Write = wp, dr_Read = rp, dr_SCID = scid,
        dr_Key = EncodeToString (sr_DataHash sd), dr_Sig = sig2\<rparr>]"
  shows "\<exists>replies n' rep1 rep2. serve_run (node_answer S L P E F) n calls = (replies, n') \<and>
    lefts replies = [WriteAnswer (Ok \<lparr>WriteID = EncodeToString (hash256 E d)\<rparr>), ReadAnswer (Ok rep1)] \<and>
    rights replies = [DecryptAnswer (Ok rep2)] \<and>
    RecoverData S (dp_Data rep2) x (rp_K rep1) (rp_C rep1) = Ok data"
proof -
  have "node_inv E F (GetPrivate c) n0" using start_node_inv [OF laws(3-5)] node(1) by auto
  then have inv: "node_inv E F (GetPrivate c) n" using node_ref.run_refines [OF _ node(2)] by blast
  have "schnorr_Verify S (Mul S x None) m s = Ok ()" if "schnorr_Sign S x m = Ok s" for m s
    using laws(2) that by (simp add: sign_law_def)
  note ver = this [OF sigs(1)] this [OF sigs(2), folded own(1)]
  obtain replies n' where run: "serve_run (node_answer S L P E F) n calls = (replies, n')"
    by (cases "serve_run (node_answer S L P E F) n calls")
  from node_ref.run_refines [OF inv run]
  have "serve_run (beside (fc_spec S (hash256 E) (GetPrivate c)) (sc_spec S L P (hash256 F) (GetPrivate c)))
      (fc_blobs E (nd_fully n), sc_blobs F (nd_semi n)) calls = (replies, (fc_blobs E (nd_fully n'), sc_blobs F (nd_semi n')))"
    by (simp add: node_blobs_def)
  note sides = run_beside [OF this, unfolded calls]
  obtain rep1 where rep1: "lefts replies = [WriteAnswer (Ok \<lparr>WriteID = EncodeToString (hash256 E d)\<rparr>), ReadAnswer (Ok rep1)]"
    "ElGamalDecrypt S x (rp_K rep1) (rp_C rep1) = Ok key"
    using fc_spec_relay [where m = "fc_blobs E (nd_fully n)" and H = "hash256 E", OF laws(1) fresh victim(2) ver(1), of r1 r2]
      sides by (auto simp del: serve_run.simps)
  obtain rep2 where "rights replies = [DecryptAnswer (Ok rep2)]" "dp_Data rep2 = sr_Data sd"
    using sc_spec_other_data [where m = "sc_blobs F (nd_semi n)" and S = S, OF victim(1) read wr proofs own(2-4) ver(2),
        of "hash256 F" r3 r4] sides by (auto simp del: serve_run.simps)
  with run rep1 victim(3) show ?thesis by (simp add: RecoverData_def)
qed

theorem semi_data_leaks_through_fully_witness:
  "\<exists>replies n' rep1 rep2. serve_run (node_answer example_suite sc_ledger example_calypso fc_env sc_env) victim_node
      [Inl (CallWrite (relay_write example_suite (hash256 fc_env) 3 [5] 2 (14 + bytes_num victim_key))),
       Inr (CallDecrypt 0 5 \<lparr>dr_Write = ([6], ''semiwrite'', sw_put sc_write),
         dr_Read = ([6, 1], ''read'', rd_put \<lparr>rd_Write = [6], rd_Xc = 3\<rparr>), dr_SCID = (),
         dr_Key = EncodeToString ((1 # victim_ct)), dr_Sig = 3 # 1 # victim_ct\<rparr>),
       Inl (CallRead 0 6 \<lparr>rr_WriteID = EncodeToString (hash256 fc_env [5]), rr_Sig = [3, 1, 5]\<rparr>)] = (replies, n') \<and>
    lefts replies = [WriteAnswer (Ok \<lparr>WriteID = EncodeToString (hash256 fc_env [5])\<rparr>), ReadAnswer (Ok rep1)] \<and>
    rights replies = [DecryptAnswer (Ok rep2)] \<and>
    RecoverData example_suite (dp_Data rep2) 3 (rp_K rep1) (rp_C rep1) = Ok [9]"
proof -
  have enc: "AeadOpen example_suite victim_key (victim_ct) = Ok [9]"
    "AeadOpen example_suite sc_symKey (sw_EncReader sc_write) = Ok [3, 0]"
    by (simp_all add: AeadOpen_Ok_iff example_suite_def example_Open_def Let_def victim_ct_def)
  have key: "ElGamalDecrypt example_suite (GetPrivate example_context) 2 (14 + bytes_num victim_key) = Ok victim_key"
    "ElGamalDecrypt example_suite (GetPrivate example_context) (sw_K sc_write) (sw_C sc_write) = Ok sc_symKey"
    using example_ElGamal [of victim_key] example_ElGamal [of sc_symKey] by (simp_all add: example_context_laws(3))
  have suite: "Mul example_suite 3 None = 3" "schnorr_Sign example_suite 3 m = Ok (3 # m)"
    "MarshalBinary example_suite 3 = Ok [3, 0]" "Sum256 example_suite m = 1 # m" for m
    by (simp_all add: example_suite_def)
  show ?thesis
    by (rule semi_data_leaks_through_fully [where S = example_suite and E = fc_env and F = sc_env and c = example_context and
        ?n0.0 = victim_node and n = victim_node and as = "[]" and before = "[]" and sd = victim_data and L = sc_ledger and
        P = example_calypso and x = 3 and d = "[5]" and w = sc_write and mb = "[3, 0]" and scid = "()" and
        rp = "([6, 1], ''read'', rd_put \<lparr>rd_Write = [6], rd_Xc = 3\<rparr>)" and rd = "\<lparr>rd_Write = [6], rd_Xc = 3\<rparr>" and
        rb = "rd_put \<lparr>rd_Write = [6], rd_Xc = 3\<rparr>" and wp = "([6], ''semiwrite'', sw_put sc_write)" and
        wb = "sw_put sc_write" and ?sig1.0 = "[3, 1, 5]" and ?sig2.0 = "3 # 1 # victim_ct" and ?k0.0 = sc_symKey and
        key = victim_key and ?K0.0 = 2 and ?C0.0 = "14 + bytes_num victim_key" and data = "[9]" and db = victim_db,
        OF example_group_law example_sign_law example_context_laws(1,2) victim_db_inv victim_node_starts])
      (use key enc in \<open>simp_all add: fc_blobs_def sc_blobs_def victim_node_blobs suite
         example_ledger_def example_calypso_def sw_get_put rd_get_put del: EncodeToString.simps bytes_num.simps replicate.simps\<close>)
qed

end
