(* ===== verification/Simulation_Hooks.thy ===== *)
theory Simulation_Hooks
  imports Fully_Simulation Template_Service
begin

text \<open>
  What onet calls before the \<open>Run\<close> of a simulation: the constructor that decodes the configuration,
  \<open>Setup\<close> on the client, and \<open>Node\<close> on every server. The seven simulations of the repository are
  \<open>src/simulation/{protocol,service}.go\<close>, \<open>src/fully_centralized/simulation/service.go\<close>,
  \<open>src/semi_centralized/simulation/service.go\<close>, \<open>src/calypso_simulation/service.go\<close>,
  \<open>src/calypso_lottery/simulation/service.go\<close> and \<open>src/tournament_lottery/simulation/service.go\<close>.

  \<open>SimulationBFTree\<close>, the configuration of a simulation and \<open>toml.Decode\<close> are not under \<open>src/\<close>:
  the operations on them are fields of \<open>onet_simul\<close>, and \<open>decode\<close> is an argument of the
  constructors. \<open>log.Fatal\<close> in \<open>Node\<close> ends the process.
\<close>

section \<open>onet\<close>

record ('bf, 'cfg, 'sid) onet_simul =
  zeroBFTree :: 'bf
  zeroConfig :: 'cfg
  CreateRoster :: "'bf \<Rightarrow> 'cfg \<Rightarrow> string list \<Rightarrow> int \<Rightarrow> 'cfg"
  CreateTree :: "'bf \<Rightarrow> 'cfg \<Rightarrow> 'cfg go"
  Roster_Search :: "'cfg \<Rightarrow> 'sid \<Rightarrow> int" \<comment> \<open>the index in the roster, or -1\<close>
  BFTree_Node :: "'bf \<Rightarrow> 'cfg \<Rightarrow> unit go"

text \<open>The files of a machine: \<open>ioutil.ReadFile\<close> and \<open>ioutil.WriteFile\<close>.\<close>

record 'fs os_files =
  ReadFile :: "'fs \<Rightarrow> string \<Rightarrow> bytes go"
  WriteFile :: "'fs \<Rightarrow> string \<Rightarrow> bytes \<Rightarrow> unit go \<times> 'fs"

text \<open>What the bodies of the seven \<open>Setup\<close>s start with, and the body of the seven \<open>Node\<close>s, which are the
  same; \<open>sid\<close> is the ID of the server in the configuration.\<close>

definition setup_tree :: "('bf, 'cfg, 'sid) onet_simul \<Rightarrow> 'bf \<Rightarrow> string list \<Rightarrow> 'cfg go" where
  "setup_tree N bf hosts =
     (let sc = CreateRoster N bf (zeroConfig N) hosts 2000 in bindG (CreateTree N bf sc) (\<lambda>sc. Ok sc))"

definition init_node :: "('bf, 'cfg, 'sid) onet_simul \<Rightarrow> 'bf \<Rightarrow> 'cfg \<Rightarrow> 'sid \<Rightarrow> unit process" where
  "init_node N bf config sid =
     (let index = Roster_Search N config sid in
      if index < 0 then Exits ''Didn't find this node in roster'' else Returns (BFTree_Node N bf config))"

section \<open>The template simulations\<close>

record 'bf SimulationProtocol =
  spr_BFTree :: 'bf

definition NewSimulationProtocol ::
    "('bf, 'cfg, 'sid) onet_simul \<Rightarrow> (string \<Rightarrow> 'bf SimulationProtocol \<Rightarrow> 'bf SimulationProtocol go) \<Rightarrow> string
      \<Rightarrow> 'bf SimulationProtocol go" where
  "NewSimulationProtocol N decode config =
     bindG (decode config \<lparr>spr_BFTree = zeroBFTree N\<rparr>) (\<lambda>es. Ok es)"

definition protocol_Setup ::
    "('bf, 'cfg, 'sid) onet_simul \<Rightarrow> 'bf SimulationProtocol \<Rightarrow> string \<Rightarrow> string list \<Rightarrow> 'cfg go" where
  "protocol_Setup N s dir hosts = setup_tree N (spr_BFTree s) hosts"

definition protocol_Node ::
    "('bf, 'cfg, 'sid) onet_simul \<Rightarrow> 'bf SimulationProtocol \<Rightarrow> 'cfg \<Rightarrow> 'sid \<Rightarrow> unit process" where
  "protocol_Node N s config sid = init_node N (spr_BFTree s) config sid"

record 'bf TemplateSimulation =
  tsim_BFTree :: 'bf

definition NewSimulationService ::
    "('bf, 'cfg, 'sid) onet_simul \<Rightarrow> (string \<Rightarrow> 'bf TemplateSimulation \<Rightarrow> 'bf TemplateSimulation go) \<Rightarrow> string
      \<Rightarrow> 'bf TemplateSimulation go" where
  "NewSimulationService N decode config =
     bindG (decode config \<lparr>tsim_BFTree = zeroBFTree N\<rparr>) (\<lambda>es. Ok es)"

definition template_Setup ::
    "('bf, 'cfg, 'sid) onet_simul \<Rightarrow> 'bf TemplateSimulation \<Rightarrow> string \<Rightarrow> string list \<Rightarrow> 'cfg go" where
  "template_Setup N s dir hosts = setup_tree N (tsim_BFTree s) hosts"

definition template_Node ::
    "('bf, 'cfg, 'sid) onet_simul \<Rightarrow> 'bf TemplateSimulation \<Rightarrow> 'cfg \<Rightarrow> 'sid \<Rightarrow> unit process" where
  "template_Node N s config sid = init_node N (tsim_BFTree s) config sid"

section \<open>The simulation of the fully centralised system\<close>

record 'bf FullySimulation =
  fsim_BFTree :: 'bf
  fsim_BatchSize :: int
  fsim_NumTransactions :: int
  fsim_NumWriteTransactions :: int
  fsim_NumReadTransactions :: int
  fsim_NumBlocks :: int

definition fc_NewCentralizedCalypsoService ::
    "('bf, 'cfg, 'sid) onet_simul \<Rightarrow> (string \<Rightarrow> 'bf FullySimulation \<Rightarrow> 'bf FullySimulation go) \<Rightarrow> string
      \<Rightarrow> 'bf FullySimulation go" where
  "fc_NewCentralizedCalypsoService N decode config =
     bindG (decode config \<lparr>fsim_BFTree = zeroBFTree N, fsim_BatchSize = 0, fsim_NumTransactions = 0,
        fsim_NumWriteTransactions = 0, fsim_NumReadTransactions = 0, fsim_NumBlocks = 0\<rparr>) (\<lambda>es. Ok es)"

text \<open>This \<open>Setup\<close> also copies the list of transactions to the directory that goes to the servers.\<close>

definition fc_Setup ::
    "('bf, 'cfg, 'sid) onet_simul \<Rightarrow> 'fs os_files \<Rightarrow> 'bf FullySimulation \<Rightarrow> string \<Rightarrow> string list \<Rightarrow> 'fs
      \<Rightarrow> 'cfg go \<times> 'fs" where
  "fc_Setup N F s dir hosts fs =
     bindS (setup_tree N (fsim_BFTree s) hosts, fs) (\<lambda>sc fs.
     bindS (ReadFile F fs ''./txn_list.data'', fs) (\<lambda>buf fs.
     bindS (WriteFile F fs (dir @ ''/txn_list.data'') buf) (\<lambda>_ fs.
     (Ok sc, fs))))"

definition fc_Node ::
    "('bf, 'cfg, 'sid) onet_simul \<Rightarrow> 'bf FullySimulation \<Rightarrow> 'cfg \<Rightarrow> 'sid \<Rightarrow> unit process" where
  "fc_Node N s config sid = init_node N (fsim_BFTree s) config sid"

section \<open>The simulations on a ledger\<close>

record 'bf SemiSimulation =
  ssim_BFTree :: 'bf
  ssim_BatchSize :: int
  ssim_NumTransactions :: int
  ssim_NumWriteTransactions :: int
  ssim_NumReadTransactions :: int
  ssim_NumBlocks :: int
  ssim_BlockInterval :: int
  ssim_BlockWait :: int

definition NewSemiCentralizedService ::
    "('bf, 'cfg, 'sid) onet_simul \<Rightarrow> (string \<Rightarrow> 'bf SemiSimulation \<Rightarrow> 'bf SemiSimulation go) \<Rightarrow> string
      \<Rightarrow> 'bf SemiSimulation go" where
  "NewSemiCentralizedService N decode config =
     bindG (decode config \<lparr>ssim_BFTree = zeroBFTree N, ssim_BatchSize = 0, ssim_NumTransactions = 0,
        ssim_NumWriteTransactions = 0, ssim_NumReadTransactions = 0, ssim_NumBlocks = 0, ssim_BlockInterval = 0,
        ssim_BlockWait = 0\<rparr>) (\<lambda>es. Ok es)"

text \<open>The copying of the two auxiliary files is commented out in this \<open>Setup\<close> and in the next one.\<close>

definition sb_Setup ::
    "('bf, 'cfg, 'sid) onet_simul \<Rightarrow> 'bf SemiSimulation \<Rightarrow> string \<Rightarrow> string list \<Rightarrow> 'cfg go" where
  "sb_Setup N s dir hosts = setup_tree N (ssim_BFTree s) hosts"

definition sb_Node ::
    "('bf, 'cfg, 'sid) onet_simul \<Rightarrow> 'bf SemiSimulation \<Rightarrow> 'cfg \<Rightarrow> 'sid \<Rightarrow> unit process" where
  "sb_Node N s config sid = init_node N (ssim_BFTree s) config sid"

record 'bf CalypsoSimulation =
  csim_BFTree :: 'bf
  csim_NumTransactions :: int
  csim_NumWriteTransactions :: int
  csim_NumReadTransactions :: int
  csim_NumBlocks :: int
  csim_BlockInterval :: int
  csim_BlockWait :: int

definition NewCalypsoService ::
    "('bf, 'cfg, 'sid) onet_simul \<Rightarrow> (string \<Rightarrow> 'bf CalypsoSimulation \<Rightarrow> 'bf CalypsoSimulation go) \<Rightarrow> string
      \<Rightarrow> 'bf CalypsoSimulation go" where
  "NewCalypsoService N decode config =
     bindG (decode config \<lparr>csim_BFTree = zeroBFTree N, csim_NumTransactions = 0, csim_NumWriteTransactions = 0,
        csim_NumReadTransactions = 0, csim_NumBlocks = 0, csim_BlockInterval = 0, csim_BlockWait = 0\<rparr>) (\<lambda>es. Ok es)"

definition cs_Setup ::
    "('bf, 'cfg, 'sid) onet_simul \<Rightarrow> 'bf CalypsoSimulation \<Rightarrow> string \<Rightarrow> string list \<Rightarrow> 'cfg go" where
  "cs_Setup N s dir hosts = setup_tree N (csim_BFTree s) hosts"

definition cs_Node ::
    "('bf, 'cfg, 'sid) onet_simul \<Rightarrow> 'bf CalypsoSimulation \<Rightarrow> 'cfg \<Rightarrow> 'sid \<Rightarrow> unit process" where
  "cs_Node N s config sid = init_node N (csim_BFTree s) config sid"

record 'bf CalypsoLotterySimulation =
  clsim_BFTree :: 'bf
  clsim_NumTransactions :: int
  clsim_NumLotteries :: int
  clsim_BlockWait :: int
  clsim_BlockInterval :: int

definition NewCalypsoLotteryService ::
    "('bf, 'cfg, 'sid) onet_simul \<Rightarrow> (string \<Rightarrow> 'bf CalypsoLotterySimulation \<Rightarrow> 'bf CalypsoLotterySimulation go)
      \<Rightarrow> string \<Rightarrow> 'bf CalypsoLotterySimulation go" where
  "NewCalypsoLotteryService N decode config =
     bindG (decode config \<lparr>clsim_BFTree = zeroBFTree N, clsim_NumTransactions = 0, clsim_NumLotteries = 0,
        clsim_BlockWait = 0, clsim_BlockInterval = 0\<rparr>) (\<lambda>es. Ok es)"

definition cl_Setup ::
    "('bf, 'cfg, 'sid) onet_simul \<Rightarrow> 'bf CalypsoLotterySimulation \<Rightarrow> string \<Rightarrow> string list \<Rightarrow> 'cfg go" where
  "cl_Setup N s dir hosts = setup_tree N (clsim_BFTree s) hosts"

definition cl_Node ::
    "('bf, 'cfg, 'sid) onet_simul \<Rightarrow> 'bf CalypsoLotterySimulation \<Rightarrow> 'cfg \<Rightarrow> 'sid \<Rightarrow> unit process" where
  "cl_Node N s config sid = init_node N (clsim_BFTree s) config sid"

record 'bf TournamentSimulation =
  tlsim_BFTree :: 'bf
  tlsim_NumTransactions :: int
  tlsim_BlockInterval :: int
  tlsim_BlockWait :: int

definition NewTournamentService ::
    "('bf, 'cfg, 'sid) onet_simul \<Rightarrow> (string \<Rightarrow> 'bf TournamentSimulation \<Rightarrow> 'bf TournamentSimulation go) \<Rightarrow> string
      \<Rightarrow> 'bf TournamentSimulation go" where
  "NewTournamentService N decode config =
     bindG (decode config \<lparr>tlsim_BFTree = zeroBFTree N, tlsim_NumTransactions = 0, tlsim_BlockInterval = 0,
        tlsim_BlockWait = 0\<rparr>) (\<lambda>es. Ok es)"

definition tl_Setup ::
    "('bf, 'cfg, 'sid) onet_simul \<Rightarrow> 'bf TournamentSimulation \<Rightarrow> string \<Rightarrow> string list \<Rightarrow> 'cfg go" where
  "tl_Setup N s dir hosts = setup_tree N (tlsim_BFTree s) hosts"

definition tl_Node ::
    "('bf, 'cfg, 'sid) onet_simul \<Rightarrow> 'bf TournamentSimulation \<Rightarrow> 'cfg \<Rightarrow> 'sid \<Rightarrow> unit process" where
  "tl_Node N s config sid = init_node N (tlsim_BFTree s) config sid"

section \<open>What the hooks rely on\<close>

text \<open>The roster that \<open>CreateRoster\<close> makes of the hosts has each of them (\<open>idOf\<close> is the ID a host gets), and
  \<open>CreateTree\<close> keeps it.\<close>

definition simul_law :: "('bf, 'cfg, 'sid) onet_simul \<Rightarrow> (string \<Rightarrow> 'sid) \<Rightarrow> bool" where
  "simul_law N idOf \<longleftrightarrow>
     (\<forall>bf hosts cfg h. CreateTree N bf (CreateRoster N bf (zeroConfig N) hosts 2000) = Ok cfg \<longrightarrow> h \<in> set hosts \<longrightarrow>
        0 \<le> Roster_Search N cfg (idOf h))"

text \<open>A file that was written has its new contents, and the others are as before.\<close>

definition files_law :: "'fs os_files \<Rightarrow> bool" where
  "files_law F \<longleftrightarrow>
     (\<forall>fs name buf fs'. WriteFile F fs name buf = (Ok (), fs') \<longrightarrow>
        ReadFile F fs' = (ReadFile F fs)(name := Ok buf))"

text \<open>The file as the simulation sees it: \<open>os.Open\<close> in the directory \<open>dir\<close> and the scanner.\<close>

definition open_lines :: "'fs os_files \<Rightarrow> 'fs \<Rightarrow> string \<Rightarrow> string \<Rightarrow> string list go" where
  "open_lines F fs dir name = bindG (ReadFile F fs (dir @ ''/'' @ name)) (\<lambda>buf. Ok (ScanLines buf))"

lemma init_node_ok:
  assumes "simul_law N idOf" and "setup_tree N bf hosts = Ok cfg" and "h \<in> set hosts"
  shows "init_node N bf cfg (idOf h) = Returns (BFTree_Node N bf cfg)"
proof -
  have "CreateTree N bf (CreateRoster N bf (zeroConfig N) hosts 2000) = Ok cfg"
    using assms(2) by (auto simp: setup_tree_def go_simps)
  then have "0 \<le> Roster_Search N cfg (idOf h)" using assms(1,3) unfolding simul_law_def by blast
  then show ?thesis by (simp add: init_node_def)
qed

text \<open>A server that is not in the roster ends its process.\<close>

lemma init_node_unknown:
  "Roster_Search N cfg sid < 0 \<Longrightarrow> init_node N bf cfg sid = Exits ''Didn't find this node in roster''"
  by (simp add: init_node_def)

lemma fc_Setup_OkD:
  assumes "files_law F" and "fc_Setup N F s dir hosts fs = (Ok cfg, fs')"
  shows "setup_tree N (fsim_BFTree s) hosts = Ok cfg \<and>
    (\<exists>buf. ReadFile F fs ''./txn_list.data'' = Ok buf \<and>
           ReadFile F fs' = (ReadFile F fs)(dir @ ''/txn_list.data'' := Ok buf))"
  using assms by (auto simp: fc_Setup_def go_simps files_law_def)

section \<open>Concrete files and rosters for the witness\<close>

definition example_simul :: "(unit, string list, string) onet_simul" where
  "example_simul =
     \<lparr>zeroBFTree = (), zeroConfig = [], CreateRoster = (\<lambda>_ _ hosts _. hosts), CreateTree = (\<lambda>_ cfg. Ok cfg),
      Roster_Search = (\<lambda>cfg h. if h \<in> set cfg then 0 else - 1), BFTree_Node = (\<lambda>_ _. Ok ())\<rparr>"

definition example_files :: "(string \<Rightarrow> bytes go) os_files" where
  "example_files = \<lparr>ReadFile = (\<lambda>fs. fs), WriteFile = (\<lambda>fs name buf. (Ok (), fs(name := Ok buf)))\<rparr>"

lemma example_simul_law: "simul_law example_simul (\<lambda>h. h)"
  by (simp add: simul_law_def example_simul_def)

lemma example_files_law: "files_law example_files"
  by (simp add: files_law_def example_files_def)

section \<open>Properties\<close>

text \<open>C31. The set-up of the fully centralised simulation delivers what the run needs: when the client's
  list of transactions holds the decimal forms of \<open>ns\<close>, one in each line, and \<open>Setup\<close> succeeds, then no
  server of the configuration ends in \<open>Node\<close>, and in the directory that goes to the servers
  \<open>readAuxFile\<close> reads the first \<open>n\<close> of those numbers, with zeros for the lines that are missing.\<close>

theorem setup_delivers_transactions:
  assumes "simul_law N idOf" and "files_law F" and "fc_Setup N F s dir hosts fs = (Ok cfg, fs')"
    and "ReadFile F fs ''./txn_list.data'' = Ok (number_file ns)" and "\<And>x. x \<in> set ns \<Longrightarrow> int x \<le> max_int"
  shows "(\<forall>h \<in> set hosts. fc_Node N s cfg (idOf h) = Returns (BFTree_Node N (fsim_BFTree s) cfg)) \<and>
    readAuxFile (open_lines F fs' dir ''txn_list.data'') n = Ok (map int (take n ns) @ replicate (n - length ns) 0)"
proof -
  note su = fc_Setup_OkD [OF assms(2,3)]
  from su assms(4) have "ReadFile F fs' (dir @ ''/txn_list.data'') = Ok (number_file ns)" by auto
  then have "open_lines F fs' dir ''txn_list.data'' = Ok (map Itoa ns)"
    using ScanLines_number_file [OF assms(5)] by (simp add: open_lines_def)
  with aux_file_roundtrip [OF assms(5)] init_node_ok [OF assms(1) conjunct1 [OF su]] show ?thesis
    by (simp add: fc_Node_def)
qed

theorem setup_delivers_transactions_witness:
  "\<exists>fs'. fc_Setup example_simul example_files \<lparr>fsim_BFTree = (), fsim_BatchSize = 0, fsim_NumTransactions = 3,
       fsim_NumWriteTransactions = 2, fsim_NumReadTransactions = 1, fsim_NumBlocks = 0\<rparr> ''deploy'' [''a'', ''b'']
       (\<lambda>name. if name = ''./txn_list.data'' then Ok (number_file [1, 0]) else Err (Error ''no such file'')) =
     (Ok [''a'', ''b''], fs') \<and>
   readAuxFile (open_lines example_files fs' ''deploy'' ''txn_list.data'') 3 = Ok [1, 0, 0]"
proof -
  let ?s = "\<lparr>fsim_BFTree = (), fsim_BatchSize = 0, fsim_NumTransactions = 3, fsim_NumWriteTransactions = 2,
    fsim_NumReadTransactions = 1, fsim_NumBlocks = 0\<rparr>"
    and ?fs = "\<lambda>name. if name = ''./txn_list.data'' then Ok (number_file [1, 0]) else Err (Error ''no such file'')"
  let ?fs' = "?fs(''deploy/txn_list.data'' := Ok (number_file [1, 0]))"
  have run: "fc_Setup example_simul example_files ?s ''deploy'' [''a'', ''b''] ?fs = (Ok [''a'', ''b''], ?fs')"
    by (simp add: fc_Setup_def setup_tree_def example_simul_def example_files_def)
  have "ReadFile example_files ?fs ''./txn_list.data'' = Ok (number_file [1, 0])"
    by (simp add: example_files_def)
  have "int x \<le> max_int" if "x \<in> set [1, 0]" for x :: nat using that by (auto simp: max_int_def)
  from setup_delivers_transactions [OF example_simul_law example_files_law run \<open>ReadFile _ _ _ = _\<close> this, of 3]
  have "readAuxFile (open_lines example_files ?fs' ''deploy'' ''txn_list.data'') 3 = Ok [1, 0, 0]"
    by (simp add: numeral_3_eq_3)
  with run show ?thesis by blast
qed

end
