(* ===== verification/Conode.thy ===== *)
theory Conode
  imports Key_Value Lottery_Store
begin

text \<open>
  The server program: the registration of the contracts with ByzCoin
  (\<open>src/byzcoin/service.go\<close>, \<open>src/tournament_lottery/service/service.go\<close>) and the two commands of
  \<open>src/conode/conode.go\<close>. \<open>onet.NewServiceProcessor\<close>, \<open>byzcoin.RegisterContract\<close>,
  \<open>app.InteractiveConfig\<close> and \<open>app.RunServer\<close> are not under \<open>src/\<close> and are arguments; the command line
  that the cli package parsed is the record \<open>cli_context\<close>.
\<close>

section \<open>The services that register contracts\<close>

type_synonym ('view, 'coin) contract =
  "'view contract_env \<Rightarrow> 'view \<Rightarrow> Instruction \<Rightarrow> 'coin list \<Rightarrow> 'coin contract_reply"

record ('ctx, 'sp, 'view, 'coin) contract_registry =
  NewServiceProcessor :: "'ctx \<Rightarrow> 'sp"
  RegisterContract :: "'ctx \<Rightarrow> string \<Rightarrow> ('view, 'coin) contract \<Rightarrow> 'ctx"
  contract_of :: "'ctx \<Rightarrow> string \<Rightarrow> ('view, 'coin) contract option"

definition registry_law :: "('ctx, 'sp, 'view, 'coin) contract_registry \<Rightarrow> bool" where
  "registry_law R \<longleftrightarrow> (\<forall>c cid f. contract_of R (RegisterContract R c cid f) = (contract_of R c)(cid \<mapsto> f))"

definition kv_newService ::
    "kv_codec \<Rightarrow> ('ctx, 'sp, 'view, 'coin) contract_registry \<Rightarrow> 'ctx \<Rightarrow> 'sp go \<times> 'ctx" where
  "kv_newService P R c =
     (let s = NewServiceProcessor R c in (Ok s, RegisterContract R c ContractKeyValueID (ContractKeyValue P)))"

definition tl_newService ::
    "('ctx, 'sp, 'view, 'coin) contract_registry \<Rightarrow> 'ctx \<Rightarrow> 'sp go \<times> 'ctx" where
  "tl_newService R c =
     (let s = NewServiceProcessor R c in (Ok s, RegisterContract R c ContractLotteryStoreID ContractLotteryStore))"

text \<open>The packages of this repository that the conode imports are the services of the two centralised systems,
  whose constructors register no contract, and the tournament lottery. (\<open>src/byzcoin\<close> is not among them.)\<close>

definition conode_contracts :: "('ctx, 'sp, 'view, 'coin) contract_registry \<Rightarrow> 'ctx \<Rightarrow> 'ctx" where
  "conode_contracts R c = snd (tl_newService R c)"

section \<open>The commands\<close>

record cli_context =
  c_config :: string \<comment> \<open>\<open>c.String("config")\<close>\<close>
  c_debugText :: string \<comment> \<open>\<open>c.String("debug")\<close>\<close>
  c_debug :: int \<comment> \<open>\<open>c.Int("debug")\<close>\<close>
  g_config :: string \<comment> \<open>\<open>c.GlobalString("config")\<close>\<close>

datatype conode_command = SetupCommand | ServerCommand

record 'env conode_env =
  InteractiveConfig :: "string \<Rightarrow> 'env \<Rightarrow> 'env"
  RunServer :: "string \<Rightarrow> 'env \<Rightarrow> 'env"
  SetDebugVisible :: "int \<Rightarrow> 'env \<Rightarrow> 'env"

definition setup_action :: "'env conode_env \<Rightarrow> cli_context \<Rightarrow> 'env \<Rightarrow> unit process \<times> 'env" where
  "setup_action V c env =
     (if c_config c \<noteq> [] then
        (Exits ''[-] Configuration file option cannot be used for the 'setup' command'', env)
      else if c_debugText c \<noteq> [] then
        (Exits ''[-] Debug option cannot be used for the 'setup' command'', env)
      else (Returns (Ok ()), InteractiveConfig V ''cothority_template'' env))"

definition runServer :: "'env conode_env \<Rightarrow> cli_context \<Rightarrow> 'env \<Rightarrow> unit go \<times> 'env" where
  "runServer V c env = (Ok (), RunServer V (g_config c) env)"

text \<open>\<open>main\<close> on a command line that names a command: \<open>Before\<close> runs with the flags of the program (\<open>gc\<close>), then
  the action with those of the command (\<open>c\<close>). The action of \<open>server\<close> gives no result to the cli package, and
  \<open>log.ErrFatal\<close> gets the error of the other one.\<close>

definition conode_main ::
    "'env conode_env \<Rightarrow> conode_command \<Rightarrow> cli_context \<Rightarrow> cli_context \<Rightarrow> 'env \<Rightarrow> unit process \<times> 'env" where
  "conode_main V cmd gc c env =
     (let env' = SetDebugVisible V (c_debug gc) env in
      case cmd of
        SetupCommand \<Rightarrow> apfst err_fatal (setup_action V c env')
      | ServerCommand \<Rightarrow> apfst Returns (runServer V c env'))"

section \<open>Facts\<close>

text \<open>A conode runs the lottery contract on the instances of the lottery store; on those of the key/value
  contract it runs what was registered elsewhere.\<close>

lemma conode_contract_of:
  assumes "registry_law R"
  shows "contract_of R (conode_contracts R c) ContractLotteryStoreID = Some ContractLotteryStore"
    and "contract_of R (conode_contracts R c) ContractKeyValueID = contract_of R c ContractKeyValueID"
proof -
  have "ContractKeyValueID \<noteq> ContractLotteryStoreID"
    by (simp add: ContractKeyValueID_def ContractLotteryStoreID_def)
  with assms show "contract_of R (conode_contracts R c) ContractLotteryStoreID = Some ContractLotteryStore"
    and "contract_of R (conode_contracts R c) ContractKeyValueID = contract_of R c ContractKeyValueID"
    by (simp_all add: registry_law_def conode_contracts_def tl_newService_def)
qed

text \<open>With the service of \<open>src/byzcoin\<close> beside it both contracts are there, in either order.\<close>

lemma both_contracts:
  assumes "registry_law R"
  shows "contract_of R (snd (kv_newService P R (conode_contracts R c))) ContractKeyValueID = Some (ContractKeyValue P)"
    and "contract_of R (conode_contracts R (snd (kv_newService P R c))) ContractKeyValueID = Some (ContractKeyValue P)"
    and "contract_of R (snd (kv_newService P R (conode_contracts R c))) ContractLotteryStoreID = Some ContractLotteryStore"
  using assms
  by (simp_all add: registry_law_def conode_contracts_def kv_newService_def tl_newService_def
      ContractKeyValueID_def ContractLotteryStoreID_def)

text \<open>The set-up asks its questions only when neither option is given, and the server always runs.\<close>

lemma setup_action_runs_iff:
  "fst (setup_action V c env) = Returns (Ok ()) \<longleftrightarrow> c_config c = [] \<and> c_debugText c = []"
  by (simp add: setup_action_def)

end
