(* ===== verification/Spec2Isabelle.thy ===== *)
theory Spec2Isabelle
  imports
    Fully_Simulation
    Semi_Byzgen
    Key_Value
    Calypso_Lottery
    Calypso_Byzgen
    Tournament_Run
    Template_Client
    Clock_Calls
    Client_Mains
    Node_Services
    Simulation_Hooks
    Conode
begin

text \<open>
  \<^bold>\<open>Verification of the Calypso experiments\<close>

  The repository compares ways to share encrypted data and to run a lottery on the cothority
  framework: a fully centralised server, a semi-centralised one that trusts a ledger for
  authorisation, the Calypso service itself, a lottery on Calypso, and a tournament lottery that
  needs the ledger only. Beside them stand a key/value contract, and a template protocol and service.

  \<^bold>\<open>What is modelled where\<close>

  \<^item> \<open>Go_Prelude\<close>: results, errors and panics (\<open>go\<close>), the loops that stop at the first error, byte
    strings, hex strings, indexing with its bounds check.
  \<^item> \<open>Crypto_Util\<close>: \<open>util/util.go\<close>, with symmetric and ElGamal encryption, the write data and the
    configuration readers. The group, AES-GCM, the signature scheme and SHA-256 are the fields of
    \<open>suite\<close>, with \<open>group_law\<close>, \<open>aead_law\<close> and \<open>sign_law\<close>; random draws are arguments (\<open>entropy\<close>).
  \<^item> \<open>Blob_Store\<close>: the bbolt transactions of the two servers over a parameter \<open>store_env\<close>, and the locale
    \<open>blob_store\<close> of a content-addressed database with the abstract store that it refines; \<open>Key_Relay\<close>: the
    locale \<open>key_relay\<close> of a server that re-encrypts keys; \<open>Onet_Client\<close>: requests that may be lost.
  \<^item> \<open>Fully_Centralized\<close>: \<open>fully_centralized/service/{struct,service,api}.go\<close>,
    \<open>fully_centralized/api.go\<close> and \<open>client/main.go\<close>. The server is the record \<open>FService\<close> (private key,
    database, bucket); \<open>Write\<close> and \<open>Read\<close> are its handlers. \<open>Fully_Simulation\<close>:
    \<open>fully_centralized/simulation/service.go\<close>, which reads its transactions from an \<open>Aux_File\<close>.
  \<^item> \<open>Semi_Centralized\<close>: \<open>semi_centralized/{struct,db,service,api}.go\<close> and \<open>client/main.go\<close>. The server
    is \<open>SService\<close>; \<open>StoreData\<close> and \<open>Decrypt\<close> are its handlers; the write and the read are instructions
    on the ledger. \<open>Semi_Simulation\<close> and \<open>Semi_Byzgen\<close>: \<open>semi_centralized/simulation/service.go\<close>, with the
    rows of transactions it adds in \<open>Ledger_Rows\<close>.
  \<^item> \<open>Server_Specs\<close>: the abstract servers that both servers refine, call by call and over sequences of calls
    (the locale \<open>service_refinement\<close>). \<open>Node_Services\<close>: a conode that runs both on one database, with their
    constructors, over several starts. \<open>Client_Mains\<close>: \<open>main\<close> of both clients, from the configuration files on.
  \<^item> \<open>Simulation_Hooks\<close>: the constructor, \<open>Setup\<close> and \<open>Node\<close> of the seven simulations, with the fields of their
    configurations. \<open>Conode\<close>: the registration of the two contracts (\<open>byzcoin/service.go\<close>,
    \<open>tournament_lottery/service/service.go\<close>) and the commands of \<open>conode/conode.go\<close>.
  \<^item> \<open>Byzcoin_Api\<close>: transactions, the ledger as a parameter (\<open>ledger\<close>) with \<open>ledger_law\<close> for a single
    transaction and \<open>batch_law\<close> for a row of them, darcs and the genesis block. \<open>Darc_Ledger\<close>: the access control
    by darcs, as laws of a ledger that accepts what the darc of an instance allows, and what the set-up of the
    semi-centralised client (\<open>semi_centralized/api.go\<close>) gives on it. \<open>Contract_Api\<close>: state
    changes, the view of a contract, and the locale \<open>byzcoin_contract\<close>.
  \<^item> \<open>Key_Value\<close>: \<open>byzcoin/keyvalue.go\<close>; \<open>Lottery_Store\<close>: \<open>tournament_lottery/contracts.go\<close>.
  \<^item> \<open>Xor_Bytes\<close>: \<open>SafeXORBytes\<close> on a heap of arrays, because callers pass one slice as destination and
    as argument. \<open>Xor_Lottery\<close>: the draw of the Calypso lottery.
  \<^item> \<open>Calypso_Client\<close>: the calls of the calypso client as a parameter, with the loops its callers share;
    \<open>Calypso_Lottery\<close>: \<open>calypso_lottery/api.go\<close>, \<open>client/main.go\<close> and \<open>simulation/service.go\<close>;
    \<open>Calypso_Simulation\<close> and \<open>Calypso_Byzgen\<close>: \<open>calypso_simulation/service.go\<close>.
  \<^item> \<open>Goroutines\<close>: the clients that a simulation starts at the same time, as states that move in the order
    of a schedule; the locale \<open>goroutine_pool\<close> holds for any such group. \<open>Block_Replay\<close>: the loops that
    replay a list of transactions in blocks, which the Calypso and the semi-centralised simulation share
    but for the calls (\<open>replay_ops\<close>).
  \<^item> \<open>Tournament\<close>: \<open>OrganizeList\<close> of \<open>tournament_lottery/api.go\<close> and the winner of a pair;
    \<open>Tournament_Run\<close>: the transactions, \<open>client/main.go\<close> and \<open>simulation/service.go\<close>.
  \<^item> \<open>Tree_Protocol\<close>: \<open>protocol/protocol.go\<close> as a step relation on the state of all nodes;
    \<open>Template_Service\<close>: \<open>service/service.go\<close> and \<open>simulation/protocol.go\<close>; \<open>Clock_Calls\<close>: calls of \<open>Clock\<close>
    at the same time, as goroutines that move from one locked part to the next; \<open>Template_Client\<close>: \<open>api.go\<close>,
    \<open>simulation/service.go\<close> and \<open>app/app.go\<close>.
  \<^item> \<open>Example_Env\<close>: a concrete suite and database for the witnesses.

  \<^bold>\<open>What the lemmas show\<close>

  \<^item> Sharing. Both servers give back exactly the data that was stored, answer only the reader that
    signed, and keep what was stored; both database interpretations of \<open>blob_store\<close> and both
    interpretations of \<open>key_relay\<close> carry these. On every sequence of calls their replies are those of
    abstract servers without a database, also when one node runs both and is restarted: neither sees the
    calls of the other. But both decrypt with the key of that node, so the centralised one opens the encrypted
    keys of the other's writes to anybody (\<open>semi_data_leaks_through_fully\<close>). In the semi-centralised system the reader key is bound
    to the data key, but the data are not bound to the write; in the centralised one the reader key is not
    bound, since that check is commented out. The programs of both clients, from their configuration
    files on, print what they wrote; the semi-centralised one does so on a ledger that is only known to accept
    what a darc allows, thanks to the rules and the darc that it sets up.
  \<^item> Contracts. Both contracts are interpretations of \<open>byzcoin_contract\<close>: without the consent of the
    darc nothing changes, other instances are left alone, and the darc is kept. Key/value instances
    refine a map, and the lottery store is write-once.
  \<^item> Lotteries. The Calypso draw is independent of the order of the secrets and as fair as one byte
    allows when one participant is honest; batching does not change it. The tournament of the
    simulation refines an abstract knock-out tournament for every number of participants, while the
    client panics unless that number is a power of two.
  \<^item> Simulations. On working servers and ledgers the microbenchmarks recover what they wrote, and the clients
    that read at the same time all succeed under every interleaving. The replays succeed exactly
    when the sizes of the first blocks, for some number of them, add up to the number of transactions, and panic
    otherwise; with servers that refuse a second write they fail from the second round on. The
    set-up of the fully centralised simulation delivers the list of transactions that its replay reads.
  \<^item> Template. The counting protocol ends, in every order of delivery, with the size of the tree;
    \<open>Clock\<close> returns it, except on a single node, where it blocks. Calls at the same time lose no count, under every interleaving. Its simulation leaves on every server the
    number of rounds that chose it.

  \<^bold>\<open>Bounds and termination\<close>

  Loops with an index are \<open>function\<close>s with a measure. The loop that polls for a proof may run forever
  and is a \<open>partial_function\<close> in the option type; \<open>lottery_polling_returns\<close> says when it returns. The
  executable network \<open>net_run\<close> takes fuel, and three times the number of nodes is enough
  (\<open>net_run_steps\<close>). A client of a simulation makes three moves (it adds a read, asks for its proof, decrypts),
  so a schedule in which it appears three times ends it (\<open>fair_sched_ends\<close>); the loop over the blocks uses up
  the sizes of the blocks, and ends with them. Numbers of rounds are logarithms, exact for the numbers of participants that
  a 64-bit float represents and the logarithm of which it rounds correctly. The block interval
  and the call counter are 64-bit words; other Go ints do not come near their bounds.

  \<^bold>\<open>What is not modelled\<close>

  Flag parsing, logging and what else is printed, time measurements, the registration of services and messages
  with onet in the \<open>init\<close> functions, and the one-line \<open>simul.go\<close> programs. The \<open>main\<close> functions of the two
  lottery clients are left out because they do not compile (they call \<open>SetupByzcoin\<close> with one argument of two).
  onet, ByzCoin, Calypso, kyber, bbolt, toml and cli are not in the repository: they are
  parameters, with what the code relies on as named laws, and each property with such a law has a
  witness on a concrete instance.
\<close>

section \<open>The commitments of the tournament on the ledger\<close>

text \<open>The instruction of a commit transaction, run by the contract, and what is in the ledger after
  any further instructions.\<close>

lemma commit_stored:
  assumes "contract_law E" and "batch_law L" and "ds_law P"
    and "encode_DataStore P (Digest (CreateLotteryData H draw)) = Ok buf" and "buf \<noteq> []"
    and "SignInstruction L d sg (spawn_instruction iid nonce ContractLotteryStoreID ''store'' buf) = Ok ins"
    and "VerifyDarcSignature E ins v = Ok ()"
    and "GetValues E v (in_InstanceID ins) = Ok (b, cid, darcID)"
    and "\<not> is_ok (GetValues E v (inst_DeriveID E ins []))"
  shows "GetValues E (run_contract ContractLotteryStore E ((ins, c) # ics) v) (inst_DeriveID E ins []) =
    Ok (buf, ContractLotteryStoreID, darcID) \<and> decode_DataStore P buf = Ok (H draw)"
proof -
  have "in_Spawn ins = Some \<lparr>sp_ContractID = ContractLotteryStoreID,
      sp_Args = [\<lparr>arg_Name = ''store'', arg_Value = buf\<rparr>]\<rparr>"
    using batch_law_sign(1) [OF assms(2,6)] by simp
  from ls_run_keeps [OF assms(1) ls_exec_spawn [OF assms(1,7) this assms(5,8,9), where c = c], of ics]
  have "GetValues E (run_contract ContractLotteryStore E ((ins, c) # ics) v) (inst_DeriveID E ins []) =
      Ok (buf, ContractLotteryStoreID, darcID)"
    by (simp add: run_contract_def)
  moreover have "decode_DataStore P buf = Ok (H draw)"
    using assms(3,4) unfolding ds_law_def CreateLotteryData_def by (metis LotteryData.select_convs(2) go.inject(1))
  ultimately show ?thesis by simp
qed

text \<open>C18. Commitments bind: a participant commits to a draw with the transaction of
  \<open>AddCommitTransaction\<close>, which the lottery contract admits; whatever other instructions the contract
  runs, the ledger still holds the digest of that draw, and against an honest opponent the
  participant, as the left of the pair, wins only with a secret that has the same digest.\<close>

theorem tournament_commitment_binds:
  assumes "contract_law E" and "batch_law L" and "ds_law P"
    and "encode_DataStore P (Digest (CreateLotteryData H draw)) = Ok buf" and "buf \<noteq> []"
    and "SignInstruction L d sg (spawn_instruction iid nonce ContractLotteryStoreID ''store'' buf) = Ok ins"
    and "VerifyDarcSignature E ins v = Ok ()"
    and "GetValues E v (in_InstanceID ins) = Ok (b, cid, darcID)"
    and "\<not> is_ok (GetValues E v (inst_DeriveID E ins []))"
  shows "\<exists>val commit. GetValues E (run_contract ContractLotteryStore E ((ins, c) # ics) v) (inst_DeriveID E ins []) =
      Ok (val, ContractLotteryStoreID, darcID) \<and> decode_DataStore P val = Ok commit \<and>
    (\<forall>secret opponent. length secret = 32 \<longrightarrow> length opponent = 32 \<longrightarrow>
       pair_winners H [secret, opponent] [commit, H opponent] 2 0 = Ok [0] \<longrightarrow> H secret = H draw)"
proof -
  have "H secret = H draw" if "length secret = 32" "length opponent = 32"
      "pair_winners H [secret, opponent] [H draw, H opponent] 2 0 = Ok [0]" for secret opponent
  proof -
    have "pair_winners H [secret, opponent] [H draw, H opponent] 2 0 =
        Ok [if right_wins H secret (H draw) opponent (H opponent) then 1 else 0]"
      using that(1,2) by (subst pair_winners_spec) auto
    with that(3) show ?thesis by (auto simp: right_wins_def split: if_splits)
  qed
  with commit_stored [OF assms, of c ics] show ?thesis by blast
qed

theorem tournament_commitment_binds_witness:
  "\<exists>val commit. GetValues map_contracts (run_contract ContractLotteryStore map_contracts
       [(spawn_instruction [1] [2] ContractLotteryStoreID ''store'' (replicate 32 5), [] :: unit list)]
       [[1] \<mapsto> ([], ''darc'', [9])]) [1, 2] = Ok (val, ContractLotteryStoreID, [9]) \<and>
     decode_DataStore tl_codec val = Ok commit"
proof -
  let ?ins = "spawn_instruction [1] [2] ContractLotteryStoreID ''store'' (replicate 32 5)"
  have ids: "in_InstanceID ?ins = [1]" "inst_DeriveID map_contracts ?ins [] = [1, 2]"
    by (simp_all add: spawn_instruction_def map_contracts_def)
  have "\<exists>val commit. GetValues map_contracts (run_contract ContractLotteryStore map_contracts
       [(?ins, [] :: unit list)] [[1] \<mapsto> ([], ''darc'', [9])]) (inst_DeriveID map_contracts ?ins []) =
       Ok (val, ContractLotteryStoreID, [9]) \<and> decode_DataStore tl_codec val = Ok commit \<and>
    (\<forall>secret opponent. length secret = 32 \<longrightarrow> length opponent = 32 \<longrightarrow>
       pair_winners (\<lambda>s. s) [secret, opponent] [commit, opponent] 2 0 = Ok [0] \<longrightarrow> secret = replicate 32 5)"
    by (rule tournament_commitment_binds [where L = tl_ledger and H = "\<lambda>s. s" and draw = "replicate 32 5" and
          d = "[]" and sg = "()" and iid = "[1]" and nonce = "[2]" and b = "[]" and cid = "''darc''"])
      (simp_all add: tl_codec_law, simp_all add: ids CreateLotteryData_def tl_codec_def example_ledger_def,
       simp_all add: map_contracts_def)
  then show ?thesis unfolding ids by blast
qed

end
